(* ===== verification/Prelude.thy ===== *)
theory Prelude
  imports Main "HOL-Library.Word" "HOL-Library.Sublist"
begin

text \<open>
  Shared vocabulary of the development: Go strings as lists of bytes, the few functions of
  the Go packages \<open>strings\<close> and \<open>slices\<close> that the service uses and that do not depend on
  Unicode, 64-bit integers, error values with \<open>errors.Is\<close>, and generic lemmas about lists.

  A Go \<open>string\<close> is a sequence of bytes, and so is an Isabelle \<open>string\<close>: a \<open>char\<close> has eight
  bits. \<open>length\<close> is therefore Go's \<open>len\<close>.
\<close>

section \<open>Named collections\<close>

named_theorems go_defs \<open>definitions of Go library functions, for evaluation\<close>
named_theorems size_simps \<open>equations for the length of encoded values\<close>

section \<open>Go integers\<close>

text \<open>\<open>int\<close> is 64 bits wide on the platforms the service is built for.\<close>

type_synonym int64 = "64 word"

abbreviation int64 :: "int \<Rightarrow> int64" where
  "int64 \<equiv> word_of_int"

lemma sint_int64_small:
  assumes "- (2 ^ 63) \<le> i" and "i < 2 ^ 63"
  shows "sint (int64 i) = i"
  using assms by (simp add: sint_sbintrunc' signed_take_bit_int_eq_self)

lemma sint_int64_bounds: "- (2 ^ 63) \<le> sint (x :: int64) \<and> sint (x :: int64) < 2 ^ 63"
  using sint_greater_eq [of x] sint_less [of x] by simp

lemma sint_int64_add:
  assumes "- (2 ^ 63) \<le> sint (a :: int64) + sint (b :: int64)" and "sint (a :: int64) + sint (b :: int64) < 2 ^ 63"
  shows "sint (a + b) = sint a + sint b"
proof -
  have "a + b = int64 (sint a + sint b)" by simp
  then show ?thesis using sint_int64_small [OF assms] by simp
qed

section \<open>Errors\<close>

text \<open>
  The sentinel errors the code compares against with \<open>errors.Is\<close>, those of the libraries
  included. \<open>ErrText\<close> is any other error.
\<close>

datatype sentinel =
    ErrAddressMalformed | ErrFromDomainNotAllowed | ErrReplyToDomainNotAllowed
  | ErrAddressTooLong | ErrNotFound | ErrTrackingUnavailable | ErrRecordTooLarge
  | ErrRecordUnencodable | ErrGroupFull | ErrSendThrottled | ErrInvalidKey
  | ErrInvalidFromAddress | ErrInvalidRecipientAddress
  | ErrKeyNotFound | ErrKeyExists | ErrMaxPayload | APIError nat
  | DeadlineExceeded | Canceled | ErrText string

text \<open>
  An error value is the list of the errors in its chain: \<open>fmt.Errorf\<close> with \<open>%w\<close> keeps the
  chain of each wrapped error, and \<open>errors.Is\<close> looks for a sentinel in it. A \<open>nil\<close> error is
  \<open>None\<close> where a function returns only an error.
\<close>

type_synonym goerr = "sentinel list"

definition errors_is :: "goerr \<Rightarrow> sentinel \<Rightarrow> bool" where
  "errors_is e x \<longleftrightarrow> x \<in> set e"

lemma errors_is_simps [simp]:
  "errors_is [] x \<longleftrightarrow> False"
  "errors_is (y # e) x \<longleftrightarrow> x = y \<or> errors_is e x"
  "errors_is (e @ e') x \<longleftrightarrow> errors_is e x \<or> errors_is e' x"
  by (auto simp: errors_is_def)

section \<open>Bytes and byte strings\<close>

definition byte :: "char \<Rightarrow> nat" where
  "byte c = of_char c"

lemma byte_lt [simp]: "byte c < 256"
  by (simp add: byte_def)

lemma byte_le [simp]: "byte c \<le> 255"
  using byte_lt [of c] by linarith

lemma byte_char_of [simp]: "n < 256 \<Longrightarrow> byte (char_of n) = n"
  by (simp add: byte_def)

lemma char_of_byte [simp]: "char_of (byte c) = c"
  by (simp add: byte_def)

lemma byte_eq_iff: "byte c = byte d \<longleftrightarrow> c = d"
  by (metis char_of_byte)

definition chr :: "nat \<Rightarrow> char" where
  "chr n = char_of n"

text \<open>For evaluation: the bits of a byte by division.\<close>

lemma chr_eval [code, go_defs]:
  "chr n = Char (odd n) (odd (n div 2)) (odd (n div 4)) (odd (n div 8))
     (odd (n div 16)) (odd (n div 32)) (odd (n div 64)) (odd (n div 128))"
  by (simp add: chr_def char_of_def bit_iff_odd)

lemma byte_eval [code, go_defs]:
  "byte (Char b0 b1 b2 b3 b4 b5 b6 b7) =
     of_bool b0 + 2 * of_bool b1 + 4 * of_bool b2 + 8 * of_bool b3 + 16 * of_bool b4
     + 32 * of_bool b5 + 64 * of_bool b6 + 128 * of_bool b7"
  by (simp add: byte_def)

lemma byte_chr [simp]: "n < 256 \<Longrightarrow> byte (chr n) = n"
  by (simp add: chr_def)

lemma chr_byte [simp]: "chr (byte c) = c"
  by (simp add: chr_def)

text \<open>\<open>strings.LastIndex(s, c)\<close> for a one-byte separator; Go's \<open>-1\<close> is \<open>None\<close>.\<close>

fun last_index :: "char \<Rightarrow> string \<Rightarrow> nat option" where
  "last_index c [] = None"
| "last_index c (x # xs) =
     (case last_index c xs of
        Some i \<Rightarrow> Some (Suc i)
      | None \<Rightarrow> if x = c then Some 0 else None)"

lemma last_index_None_iff: "last_index c s = None \<longleftrightarrow> c \<notin> set s"
  by (induction s) (auto split: option.splits)

lemma last_index_None [simp]: "c \<notin> set s \<Longrightarrow> last_index c s = None"
  by (simp add: last_index_None_iff)

lemma last_index_Some_iff:
  "last_index c s = Some i \<longleftrightarrow> i < length s \<and> s ! i = c \<and> c \<notin> set (drop (Suc i) s)"
proof (induction s arbitrary: i)
  case (Cons x xs)
  show ?case
  proof (cases i)
    case 0
    then show ?thesis using last_index_None_iff [of c xs]
      by (cases "last_index c xs") auto
  next
    case (Suc j)
    have "last_index c (x # xs) = Some (Suc j) \<longleftrightarrow> last_index c xs = Some j"
      by (auto split: option.splits)
    with Suc Cons.IH [of j] show ?thesis by simp
  qed
qed simp

lemma last_index_append: "c \<notin> set t \<Longrightarrow> last_index c (s @ c # t) = Some (length s)"
  by (simp add: last_index_Some_iff)

lemma last_index_decomp:
  assumes "last_index c s = Some i"
  shows "s = take i s @ c # drop (Suc i) s" and "c \<notin> set (drop (Suc i) s)"
  using assms by (auto simp: last_index_Some_iff id_take_nth_drop)

text \<open>\<open>strings.Index(s, c)\<close> and \<open>strings.IndexAny\<close>: the first byte satisfying a test.\<close>

fun first_index :: "(char \<Rightarrow> bool) \<Rightarrow> string \<Rightarrow> nat option" where
  "first_index p [] = None"
| "first_index p (x # xs) = (if p x then Some 0 else map_option Suc (first_index p xs))"

lemma first_index_None [simp]: "first_index p s = None \<longleftrightarrow> (\<forall>x \<in> set s. \<not> p x)"
  by (induction s) auto

lemma first_index_Some:
  "first_index p s = Some i \<Longrightarrow> i < length s \<and> p (s ! i) \<and> (\<forall>x \<in> set (take i s). \<not> p x)"
  by (induction s arbitrary: i) (auto split: if_splits)

text \<open>\<open>strings.Index(s, sub)\<close> for a non-empty \<open>sub\<close>, and \<open>strings.Contains\<close>.\<close>

fun index_sub :: "string \<Rightarrow> string \<Rightarrow> nat option" where
  "index_sub sub [] = (if sub = [] then Some 0 else None)"
| "index_sub sub (x # xs) =
     (if prefix sub (x # xs) then Some 0 else map_option Suc (index_sub sub xs))"

definition contains :: "string \<Rightarrow> string \<Rightarrow> bool" where
  "contains s sub \<longleftrightarrow> index_sub sub s \<noteq> None"

lemma index_sub_Some:
  "index_sub sub s = Some i \<Longrightarrow> i \<le> length s \<and> prefix sub (drop i s)"
  by (induction s arbitrary: i) (auto split: if_splits)

lemma contains_char: "contains s [c] \<Longrightarrow> c \<in> set s"
proof -
  assume "contains s [c]"
  then obtain i where "prefix [c] (drop i s)" using index_sub_Some by (fastforce simp: contains_def)
  then have "c \<in> set (drop i s)" by (auto simp: prefix_def)
  then show "c \<in> set s" by (rule in_set_dropD)
qed

text \<open>\<open>strings.Split(s, sep)\<close> for a one-byte separator: never the empty list.\<close>

fun split_on :: "char \<Rightarrow> string \<Rightarrow> string list" where
  "split_on c [] = [[]]"
| "split_on c (x # xs) =
     (if x = c then [] # split_on c xs
      else (case split_on c xs of [] \<Rightarrow> [[x]] | p # ps \<Rightarrow> (x # p) # ps))"

lemma split_on_not_Nil [simp]: "split_on c s \<noteq> []"
  by (cases s) (auto split: list.splits)

lemma split_on_no_sep: "c \<notin> set s \<Longrightarrow> split_on c s = [s]"
  by (induction s) auto

lemma split_on_append_sep: "split_on c (s @ c # t) = split_on c s @ split_on c t"
  by (induction s) (auto split: list.splits)

fun join_on :: "char \<Rightarrow> string list \<Rightarrow> string" where
  "join_on c [] = []"
| "join_on c [p] = p"
| "join_on c (p # ps) = p @ c # join_on c ps"

lemma join_on_Cons: "ps \<noteq> [] \<Longrightarrow> join_on c (p # ps) = p @ c # join_on c ps"
  by (cases ps) auto

lemma join_on_Cons_first: "join_on c ((x # p) # ps) = x # join_on c (p # ps)"
  by (cases ps) auto

lemma join_split_on [simp]: "join_on c (split_on c s) = s"
proof (induction s)
  case (Cons x xs)
  then show ?case
    by (cases "split_on c xs") (simp_all add: join_on_Cons join_on_Cons_first)
qed simp

lemma split_on_parts: "p \<in> set (split_on c s) \<Longrightarrow> c \<notin> set p"
  by (induction s arbitrary: p) (auto split: list.splits if_splits)

lemma split_on_two_iff:
  "split_on c s = [p, q] \<longleftrightarrow> s = p @ c # q \<and> c \<notin> set p \<and> c \<notin> set q"
proof
  assume *: "split_on c s = [p, q]"
  with join_split_on [of c s] have "s = p @ c # q" by simp
  with * show "s = p @ c # q \<and> c \<notin> set p \<and> c \<notin> set q"
    using split_on_parts [of _ c s] by auto
qed (auto simp: split_on_append_sep split_on_no_sep)

lemma subseq_take: "subseq xs (take n ys) \<Longrightarrow> subseq xs ys"
proof -
  assume "subseq xs (take n ys)"
  moreover have "subseq (take n ys) ys"
    by (metis append_take_drop_id subseq_rev_drop_many subseq_order.order_refl)
  ultimately show ?thesis by (rule subseq_order.order_trans)
qed

end
