(* ===== verification/GoStrings.thy ===== *)
theory GoStrings
  imports Prelude
begin

text \<open>
  UTF-8 and Unicode as the Go packages \<open>unicode/utf8\<close>, \<open>unicode\<close> and \<open>strings\<close> treat them.
  A rune is a natural number. Decoding follows \<open>utf8.DecodeRuneInString\<close>: an ill-formed
  sequence decodes to U+FFFD with width 1. The case tables of \<open>unicode\<close> for runes outside
  ASCII are data of the toolchain and are a parameter, the record \<open>unicode\<close>.
\<close>

section \<open>Decoding and encoding\<close>

definition rune_error :: nat where
  "rune_error = 0xFFFD"

definition is_cont :: "char \<Rightarrow> bool" where
  "is_cont c \<longleftrightarrow> 0x80 \<le> byte c \<and> byte c \<le> 0xBF"

text \<open>The range of the second byte, by the first byte (\<open>acceptRanges\<close>).\<close>

definition accept_lo :: "nat \<Rightarrow> nat" where
  "accept_lo b = (if b = 0xE0 then 0xA0 else if b = 0xF0 then 0x90 else 0x80)"

definition accept_hi :: "nat \<Rightarrow> nat" where
  "accept_hi b = (if b = 0xED then 0x9F else if b = 0xF4 then 0x8F else 0xBF)"

text \<open>\<open>utf8.DecodeRuneInString\<close>: the first rune and its width.\<close>

fun decode_rune :: "string \<Rightarrow> nat \<times> nat" where
  "decode_rune [] = (rune_error, 0)"
| "decode_rune (c # cs) =
     (let b = byte c in
      if b < 0x80 then (b, 1)
      else if b < 0xC2 \<or> 0xF4 < b then (rune_error, 1)
      else (case cs of
        [] \<Rightarrow> (rune_error, 1)
      | c1 # cs1 \<Rightarrow>
          if byte c1 < accept_lo b \<or> accept_hi b < byte c1 then (rune_error, 1)
          else if b < 0xE0 then ((b - 0xC0) * 64 + (byte c1 - 0x80), 2)
          else (case cs1 of
            [] \<Rightarrow> (rune_error, 1)
          | c2 # cs2 \<Rightarrow>
              if \<not> is_cont c2 then (rune_error, 1)
              else if b < 0xF0
                then ((b - 0xE0) * 4096 + (byte c1 - 0x80) * 64 + (byte c2 - 0x80), 3)
              else (case cs2 of
                [] \<Rightarrow> (rune_error, 1)
              | c3 # cs3 \<Rightarrow>
                  if \<not> is_cont c3 then (rune_error, 1)
                  else ((b - 0xF0) * 262144 + (byte c1 - 0x80) * 4096
                        + (byte c2 - 0x80) * 64 + (byte c3 - 0x80), 4)))))"

declare decode_rune.simps(2) [simp del]

lemma decode_rune_width:
  "s \<noteq> [] \<Longrightarrow> 0 < snd (decode_rune s) \<and> snd (decode_rune s) \<le> length s"
  by (cases s) (auto simp: decode_rune.simps(2) Let_def split: list.splits)

lemma decode_rune_width_le: "snd (decode_rune s) \<le> 4"
  by (cases s) (auto simp: decode_rune.simps(2) Let_def split: list.splits)

lemma decode_rune_ascii [simp]: "byte c < 0x80 \<Longrightarrow> decode_rune (c # cs) = (byte c, 1)"
  by (simp add: decode_rune.simps(2))

text \<open>\<open>utf8.ValidRune\<close> and \<open>utf8.AppendRune\<close>.\<close>

definition valid_rune :: "nat \<Rightarrow> bool" where
  "valid_rune r \<longleftrightarrow> r < 0xD800 \<or> (0xDFFF < r \<and> r \<le> 0x10FFFF)"

definition encode_valid :: "nat \<Rightarrow> string" where
  "encode_valid r =
     (if r < 0x80 then [chr r]
      else if r < 0x800 then [chr (0xC0 + r div 64), chr (0x80 + r mod 64)]
      else if r < 0x10000
        then [chr (0xE0 + r div 4096), chr (0x80 + r div 64 mod 64), chr (0x80 + r mod 64)]
      else [chr (0xF0 + r div 262144), chr (0x80 + r div 4096 mod 64),
            chr (0x80 + r div 64 mod 64), chr (0x80 + r mod 64)])"

definition encode_rune :: "nat \<Rightarrow> string" where
  "encode_rune r = encode_valid (if valid_rune r then r else rune_error)"

lemma encode_rune_not_Nil [simp]: "encode_rune r \<noteq> []"
  by (simp add: encode_rune_def encode_valid_def)

lemma encode_rune_ascii: "r < 0x80 \<Longrightarrow> encode_rune r = [chr r]"
  by (simp add: encode_rune_def encode_valid_def valid_rune_def)

lemma length_encode_rune_le: "length (encode_rune r) \<le> 4"
  by (simp add: encode_rune_def encode_valid_def)

lemma byte_chr_cont [simp]: "byte (chr (0x80 + n mod 64)) = 0x80 + n mod 64"
proof -
  have "n mod 64 < 64" by simp
  then have "0x80 + n mod 64 < 256" by linarith
  then show ?thesis by (rule byte_chr)
qed

lemma is_cont_chr_mod [simp]: "is_cont (chr (0x80 + n mod 64))"
proof -
  have "n mod 64 < 64" by simp
  then show ?thesis unfolding is_cont_def byte_chr_cont by linarith
qed

lemma decode_encode_valid:
  assumes "valid_rune r"
  shows "decode_rune (encode_valid r @ s) = (r, length (encode_valid r))"
proof -
  consider "r < 0x80" | "0x80 \<le> r" "r < 0x800" | "0x800 \<le> r" "r < 0x10000" | "0x10000 \<le> r"
    by linarith
  then show ?thesis
  proof cases
    case 1
    then show ?thesis by (simp add: encode_valid_def)
  next
    case 2
    then have "2 \<le> r div 64" "r div 64 < 32" by simp_all
    with 2 show ?thesis
      by (simp add: encode_valid_def decode_rune.simps(2) Let_def accept_lo_def accept_hi_def)
  next
    case 3
    have d: "r div 4096 < 16" "r div 64 = r div 4096 * 64 + r div 64 mod 64"
      using 3 div_mult_mod_eq [of "r div 64" 64] by (simp_all add: div_mult2_eq [symmetric])
    have lo: "accept_lo (0xE0 + r div 4096) \<le> 0x80 + r div 64 mod 64"
      using 3 d by (auto simp: accept_lo_def)
    have hi: "0x80 + r div 64 mod 64 \<le> accept_hi (0xE0 + r div 4096)"
      using 3 d assms by (auto simp: accept_hi_def valid_rune_def)
    have sum: "r div 4096 * 4096 + r div 64 mod 64 * 64 + r mod 64 = r"
      using d(2) div_mult_mod_eq [of r 64] by linarith
    show ?thesis using 3 d(1) lo hi sum
      by (simp add: encode_valid_def decode_rune.simps(2) Let_def not_less)
  next
    case 4
    have d: "r div 262144 < 5" "r div 4096 = r div 262144 * 64 + r div 4096 mod 64"
      "r div 64 = r div 4096 * 64 + r div 64 mod 64"
      using 4 assms div_mult_mod_eq [of "r div 4096" 64] div_mult_mod_eq [of "r div 64" 64]
      by (simp_all add: div_mult2_eq [symmetric] valid_rune_def)
    have lo: "accept_lo (0xF0 + r div 262144) \<le> 0x80 + r div 4096 mod 64"
      using 4 d by (auto simp: accept_lo_def)
    have m: "r div 4096 mod 64 < 64" "r div 4096 \<le> 0x10F"
      using 4 assms by (simp_all add: valid_rune_def)
    have hi: "0x80 + r div 4096 mod 64 \<le> accept_hi (0xF0 + r div 262144)"
    proof (cases "r div 262144 = 4")
      case True
      with d(2) m(2) have "r div 4096 mod 64 \<le> 15" by linarith
      with True show ?thesis by (simp add: accept_hi_def)
    next
      case False
      with d(1) m(1) show ?thesis by (simp add: accept_hi_def)
    qed
    have sum: "r div 262144 * 262144 + r div 4096 mod 64 * 4096 + r div 64 mod 64 * 64 + r mod 64 = r"
      using d(2,3) div_mult_mod_eq [of r 64] by linarith
    show ?thesis using 4 d(1) lo hi sum
      by (simp add: encode_valid_def decode_rune.simps(2) Let_def not_less)
  qed
qed

lemma decode_encode_rune:
  "valid_rune r \<Longrightarrow> decode_rune (encode_rune r @ s) = (r, length (encode_rune r))"
  by (simp add: encode_rune_def decode_encode_valid)

section \<open>Strings as sequences of runes\<close>

text \<open>
  \<open>rune_segs s\<close> cuts \<open>s\<close> the way \<open>for i, r := range s\<close> walks it: each rune with the bytes it
  was decoded from. \<open>runes\<close> is the conversion \<open>[]rune(s)\<close>, \<open>from_runes\<close> the conversion back.
\<close>

function rune_segs :: "string \<Rightarrow> (nat \<times> string) list" where
  "rune_segs s =
     (if s = [] then []
      else (fst (decode_rune s), take (snd (decode_rune s)) s)
             # rune_segs (drop (snd (decode_rune s)) s))"
  by pat_completeness auto
termination
proof (relation "measure length")
  fix s :: string
  assume "s \<noteq> []"
  then show "(drop (snd (decode_rune s)) s, s) \<in> measure length"
    using decode_rune_width [of s] by simp
qed simp

declare rune_segs.simps [simp del]

lemma rune_segs_Nil [simp]: "rune_segs [] = []"
  by (simp add: rune_segs.simps)

lemma rune_segs_not_Nil:
  "s \<noteq> [] \<Longrightarrow> rune_segs s =
     (fst (decode_rune s), take (snd (decode_rune s)) s) # rune_segs (drop (snd (decode_rune s)) s)"
  by (subst rune_segs.simps) simp

lemma rune_segs_code [code]:
  "rune_segs [] = []"
  "rune_segs (c # cs) =
     (let (r, n) = decode_rune (c # cs)
      in (r, take n (c # cs)) # rune_segs (drop n (c # cs)))"
  by (simp_all add: rune_segs_not_Nil case_prod_beta)

lemma rune_segs_eq_Nil [simp]: "rune_segs s = [] \<longleftrightarrow> s = []"
  by (cases "s = []") (simp_all add: rune_segs_not_Nil)

lemma concat_rune_segs [simp]: "concat (map snd (rune_segs s)) = s"
proof (induction s rule: rune_segs.induct)
  case (1 s)
  then show ?case
    by (cases "s = []") (simp_all add: rune_segs_not_Nil)
qed

definition runes :: "string \<Rightarrow> nat list" where
  "runes s = map fst (rune_segs s)"

definition rune_count :: "string \<Rightarrow> nat" where
  "rune_count s = length (runes s)"

definition from_runes :: "nat list \<Rightarrow> string" where
  "from_runes rs = concat (map encode_rune rs)"

lemma runes_Nil [simp]: "runes [] = []"
  by (simp add: runes_def)

lemma runes_eq_Nil [simp]: "runes s = [] \<longleftrightarrow> s = []"
  by (simp add: runes_def)

lemma runes_encode_append [simp]:
  "valid_rune r \<Longrightarrow> runes (encode_rune r @ s) = r # runes s"
  by (simp add: runes_def rune_segs_not_Nil decode_encode_rune)

lemma runes_ascii_Cons [simp]: "byte c < 0x80 \<Longrightarrow> runes (c # s) = byte c # runes s"
  by (simp add: runes_def rune_segs_not_Nil)

lemma from_runes_simps [simp]:
  "from_runes [] = []"
  "from_runes (r # rs) = encode_rune r @ from_runes rs"
  "from_runes (rs @ rs') = from_runes rs @ from_runes rs'"
  by (simp_all add: from_runes_def)

lemma runes_from_runes: "list_all valid_rune rs \<Longrightarrow> runes (from_runes rs) = rs"
  by (induction rs) auto

lemma decode_rune_valid: "valid_rune (fst (decode_rune s))"
proof (cases s)
  case (Cons c cs)
  have b: "byte x < 256" for x by simp
  show ?thesis unfolding Cons
    by (auto simp: decode_rune.simps(2) Let_def valid_rune_def rune_error_def accept_lo_def
        accept_hi_def is_cont_def not_less split: list.splits if_splits; use b in linarith)
qed (simp add: valid_rune_def rune_error_def)

lemma runes_valid: "list_all valid_rune (runes s)"
proof (induction s rule: rune_segs.induct)
  case (1 s)
  then show ?case
    by (cases "s = []") (simp_all add: runes_def rune_segs_not_Nil decode_rune_valid)
qed

lemma rune_count_le: "rune_count s \<le> length s"
proof (induction s rule: rune_segs.induct)
  case (1 s)
  show ?case
  proof (cases "s = []")
    case False
    with 1 decode_rune_width [OF False] show ?thesis
      by (auto simp: rune_count_def runes_def rune_segs_not_Nil)
  qed (simp add: rune_count_def)
qed

section \<open>ASCII\<close>

definition ascii :: "string \<Rightarrow> bool" where
  "ascii s \<longleftrightarrow> list_all (\<lambda>c. byte c < 0x80) s"

lemma ascii_simps [simp]:
  "ascii []" "ascii (c # s) \<longleftrightarrow> byte c < 0x80 \<and> ascii s"
  "ascii (s @ t) \<longleftrightarrow> ascii s \<and> ascii t"
  by (auto simp: ascii_def)

lemma runes_ascii: "ascii s \<Longrightarrow> runes s = map byte s"
  by (induction s) auto

lemma from_runes_map_ascii:
  "list_all (\<lambda>r. r < 0x80) rs \<Longrightarrow> from_runes rs = map chr rs"
  by (induction rs) (auto simp: encode_rune_ascii)

definition is_upper_byte :: "nat \<Rightarrow> bool" where
  "is_upper_byte b \<longleftrightarrow> 65 \<le> b \<and> b \<le> 90"

definition is_lower_byte :: "nat \<Rightarrow> bool" where
  "is_lower_byte b \<longleftrightarrow> 97 \<le> b \<and> b \<le> 122"

definition lower_byte :: "nat \<Rightarrow> nat" where
  "lower_byte b = (if is_upper_byte b then b + 32 else b)"

definition upper_byte :: "nat \<Rightarrow> nat" where
  "upper_byte b = (if is_lower_byte b then b - 32 else b)"

section \<open>Unicode case mapping and white space\<close>

record unicode =
  u_lower :: "nat \<Rightarrow> nat"  \<comment> \<open>\<open>unicode.ToLower\<close> for runes from U+0080\<close>
  u_upper :: "nat \<Rightarrow> nat"  \<comment> \<open>\<open>unicode.ToUpper\<close> for runes from U+0080\<close>
  u_fold :: "nat \<Rightarrow> nat"   \<comment> \<open>\<open>unicode.SimpleFold\<close>\<close>

definition rune_lower :: "unicode \<Rightarrow> nat \<Rightarrow> nat" where
  "rune_lower U r = (if r < 0x80 then lower_byte r else u_lower U r)"

definition rune_upper :: "unicode \<Rightarrow> nat \<Rightarrow> nat" where
  "rune_upper U r = (if r < 0x80 then upper_byte r else u_upper U r)"

text \<open>\<open>strings.ToLower\<close> and \<open>strings.ToUpper\<close> (\<open>strings.Map\<close> over the runes).\<close>

definition to_lower :: "unicode \<Rightarrow> string \<Rightarrow> string" where
  "to_lower U s = from_runes (map (rune_lower U) (runes s))"

definition to_upper :: "unicode \<Rightarrow> string \<Rightarrow> string" where
  "to_upper U s = from_runes (map (rune_upper U) (runes s))"

definition ascii_lower :: "string \<Rightarrow> string" where
  "ascii_lower s = map (\<lambda>c. chr (lower_byte (byte c))) s"

definition ascii_upper :: "string \<Rightarrow> string" where
  "ascii_upper s = map (\<lambda>c. chr (upper_byte (byte c))) s"

lemma lower_byte_lt: "b < 0x80 \<Longrightarrow> lower_byte b < 0x80"
  by (simp add: lower_byte_def is_upper_byte_def)

lemma upper_byte_lt: "b < 0x80 \<Longrightarrow> upper_byte b < 0x80"
  by (auto simp: upper_byte_def is_lower_byte_def)

lemma to_lower_ascii: "ascii s \<Longrightarrow> to_lower U s = ascii_lower s"
  by (induction s)
    (auto simp: to_lower_def ascii_lower_def rune_lower_def encode_rune_ascii lower_byte_lt)

lemma to_upper_ascii: "ascii s \<Longrightarrow> to_upper U s = ascii_upper s"
  by (induction s)
    (auto simp: to_upper_def ascii_upper_def rune_upper_def encode_rune_ascii upper_byte_lt)

lemma to_lower_Nil [simp]: "to_lower U [] = []" and to_upper_Nil [simp]: "to_upper U [] = []"
  by (simp_all add: to_lower_def to_upper_def)

lemma to_lower_eq_Nil [simp]: "to_lower U s = [] \<longleftrightarrow> s = []"
  by (simp add: to_lower_def from_runes_def)

lemma length_ascii_lower [simp]: "length (ascii_lower s) = length s"
  by (simp add: ascii_lower_def)

lemma ascii_lower_append [simp]: "ascii_lower (s @ t) = ascii_lower s @ ascii_lower t"
  by (simp add: ascii_lower_def)

lemma lower_byte_idem [simp]: "lower_byte (lower_byte b) = lower_byte b"
  by (simp add: lower_byte_def is_upper_byte_def)

lemma lower_byte_256 [simp]: "b < 256 \<Longrightarrow> lower_byte b < 256"
  by (simp add: lower_byte_def is_upper_byte_def)

lemma ascii_lower_idem [simp]: "ascii_lower (ascii_lower s) = ascii_lower s"
  by (simp add: ascii_lower_def)

lemma lower_byte_ascii_iff: "lower_byte b < 0x80 \<longleftrightarrow> b < 0x80"
  by (auto simp: lower_byte_def is_upper_byte_def)

lemma ascii_ascii_lower [simp]: "ascii (ascii_lower s) \<longleftrightarrow> ascii s"
  by (induction s) (simp_all add: ascii_lower_def lower_byte_ascii_iff)

text \<open>\<open>unicode.IsSpace\<close> and \<open>strings.TrimSpace\<close>.\<close>

definition is_space :: "nat \<Rightarrow> bool" where
  "is_space r \<longleftrightarrow> (9 \<le> r \<and> r \<le> 13) \<or> r = 0x20 \<or> r = 0x85 \<or> r = 0xA0 \<or> r = 0x1680
     \<or> (0x2000 \<le> r \<and> r \<le> 0x200A) \<or> r = 0x2028 \<or> r = 0x2029 \<or> r = 0x202F
     \<or> r = 0x205F \<or> r = 0x3000"

definition trim_space :: "string \<Rightarrow> string" where
  "trim_space s =
     concat (map snd (rev (dropWhile (is_space \<circ> fst)
       (rev (dropWhile (is_space \<circ> fst) (rune_segs s))))))"

lemma trim_space_Nil [simp]: "trim_space [] = []"
  by (simp add: trim_space_def)

text \<open>A string without leading and trailing spaces is unchanged.\<close>

lemma trim_space_id:
  assumes "s \<noteq> []" and "\<not> is_space (hd (runes s))" and "\<not> is_space (last (runes s))"
  shows "trim_space s = s"
proof -
  let ?g = "rune_segs s"
  from assms have ne: "?g \<noteq> []" by simp
  with assms have h: "\<not> is_space (fst (hd ?g))" and l: "\<not> is_space (fst (last ?g))"
    by (simp_all add: runes_def hd_map last_map)
  have 1: "dropWhile (is_space \<circ> fst) ?g = ?g"
    using ne h by (cases ?g) auto
  have 2: "dropWhile (is_space \<circ> fst) (rev ?g) = rev ?g"
    using ne l by (cases "rev ?g") (auto simp: hd_rev [symmetric])
  show ?thesis by (simp add: trim_space_def 1 2)
qed

section \<open>Case folding\<close>

text \<open>
  \<open>strings.EqualFold\<close> on two runes. The loop follows \<open>unicode.SimpleFold\<close> around the orbit of
  the smaller rune until it reaches or passes the larger one or is back at the start. An orbit
  visits each rune below the larger one at most once, so the larger rune is fuel enough.
\<close>

fun fold_orbit :: "(nat \<Rightarrow> nat) \<Rightarrow> nat \<Rightarrow> nat \<Rightarrow> nat \<Rightarrow> nat \<Rightarrow> nat" where
  "fold_orbit sfold 0 sr r tr = r"
| "fold_orbit sfold (Suc n) sr r tr =
     (if r \<noteq> sr \<and> r < tr then fold_orbit sfold n sr (sfold r) tr else r)"

definition equal_fold_rune :: "unicode \<Rightarrow> nat \<Rightarrow> nat \<Rightarrow> bool" where
  "equal_fold_rune U a b =
     (let sr = min a b; tr = max a b in
      if a = b then True
      else if tr < 0x80 then is_upper_byte sr \<and> tr = sr + 32
      else fold_orbit (u_fold U) tr sr (u_fold U sr) tr = tr)"

fun equal_fold_runes :: "unicode \<Rightarrow> nat list \<Rightarrow> nat list \<Rightarrow> bool" where
  "equal_fold_runes U [] [] = True"
| "equal_fold_runes U (a # as) (b # bs) = (equal_fold_rune U a b \<and> equal_fold_runes U as bs)"
| "equal_fold_runes U _ _ = False"

definition equal_fold :: "unicode \<Rightarrow> string \<Rightarrow> string \<Rightarrow> bool" where
  "equal_fold U s t = equal_fold_runes U (runes s) (runes t)"

lemma equal_fold_rune_ascii:
  "a < 0x80 \<Longrightarrow> b < 0x80 \<Longrightarrow> equal_fold_rune U a b \<longleftrightarrow> lower_byte a = lower_byte b"
  by (auto simp: equal_fold_rune_def Let_def is_upper_byte_def lower_byte_def min_def max_def)

lemma equal_fold_ascii:
  assumes "ascii s" and "ascii t"
  shows "equal_fold U s t \<longleftrightarrow> ascii_lower s = ascii_lower t"
proof -
  have inj: "chr (lower_byte (byte c)) = chr (lower_byte (byte d)) \<longleftrightarrow> lower_byte (byte c) = lower_byte (byte d)" for c d
    by (metis byte_chr byte_lt lower_byte_256)
  have "equal_fold_runes U (map byte s) (map byte t) \<longleftrightarrow> ascii_lower s = ascii_lower t"
    using assms
  proof (induction s arbitrary: t)
    case Nil
    then show ?case by (cases t) (simp_all add: ascii_lower_def)
  next
    case (Cons c s)
    then show ?case by (cases t) (simp_all add: ascii_lower_def equal_fold_rune_ascii inj)
  qed
  with assms show ?thesis by (simp add: equal_fold_def runes_ascii)
qed

end
