(* ===== verification/GoStrconv.thy ===== *)
theory GoStrconv
  imports GoStrings
begin

text \<open>
  Decimal integers as the Go package \<open>strconv\<close> writes and reads them; \<open>atoi_int_str\<close> shows that
  what it writes is read back.
\<close>

section \<open>Writing\<close>

text \<open>\<open>strconv.Itoa\<close>.\<close>

fun nat_str :: "nat \<Rightarrow> string" where
  "nat_str n = (if n < 10 then [chr (48 + n)] else nat_str (n div 10) @ [chr (48 + n mod 10)])"

declare nat_str.simps [simp del]

definition int_str :: "int \<Rightarrow> string" where
  "int_str i = (if i < 0 then CHR ''-'' # nat_str (nat (- i)) else nat_str (nat i))"

section \<open>Reading\<close>

definition is_digit :: "char \<Rightarrow> bool" where
  "is_digit c \<longleftrightarrow> 48 \<le> byte c \<and> byte c \<le> 57"

text \<open>
  \<open>strconv.Atoi\<close> for a 64-bit \<open>int\<close>: an optional sign and at least one digit, nothing else; an
  error when the value does not fit.
\<close>

fun digits_value :: "nat \<Rightarrow> string \<Rightarrow> nat option" where
  "digits_value n [] = Some n"
| "digits_value n (c # cs) =
     (if is_digit c then digits_value (10 * n + (byte c - 48)) cs else None)"

definition atoi :: "string \<Rightarrow> int64 option" where
  "atoi s =
     (let neg = (s \<noteq> [] \<and> hd s = CHR ''-'');
          ds = (if s \<noteq> [] \<and> (hd s = CHR ''-'' \<or> hd s = CHR ''+'') then tl s else s)
      in if ds = [] then None
         else (case digits_value 0 ds of
                 None \<Rightarrow> None
               | Some n \<Rightarrow>
                   let i = (if neg then - int n else int n) in
                   if - (2 ^ 63) \<le> i \<and> i < 2 ^ 63 then Some (int64 i) else None))"

text \<open>Hexadecimal digits.\<close>

definition is_hex_lower :: "char \<Rightarrow> bool" where
  "is_hex_lower c \<longleftrightarrow> is_digit c \<or> (97 \<le> byte c \<and> byte c \<le> 102)"

definition is_hex :: "char \<Rightarrow> bool" where
  "is_hex c \<longleftrightarrow> is_hex_lower c \<or> (65 \<le> byte c \<and> byte c \<le> 70)"

section \<open>Lemmas\<close>

lemma length_nat_str_le: "n < 10 ^ Suc k \<Longrightarrow> length (nat_str n) \<le> Suc k"
proof (induction k arbitrary: n)
  case 0
  then show ?case by (simp add: nat_str.simps)
next
  case (Suc k)
  show ?case
  proof (cases "n < 10")
    case False
    have "n div 10 < 10 ^ Suc k" using Suc.prems by (simp add: less_mult_imp_div_less mult.commute)
    then have "length (nat_str (n div 10)) \<le> Suc k" by (rule Suc.IH)
    with False show ?thesis by (subst nat_str.simps) simp
  qed (simp add: nat_str.simps)
qed

lemma length_nat_str_pos: "0 < length (nat_str n)"
  by (subst nat_str.simps) simp

lemma length_int_str_pos: "0 < length (int_str i)"
  by (simp add: int_str_def length_nat_str_pos del: length_greater_0_conv)

lemma length_int64_str_le: "length (int_str (sint (x :: int64))) \<le> 20"
proof -
  note b = sint_int64_bounds [of x]
  show ?thesis
  proof (cases "sint x < 0")
    case True
    then have "nat (- sint x) < 10 ^ Suc 18" using b by simp
    then show ?thesis using length_nat_str_le [of _ 18] True by (simp add: int_str_def)
  next
    case False
    then have "nat (sint x) < 10 ^ Suc 18" using b by simp
    then show ?thesis using length_nat_str_le [of "nat (sint x)" 18] False by (simp add: int_str_def)
  qed
qed

lemma digits_value_append:
  "digits_value n (xs @ ys) = (case digits_value n xs of None \<Rightarrow> None | Some m \<Rightarrow> digits_value m ys)"
  by (induction xs arbitrary: n) auto

lemma is_digit_chr [simp]: "d < 10 \<Longrightarrow> is_digit (chr (48 + d))"
  by (simp add: is_digit_def)

lemma digits_value_nat_str: "digits_value 0 (nat_str n) = Some n"
proof (induction n rule: nat_str.induct)
  case (1 n)
  show ?case
  proof (cases "n < 10")
    case True
    then show ?thesis by (simp add: nat_str.simps)
  next
    case False
    with 1 have "digits_value 0 (nat_str (n div 10)) = Some (n div 10)" by simp
    with False show ?thesis by (subst nat_str.simps) (simp add: digits_value_append)
  qed
qed

lemma nat_str_digits: "list_all is_digit (nat_str n)"
proof (induction n rule: nat_str.induct)
  case (1 n)
  then show ?case by (cases "n < 10") (subst nat_str.simps, simp)+
qed

lemma nat_str_not_Nil [simp]: "nat_str n \<noteq> []"
  using length_nat_str_pos [of n] by simp

lemma nat_str_hd: "is_digit (hd (nat_str n))"
  using nat_str_digits [of n] by (cases "nat_str n") simp_all

lemma is_digit_sign [simp]: "\<not> is_digit CHR ''-''" "\<not> is_digit CHR ''+''"
  by (simp_all add: is_digit_def byte_eval)

lemma atoi_int_str: "atoi (int_str (sint i)) = Some i"
proof -
  note b = sint_int64_bounds [of i]
  have h: "hd (nat_str n) \<noteq> CHR ''-''" "hd (nat_str n) \<noteq> CHR ''+''" for n
    using nat_str_hd [of n] by auto
  show ?thesis
  proof (cases "sint i < 0")
    case True
    with b show ?thesis by (simp add: atoi_def int_str_def digits_value_nat_str Let_def)
  next
    case False
    with b h show ?thesis by (simp add: atoi_def int_str_def digits_value_nat_str Let_def)
  qed
qed

end
