(* ===== verification/GoTime.thy ===== *)
theory GoTime
  imports GoStrconv
begin

text \<open>
  The part of the Go package \<open>time\<close> that the records depend on: instants, their order, the
  calendar date of an instant and the RFC 3339 text that \<open>Time.MarshalJSON\<close> writes. The
  calendar is the proleptic Gregorian one; \<open>days_of_date\<close> is its specification and
  \<open>days_of_civil_date\<close> shows that the computed date is the date of that day.
\<close>

section \<open>Instants\<close>

text \<open>
  \<open>time.Time\<close>: seconds since January 1 of year 1 (UTC), nanoseconds within the second, and
  the offset of its location in seconds. The monotonic clock reading is dropped by \<open>UTC()\<close>
  and by encoding, and no code compares it.
\<close>

record gtime =
  t_sec :: int
  t_nsec :: nat
  t_off :: int

definition zero_time :: gtime where
  "zero_time = \<lparr>t_sec = 0, t_nsec = 0, t_off = 0\<rparr>"

definition time_is_zero :: "gtime \<Rightarrow> bool" where
  "time_is_zero t \<longleftrightarrow> t_sec t = 0 \<and> t_nsec t = 0"

definition time_after :: "gtime \<Rightarrow> gtime \<Rightarrow> bool" where
  "time_after t u \<longleftrightarrow> t_sec u < t_sec t \<or> (t_sec u = t_sec t \<and> t_nsec u < t_nsec t)"

definition time_utc :: "gtime \<Rightarrow> gtime" where
  "time_utc t = t\<lparr>t_off := 0\<rparr>"

lemma time_utc_simps [simp]:
  "t_sec (time_utc t) = t_sec t" "t_nsec (time_utc t) = t_nsec t" "t_off (time_utc t) = 0"
  by (simp_all add: time_utc_def)

lemma time_after_irrefl [simp]: "\<not> time_after t t"
  by (simp add: time_after_def)

lemma time_after_trans: "time_after t u \<Longrightarrow> time_after u v \<Longrightarrow> time_after t v"
  by (auto simp: time_after_def)

section \<open>The calendar\<close>

definition is_leap :: "int \<Rightarrow> bool" where
  "is_leap y \<longleftrightarrow> y mod 4 = 0 \<and> (y mod 100 \<noteq> 0 \<or> y mod 400 = 0)"

definition month_lengths :: "bool \<Rightarrow> int list" where
  "month_lengths leap = [31, if leap then 29 else 28, 31, 30, 31, 30, 31, 31, 30, 31, 30, 31]"

text \<open>The month and day of a day of the year counted from 0.\<close>

fun month_day :: "int list \<Rightarrow> nat \<Rightarrow> int \<Rightarrow> nat \<times> int" where
  "month_day [] m d = (m, d)"
| "month_day (l # ls) m d = (if d < l then (m, d) else month_day ls (Suc m) (d - l))"

text \<open>
  The year and the day of the year of a day counted from January 1 of year 1: cycles of
  400, 100 and 4 years, then single years.
\<close>

definition year_yday :: "int \<Rightarrow> int \<times> int" where
  "year_yday d =
     (let q400 = d div 146097; r = d mod 146097;
          q100 = min 3 (r div 36524); r = r - 36524 * q100;
          q4 = r div 1461; r = r mod 1461;
          q1 = min 3 (r div 365); r = r - 365 * q1
      in (400 * q400 + 100 * q100 + 4 * q4 + q1 + 1, r))"

definition civil_date :: "int \<Rightarrow> int \<times> nat \<times> int" where
  "civil_date d =
     (let (y, yd) = year_yday d; (m, md) = month_day (month_lengths (is_leap y)) 1 yd
      in (y, m, md + 1))"

definition days_before_year :: "int \<Rightarrow> int" where
  "days_before_year y = 365 * (y - 1) + (y - 1) div 4 - (y - 1) div 100 + (y - 1) div 400"

definition days_of_date :: "int \<Rightarrow> nat \<Rightarrow> int \<Rightarrow> int" where
  "days_of_date y m d =
     days_before_year y + sum_list (take (m - 1) (month_lengths (is_leap y))) + d - 1"

lemma divmod146097:
  "x = 146097 * (x div 146097) + x mod 146097" "0 \<le> x mod 146097" "x mod 146097 < (146097 :: int)"
  by (rule mult_div_mod_eq [symmetric], rule pos_mod_sign, simp, rule pos_mod_bound, simp)

lemma divmod36524:
  "x = 36524 * (x div 36524) + x mod 36524" "0 \<le> x mod 36524" "x mod 36524 < (36524 :: int)"
  by (rule mult_div_mod_eq [symmetric], rule pos_mod_sign, simp, rule pos_mod_bound, simp)

lemma divmod1461:
  "x = 1461 * (x div 1461) + x mod 1461" "0 \<le> x mod 1461" "x mod 1461 < (1461 :: int)"
  by (rule mult_div_mod_eq [symmetric], rule pos_mod_sign, simp, rule pos_mod_bound, simp)

lemma divmod365:
  "x = 365 * (x div 365) + x mod 365" "0 \<le> x mod 365" "x mod 365 < (365 :: int)"
  by (rule mult_div_mod_eq [symmetric], rule pos_mod_sign, simp, rule pos_mod_bound, simp)

lemma min3: "min 3 (x :: int) = 3 \<and> 3 \<le> x \<or> min 3 x = x \<and> x < 3"
  by auto

lemma year_yday:
  assumes "year_yday d = (y, yd)"
  shows "days_before_year y + yd = d" and "0 \<le> yd" and "yd < (if is_leap y then 366 else 365)"
proof -
  define q400 r0 where "q400 = d div 146097" and "r0 = d mod 146097"
  define q100 where "q100 = min 3 (r0 div 36524)"
  define r1 where "r1 = r0 - 36524 * q100"
  define q4 r2 where "q4 = r1 div 1461" and "r2 = r1 mod 1461"
  define q1 where "q1 = min 3 (r2 div 365)"
  have "year_yday d = (400 * q400 + 100 * q100 + 4 * q4 + q1 + 1, r2 - 365 * q1)"
    unfolding year_yday_def Let_def q400_def r0_def q100_def r1_def q4_def r2_def q1_def
    by (rule refl)
  then have y: "y = 400 * q400 + 100 * q100 + 4 * q4 + q1 + 1" and yd: "yd = r2 - 365 * q1"
    unfolding assms by simp_all
  have d: "d = 146097 * q400 + r0" "0 \<le> r0" "r0 < 146097"
    unfolding q400_def r0_def by (rule divmod146097)+
  have r0: "r0 = 36524 * (r0 div 36524) + r0 mod 36524" "0 \<le> r0 mod 36524" "r0 mod 36524 < 36524"
    by (rule divmod36524)+
  have q100: "0 \<le> q100" "q100 \<le> 3" "0 \<le> r1" "r1 \<le> 36524" "q100 < 3 \<Longrightarrow> r1 < 36524"
    using min3 [of "r0 div 36524"] pos_imp_zdiv_nonneg_iff [of 36524 r0] d r0
    unfolding q100_def [symmetric] r1_def by linarith+
  have r1: "r1 = 1461 * q4 + r2" "0 \<le> r2" "r2 < 1461"
    unfolding q4_def r2_def by (rule divmod1461)+
  have q4: "0 \<le> q4" "q4 \<le> 24"
    using q100 r1 by linarith+
  have r2: "r2 = 365 * (r2 div 365) + r2 mod 365" "0 \<le> r2 mod 365" "r2 mod 365 < 365"
    by (rule divmod365)+
  have q1: "0 \<le> q1" "q1 \<le> 3" "0 \<le> yd" "yd \<le> 365" "q1 < 3 \<Longrightarrow> yd < 365"
    using min3 [of "r2 div 365"] pos_imp_zdiv_nonneg_iff [of 365 r2] r1 r2 yd
    unfolding q1_def [symmetric] by linarith+
  have n: "y - 1 = 400 * q400 + (100 * q100 + 4 * q4 + q1)"
    "y - 1 = 100 * (4 * q400 + q100) + (4 * q4 + q1)"
    "y - 1 = 4 * (100 * q400 + 25 * q100 + q4) + q1"
    using y by simp_all
  have bnd: "0 \<le> 100 * q100 + 4 * q4 + q1" "100 * q100 + 4 * q4 + q1 < 400"
    "0 \<le> 4 * q4 + q1" "4 * q4 + q1 < 100" "q1 < 4"
    using q100 q4 q1 by linarith+
  have dv: "(y - 1) div 400 = q400" "(y - 1) div 100 = 4 * q400 + q100"
    "(y - 1) div 4 = 100 * q400 + 25 * q100 + q4"
    by (rule int_div_pos_eq [OF n(1) bnd(1,2)], rule int_div_pos_eq [OF n(2) bnd(3,4)],
        rule int_div_pos_eq [OF n(3) q1(1) bnd(5)])
  show "days_before_year y + yd = d"
    unfolding days_before_year_def dv using y yd r1(1) d(1) r1_def by simp
  show "0 \<le> yd" by (fact q1(3))
  show "yd < (if is_leap y then 366 else 365)"
  proof (cases "q1 < 3")
    case True
    then show ?thesis using q1(5) by simp
  next
    case False
    then have "q1 = 3" using q1 by simp
    show ?thesis
    proof (cases "q4 = 24 \<and> q100 < 3")
      case True
      then show ?thesis using q100(5) r1(1) yd \<open>q1 = 3\<close> by simp
    next
      case False
      have "y = 4 * (100 * q400 + 25 * q100 + q4 + 1)" using y \<open>q1 = 3\<close> by simp
      then have m4: "y mod 4 = 0" by (simp only: mod_mult_self1_is_0)
      have "is_leap y"
      proof (cases "q4 = 24")
        case True
        with False q100 have "q100 = 3" by simp
        then have "y = 400 * (q400 + 1)" using y \<open>q1 = 3\<close> True by simp
        then show ?thesis using m4 by (simp add: is_leap_def)
      next
        case False
        then have "0 < 4 * (q4 + 1)" "4 * (q4 + 1) < 100" using q4 by simp_all
        moreover have "y = 100 * (4 * q400 + q100) + 4 * (q4 + 1)" using y \<open>q1 = 3\<close> by simp
        ultimately have "y mod 100 = 4 * (q4 + 1)"
          using int_mod_pos_eq [of y 100 "4 * q400 + q100" "4 * (q4 + 1)"] by linarith
        then have "y mod 100 \<noteq> 0" using \<open>0 < 4 * (q4 + 1)\<close> by linarith
        then show ?thesis using m4 by (simp add: is_leap_def)
      qed
      then show ?thesis using q1(4) by simp
    qed
  qed
qed

lemma month_day_spec:
  assumes "month_day ls m d = (m', d')" and "0 \<le> d" and "d < sum_list ls"
  shows "m \<le> m' \<and> m' < m + length ls \<and> 0 \<le> d' \<and> d' < ls ! (m' - m)
     \<and> sum_list (take (m' - m) ls) + d' = d"
  using assms
proof (induction ls m d rule: month_day.induct)
  case (2 l ls m d)
  show ?case
  proof (cases "d < l")
    case False
    with "2.prems" have "month_day ls (Suc m) (d - l) = (m', d')" "0 \<le> d - l" "d - l < sum_list ls"
      by simp_all
    with "2.IH" [OF False] have
      "Suc m \<le> m'" "m' < Suc m + length ls" "0 \<le> d'" "d' < ls ! (m' - Suc m)"
      "sum_list (take (m' - Suc m) ls) + d' = d - l"
      by blast+
    moreover from \<open>Suc m \<le> m'\<close> have "m' - m = Suc (m' - Suc m)" by simp
    ultimately show ?thesis by simp
  qed (use "2.prems" in auto)
qed simp

lemma sum_month_lengths: "sum_list (month_lengths l) = (if l then 366 else 365)"
  by (simp add: month_lengths_def)

lemma length_month_lengths [simp]: "length (month_lengths l) = 12"
  by (simp add: month_lengths_def)

lemma month_lengths_le: "l \<in> set (month_lengths b) \<Longrightarrow> l \<le> 31"
  by (auto simp: month_lengths_def)

lemma civil_date:
  assumes "civil_date n = (y, m, d)"
  shows "days_of_date y m d = n" and "1 \<le> m" and "m \<le> 12" and "1 \<le> d" and "d \<le> 31"
proof -
  obtain yd where yy: "year_yday n = (y, yd)"
    using assms by (auto simp: civil_date_def split: prod.splits)
  have md: "month_day (month_lengths (is_leap y)) 1 yd = (m, d - 1)"
    using assms yy by (auto simp: civil_date_def split: prod.splits)
  note * = month_day_spec [OF md] year_yday [OF yy] sum_month_lengths [of "is_leap y"]
  then have sp: "1 \<le> m" "m < 1 + 12" "0 \<le> d - 1" "d - 1 < month_lengths (is_leap y) ! (m - 1)"
    "sum_list (take (m - 1) (month_lengths (is_leap y))) + (d - 1) = yd"
    by auto
  then show "days_of_date y m d = n" using *(2) by (simp add: days_of_date_def)
  show "1 \<le> m" "m \<le> 12" "1 \<le> d" using sp by simp_all
  have "month_lengths (is_leap y) ! (m - 1) \<le> 31"
    using sp by (intro month_lengths_le [of _ "is_leap y"] nth_mem) simp
  with sp show "d \<le> 31" by linarith
qed

section \<open>RFC 3339 text\<close>

text \<open>\<open>appendInt\<close>: a number with a minimal width, filled with zeros.\<close>

definition pad_str :: "nat \<Rightarrow> nat \<Rightarrow> string" where
  "pad_str w n = replicate (w - length (nat_str n)) CHR ''0'' @ nat_str n"

text \<open>The fraction of a second: nine digits without trailing zeros, nothing for 0.\<close>

definition frac_str :: "nat \<Rightarrow> string" where
  "frac_str ns =
     (if ns = 0 then []
      else CHR ''.'' # rev (dropWhile (\<lambda>c. c = CHR ''0'') (rev (pad_str 9 ns))))"

definition local_secs :: "gtime \<Rightarrow> int" where
  "local_secs t = t_sec t + t_off t"

definition time_year :: "gtime \<Rightarrow> int" where
  "time_year t = fst (civil_date (local_secs t div 86400))"

text \<open>The zone in minutes; Go's division truncates towards zero.\<close>

definition zone_minutes :: "gtime \<Rightarrow> int" where
  "zone_minutes t = sgn (t_off t) * (\<bar>t_off t\<bar> div 60)"

definition zone_str :: "gtime \<Rightarrow> string" where
  "zone_str t =
     (if t_off t = 0 then ''Z''
      else (let z = zone_minutes t; n = nat \<bar>z\<bar>
            in (if z < 0 then CHR ''-'' else CHR ''+'')
                 # pad_str 2 (n div 60) @ CHR '':'' # pad_str 2 (n mod 60)))"

definition date_str :: "gtime \<Rightarrow> string" where
  "date_str t =
     (case civil_date (local_secs t div 86400) of (y, m, d) \<Rightarrow>
        pad_str 4 (nat y) @ CHR ''-'' # pad_str 2 m @ CHR ''-'' # pad_str 2 (nat d))"

definition clock_str :: "gtime \<Rightarrow> string" where
  "clock_str t =
     (let s = nat (local_secs t mod 86400)
      in pad_str 2 (s div 3600) @ CHR '':'' # pad_str 2 (s mod 3600 div 60)
           @ CHR '':'' # pad_str 2 (s mod 60))"

definition rfc3339_nano :: "gtime \<Rightarrow> string" where
  "rfc3339_nano t = date_str t @ CHR ''T'' # clock_str t @ frac_str (t_nsec t) @ zone_str t"

text \<open>
  \<open>Time.MarshalJSON\<close> fails when the year is not four digits or the zone hour is not below
  24; otherwise it writes the text between double quotes.
\<close>

definition time_encodable :: "gtime \<Rightarrow> bool" where
  "time_encodable t \<longleftrightarrow> 0 \<le> time_year t \<and> time_year t \<le> 9999 \<and> \<bar>zone_minutes t\<bar> < 24 * 60"

text \<open>A time whose text determines it: encodable, with a whole number of minutes as its offset.\<close>

definition time_exact :: "gtime \<Rightarrow> bool" where
  "time_exact t \<longleftrightarrow> time_encodable t \<and> t_nsec t < 10 ^ 9 \<and> t_off t mod 60 = 0"

subsection \<open>Lengths\<close>

lemma length_pad_str_le: "n < 10 ^ Suc k \<Longrightarrow> length (pad_str (Suc k) n) = Suc k"
  using length_nat_str_le [of n k] by (simp add: pad_str_def)

lemma length_pad_str [size_simps]:
  "n < 100 \<Longrightarrow> length (pad_str 2 n) = 2"
  "n < 10000 \<Longrightarrow> length (pad_str 4 n) = 4"
  "n < 10 ^ 9 \<Longrightarrow> length (pad_str 9 n) = 9"
  using length_pad_str_le [of n 1] length_pad_str_le [of n 3] length_pad_str_le [of n 8]
  by (simp_all add: numeral_2_eq_2)

lemma length_frac_str_le: "length (frac_str ns) \<le> 1 + length (pad_str 9 ns)"
  using length_dropWhile_le [of "\<lambda>c. c = CHR ''0''" "rev (pad_str 9 ns)"]
  by (simp add: frac_str_def)

text \<open>A time that can be encoded takes at most 35 bytes.\<close>

lemma length_rfc3339_le:
  assumes "time_encodable t" and "t_nsec t < 10 ^ 9"
  shows "length (rfc3339_nano t) \<le> 35"
proof -
  obtain y m d where c: "civil_date (local_secs t div 86400) = (y, m, d)"
    by (cases "civil_date (local_secs t div 86400)")
  have "0 \<le> y" "y \<le> 9999" using assms c by (simp_all add: time_encodable_def time_year_def)
  then have "nat y < 10000" "m < 100" "nat d < 100"
    using civil_date [OF c] by simp_all
  then have 1: "length (date_str t) = 10"
    by (simp add: date_str_def c size_simps)
  define s where "s = nat (local_secs t mod 86400)"
  have "s < 86400" by (simp add: s_def nat_less_iff)
  then have "s div 3600 < 100" "s mod 3600 div 60 < 100" "s mod 60 < 100"
    using mod_less_divisor [of 3600 s] mod_less_divisor [of 60 s] by (simp_all add: less_mult_imp_div_less)
  then have 2: "length (clock_str t) = 8"
    by (simp add: clock_str_def s_def [symmetric] Let_def size_simps)
  have 3: "length (frac_str (t_nsec t)) \<le> 10"
    using length_frac_str_le [of "t_nsec t"] assms(2) by (simp add: size_simps)
  define n where "n = nat \<bar>zone_minutes t\<bar>"
  have "\<bar>zone_minutes t\<bar> < 1440" using assms(1) by (simp add: time_encodable_def)
  then have "n < 1440" unfolding n_def by linarith
  then have "n div 60 < 100" "n mod 60 < 100"
    using mod_less_divisor [of 60 n] by (simp_all add: less_mult_imp_div_less)
  then have 4: "length (zone_str t) \<le> 6"
    by (simp add: zone_str_def n_def [symmetric] Let_def size_simps)
  show ?thesis using 1 2 3 4 by (simp add: rfc3339_nano_def)
qed

end
