(* ===== verification/GoJson.thy ===== *)
theory GoJson
  imports GoTime
begin

text \<open>
  The encoder of \<open>encoding/json\<close> as the service uses it: JSON values, their text, and the
  escaping of strings (\<open>appendString\<close> with HTML escaping, the default of \<open>json.Marshal\<close>).
  The lemmas bound the length of the text, which the size limits of the code rest on.
\<close>

section \<open>JSON values and their text\<close>

text \<open>A string holds its escaped text, a number its digits.\<close>

datatype json =
    JNull
  | JBool bool
  | JNum string
  | JStr string
  | JArr "json list"
  | JObj "(string \<times> json) list"

fun commas :: "string list \<Rightarrow> string" where
  "commas [] = []"
| "commas [x] = x"
| "commas (x # y # zs) = x @ CHR '','' # commas (y # zs)"

definition quote :: "string \<Rightarrow> string" where
  "quote s = CHR 0x22 # s @ [CHR 0x22]"

fun json_print :: "json \<Rightarrow> string" where
  "json_print JNull = ''null''"
| "json_print (JBool b) = (if b then ''true'' else ''false'')"
| "json_print (JNum n) = n"
| "json_print (JStr s) = quote s"
| "json_print (JArr xs) = CHR ''['' # commas (map json_print xs) @ '']''"
| "json_print (JObj ms) =
     CHR ''{'' # commas (map (\<lambda>(k, v). quote k @ CHR '':'' # json_print v) ms) @ ''}''"

section \<open>Escaping\<close>

definition hex_digit :: "nat \<Rightarrow> char" where
  "hex_digit n = ''0123456789abcdef'' ! n"

text \<open>Bytes written as they are (\<open>htmlSafeSet\<close>): printable ASCII but for five characters.\<close>

definition html_safe :: "char \<Rightarrow> bool" where
  "html_safe c \<longleftrightarrow> 0x20 \<le> byte c \<and> byte c < 0x80
     \<and> c \<noteq> CHR 0x22 \<and> c \<noteq> CHR 0x5C \<and> c \<noteq> CHR ''<'' \<and> c \<noteq> CHR ''>'' \<and> c \<noteq> CHR ''&''"

definition backslash :: char where
  "backslash = CHR 0x5C"

definition escape_byte :: "char \<Rightarrow> string" where
  "escape_byte c =
     (if html_safe c then [c]
      else if c = CHR 0x22 \<or> c = backslash then [backslash, c]
      else if byte c = 8 then [backslash, CHR ''b'']
      else if byte c = 12 then [backslash, CHR ''f'']
      else if byte c = 10 then [backslash, CHR ''n'']
      else if byte c = 13 then [backslash, CHR ''r'']
      else if byte c = 9 then [backslash, CHR ''t'']
      else backslash # ''u00'' @ [hex_digit (byte c div 16), hex_digit (byte c mod 16)])"

fun escape_seg :: "nat \<times> string \<Rightarrow> string" where
  "escape_seg (r, bs) =
     (if r < 0x80 then escape_byte (hd bs)
      else if r = rune_error \<and> length bs = 1 then backslash # ''ufffd''
      else if r = 0x2028 \<or> r = 0x2029 then backslash # ''u202'' @ [hex_digit (r mod 16)]
      else bs)"

definition json_escape :: "string \<Rightarrow> string" where
  "json_escape s = concat (map escape_seg (rune_segs s))"

definition json_string :: "string \<Rightarrow> json" where
  "json_string s = JStr (json_escape s)"

definition json_int :: "int64 \<Rightarrow> json" where
  "json_int n = JNum (int_str (sint n))"

definition json_time :: "gtime \<Rightarrow> json" where
  "json_time t = JStr (rfc3339_nano t)"

lemma hex_digit_lower: "n < 16 \<Longrightarrow> is_hex_lower (hex_digit n)"
proof -
  have "list_all (\<lambda>n. is_hex_lower (hex_digit n)) [0..<16]"
    by (simp add: upt_rec hex_digit_def is_hex_lower_def is_digit_def byte_eval)
  then show "n < 16 \<Longrightarrow> is_hex_lower (hex_digit n)" by (simp add: list_all_iff)
qed

section \<open>Lengths\<close>

lemma length_commas: "length (commas xs) = sum_list (map length xs) + (length xs - 1)"
  by (induction xs rule: commas.induct) auto

lemma length_quote [simp]: "length (quote s) = length s + 2"
  by (simp add: quote_def)

definition json_len :: "json \<Rightarrow> nat" where
  "json_len v = length (json_print v)"

text \<open>The size of the members of an object, each with its key, colon and one separator.\<close>

definition member_size :: "(string \<times> json) list \<Rightarrow> nat" where
  "member_size ms = sum_list (map (\<lambda>(k, v). length k + json_len v + 4) ms)"

definition elem_size :: "json list \<Rightarrow> nat" where
  "elem_size xs = sum_list (map (\<lambda>v. json_len v + 1) xs)"

lemma member_size_simps [simp, size_simps]:
  "member_size [] = 0"
  "member_size (m # ms) = length (fst m) + json_len (snd m) + 4 + member_size ms"
  "member_size (ms @ ms') = member_size ms + member_size ms'"
  by (simp_all add: member_size_def case_prod_beta)

lemma elem_size_simps [simp, size_simps]:
  "elem_size [] = 0"
  "elem_size (x # xs) = json_len x + 1 + elem_size xs"
  "elem_size (xs @ ys) = elem_size xs + elem_size ys"
  by (simp_all add: elem_size_def)

lemma sum_list_Suc: "sum_list (map (\<lambda>x. Suc (f x)) xs) = sum_list (map f xs) + length xs"
  by (induction xs) auto

lemma json_len_JObj: "ms \<noteq> [] \<Longrightarrow> json_len (JObj ms) = member_size ms + 1"
proof -
  assume "ms \<noteq> []"
  then obtain m ms' where ms: "ms = m # ms'" by (cases ms) auto
  have "sum_list (map (\<lambda>x. length (case x of (k, v) \<Rightarrow> quote k @ CHR '':'' # json_print v)) ns)
      + length ns = member_size ns" for ns
    by (induction ns) (auto simp: json_len_def)
  from this [of ms] show ?thesis
    by (simp add: json_len_def length_commas o_def ms)
qed

lemma json_len_JArr: "xs \<noteq> [] \<Longrightarrow> json_len (JArr xs) = elem_size xs + 1"
proof -
  assume "xs \<noteq> []"
  then obtain y ys where xs: "xs = y # ys" by (cases xs) auto
  have "sum_list (map (\<lambda>x. length (json_print x)) ns) + length ns = elem_size ns" for ns
    by (induction ns) (auto simp: json_len_def)
  from this [of xs] show ?thesis
    by (simp add: json_len_def length_commas o_def xs)
qed

lemma json_len_simps [simp, size_simps]:
  "json_len JNull = 4"
  "json_len (JBool b) = (if b then 4 else 5)"
  "json_len (JNum n) = length n"
  "json_len (JStr s) = length s + 2"
  by (simp_all add: json_len_def)

lemma json_len_time_le:
  "time_encodable t \<Longrightarrow> t_nsec t < 10 ^ 9 \<Longrightarrow> json_len (json_time t) \<le> 37"
  using length_rfc3339_le [of t] by (simp add: json_time_def)

lemma json_len_int_le: "1 \<le> json_len (json_int n)" "json_len (json_int n) \<le> 20"
  using length_int_str_pos [of "sint n"] length_int64_str_le [of n]
  by (simp_all add: json_int_def Suc_le_eq)

text \<open>Escaping makes a string at most six times as long.\<close>

lemma length_escape_byte_le: "length (escape_byte c) \<le> 6"
  by (simp add: escape_byte_def)

lemma length_escape_seg_le: "bs \<noteq> [] \<Longrightarrow> length (escape_seg (r, bs)) \<le> 6 * length bs"
proof -
  assume "bs \<noteq> []"
  then have "1 \<le> length bs" by (simp add: Suc_le_eq)
  then show ?thesis using length_escape_byte_le [of "hd bs"] by auto
qed

lemma rune_segs_segment: "(r, bs) \<in> set (rune_segs s) \<Longrightarrow> bs \<noteq> []"
proof (induction s rule: rune_segs.induct)
  case (1 s)
  show ?case
  proof (cases "s = []")
    case False
    then have "0 < snd (decode_rune s)" using decode_rune_width by blast
    from "1.prems" consider (1) "bs = take (snd (decode_rune s)) s"
      | (2) "(r, bs) \<in> set (rune_segs (drop (snd (decode_rune s)) s))"
      unfolding rune_segs_not_Nil [OF False] by auto
    then show ?thesis
    proof cases
      case 2
      then show ?thesis by (rule "1.IH" [OF False])
    qed (use False \<open>0 < snd (decode_rune s)\<close> in simp)
  qed (use "1.prems" in simp)
qed

lemma length_concat_le:
  assumes "\<forall>x \<in> set xs. length (f x) \<le> n * length (g x)"
  shows "length (concat (map f xs)) \<le> n * length (concat (map g xs))"
  using assms by (induction xs) (auto simp: algebra_simps)

lemma length_json_escape_le: "length (json_escape s) \<le> 6 * length s"
proof -
  have "\<forall>x \<in> set (rune_segs s). length (escape_seg x) \<le> 6 * length (snd x)"
  proof
    fix x
    assume "x \<in> set (rune_segs s)"
    then show "length (escape_seg x) \<le> 6 * length (snd x)"
      by (metis length_escape_seg_le rune_segs_segment prod.collapse)
  qed
  then have "length (json_escape s) \<le> 6 * length (concat (map snd (rune_segs s)))"
    unfolding json_escape_def by (rule length_concat_le)
  then show ?thesis by simp
qed

lemma json_escape_safe: "list_all html_safe s \<Longrightarrow> json_escape s = s"
proof (induction s)
  case (Cons c s)
  then have "byte c < 0x80" by (simp add: html_safe_def)
  with Cons show ?case
    by (simp add: json_escape_def rune_segs_not_Nil escape_byte_def)
qed (simp add: json_escape_def)

lemma json_len_string_le: "json_len (json_string s) \<le> 6 * length s + 2"
  using length_json_escape_le [of s] by (simp add: json_string_def)

end
