(* ===== verification/Api.thy ===== *)
theory Api
  imports GoJson
begin

text \<open>
  \<open>pkg/api/nats.go\<close>: the subjects, limits, request, response and event types of the NATS
  contract, with the JSON text of the types the service encodes. A pointer to a time is an
  option; a \<open>nil\<close> and an empty slice are the same list, as both are omitted from the text.
\<close>

section \<open>Subjects and limits\<close>

definition SendEmailSubject :: string where
  "SendEmailSubject = ''lfx.email-service.send_email''"
definition QueueGroup :: string where
  "QueueGroup = ''lfx.email-service.queue''"
definition GetEmailStatusSubject :: string where
  "GetEmailStatusSubject = ''lfx.email-service.get_email_status''"
definition GetEmailEngagementAnalyticsSubject :: string where
  "GetEmailEngagementAnalyticsSubject = ''lfx.email-service.get_email_engagement_analytics''"
definition EmailRecipientsKVBucket :: string where
  "EmailRecipientsKVBucket = ''email-recipients''"
definition EmailGroupIndexKVBucket :: string where
  "EmailGroupIndexKVBucket = ''email-group-index''"
definition EmailFailedSubject :: string where
  "EmailFailedSubject = ''lfx.email-service.email_failed''"
definition EmailDeliveredSubject :: string where
  "EmailDeliveredSubject = ''lfx.email-service.email_delivered''"
definition EmailOpenedSubject :: string where
  "EmailOpenedSubject = ''lfx.email-service.email_opened''"
definition EmailLinkClickedSubject :: string where
  "EmailLinkClickedSubject = ''lfx.email-service.email_link_clicked''"

definition MaxGroupEmails :: nat where "MaxGroupEmails = 10000"
definition DefaultGroupStatusLimit :: nat where "DefaultGroupStatusLimit = 500"
definition MaxGroupStatusLimit :: nat where "MaxGroupStatusLimit = 1000"
definition MaxAddressFieldLength :: nat where "MaxAddressFieldLength = 512"
definition MaxAddressLength :: nat where "MaxAddressLength = 254"
definition MaxAddressLocalPartLength :: nat where "MaxAddressLocalPartLength = 64"
definition MaxSubjectLength :: nat where "MaxSubjectLength = 998"
definition MaxFromDisplayNameLength :: nat where "MaxFromDisplayNameLength = 256"

section \<open>Requests and responses\<close>

record SendEmailRequest =
  req_to :: string
  req_subject :: string
  req_html :: string
  req_text :: string
  req_from :: string
  req_from_display_name :: string
  req_reply_to :: string
  req_group_id :: string

record SendEmailResponse =
  resp_email_id :: string
  resp_group_id :: string

record GetEmailStatusRequest =
  st_email_id :: string
  st_group_id :: string
  st_offset :: int64
  st_limit :: int64

record GetEmailEngagementAnalyticsResponse =
  an_group_id :: string
  an_total_sent :: int64
  an_delivered :: int64
  an_opened :: int64
  an_unique_opened :: int64
  an_failed :: int64

definition marshal_send_response :: "SendEmailResponse \<Rightarrow> string" where
  "marshal_send_response r = json_print (JObj
     [(''email_id'', json_string (resp_email_id r)),
      (''group_id'', json_string (resp_group_id r))])"

text \<open>\<open>SendEmailErrorResponse\<close> has the one field.\<close>

definition marshal_error_response :: "string \<Rightarrow> string" where
  "marshal_error_response reason = json_print (JObj [(''error'', json_string reason)])"

definition marshal_analytics :: "GetEmailEngagementAnalyticsResponse \<Rightarrow> string" where
  "marshal_analytics r = json_print (JObj
     [(''group_id'', json_string (an_group_id r)),
      (''total_sent'', json_int (an_total_sent r)),
      (''delivered'', json_int (an_delivered r)),
      (''opened'', json_int (an_opened r)),
      (''unique_opened'', json_int (an_unique_opened r)),
      (''failed'', json_int (an_failed r))])"

section \<open>The recipient record\<close>

record OpenEvent =
  oe_event_id :: string
  oe_opened_at :: gtime

record ClickEvent =
  ce_event_id :: string
  ce_link :: string
  ce_clicked_at :: gtime

record EmailRecipientRecord =
  GroupID :: string
  EmailID :: string
  To :: string
  Subject :: string
  SentAt :: gtime
  Delivered :: bool
  DeliveredAt :: "gtime option"
  Opened :: bool
  OpenCount :: int64
  OpenedAtList :: "OpenEvent list"
  LastOpenedAt :: "gtime option"
  Clicked :: bool
  ClickCount :: int64
  ClickEventIDs :: "string list"
  ClickList :: "ClickEvent list"
  LastClickedAt :: "gtime option"
  Failed :: bool
  FailedAt :: "gtime option"

type_synonym rcpt = EmailRecipientRecord

text \<open>The zero value of the struct.\<close>

definition zero_record :: rcpt where
  "zero_record = \<lparr>GroupID = [], EmailID = [], To = [], Subject = [], SentAt = zero_time,
     Delivered = False, DeliveredAt = None, Opened = False, OpenCount = 0, OpenedAtList = [],
     LastOpenedAt = None, Clicked = False, ClickCount = 0, ClickEventIDs = [], ClickList = [],
     LastClickedAt = None, Failed = False, FailedAt = None\<rparr>"

text \<open>\<open>omitempty\<close>: a member is left out when its value is empty.\<close>

definition opt_member :: "string \<Rightarrow> gtime option \<Rightarrow> (string \<times> json) list" where
  "opt_member k ot = (case ot of None \<Rightarrow> [] | Some t \<Rightarrow> [(k, json_time t)])"

definition list_member :: "string \<Rightarrow> json list \<Rightarrow> (string \<times> json) list" where
  "list_member k xs = (if xs = [] then [] else [(k, JArr xs)])"

definition str_member :: "string \<Rightarrow> string \<Rightarrow> (string \<times> json) list" where
  "str_member k s = (if s = [] then [] else [(k, json_string s)])"

definition open_event_json :: "OpenEvent \<Rightarrow> json" where
  "open_event_json e = JObj
     [(''event_id'', json_string (oe_event_id e)), (''opened_at'', json_time (oe_opened_at e))]"

definition click_event_json :: "ClickEvent \<Rightarrow> json" where
  "click_event_json e = JObj
     [(''event_id'', json_string (ce_event_id e)), (''link'', json_string (ce_link e)),
      (''clicked_at'', json_time (ce_clicked_at e))]"

definition record_members :: "rcpt \<Rightarrow> (string \<times> json) list" where
  "record_members r =
     [(''group_id'', json_string (GroupID r)),
      (''email_id'', json_string (EmailID r)),
      (''to'', json_string (To r)),
      (''subject'', json_string (Subject r)),
      (''sent_at'', json_time (SentAt r)),
      (''delivered'', JBool (Delivered r))]
     @ opt_member ''delivered_at'' (DeliveredAt r)
     @ [(''opened'', JBool (Opened r)),
        (''open_count'', json_int (OpenCount r))]
     @ list_member ''opened_at_list'' (map open_event_json (OpenedAtList r))
     @ opt_member ''last_opened_at'' (LastOpenedAt r)
     @ [(''clicked'', JBool (Clicked r)),
        (''click_count'', json_int (ClickCount r))]
     @ list_member ''click_event_ids'' (map json_string (ClickEventIDs r))
     @ list_member ''click_list'' (map click_event_json (ClickList r))
     @ opt_member ''last_clicked_at'' (LastClickedAt r)
     @ [(''failed'', JBool (Failed r))]
     @ opt_member ''failed_at'' (FailedAt r)"

definition record_json :: "rcpt \<Rightarrow> json" where
  "record_json r = JObj (record_members r)"

text \<open>The times of a record; encoding fails when one of them cannot be encoded.\<close>

definition opt_list :: "'a option \<Rightarrow> 'a list" where
  "opt_list x = (case x of None \<Rightarrow> [] | Some y \<Rightarrow> [y])"

definition record_times :: "rcpt \<Rightarrow> gtime list" where
  "record_times r = SentAt r # opt_list (DeliveredAt r) @ opt_list (LastOpenedAt r)
     @ opt_list (LastClickedAt r) @ opt_list (FailedAt r)
     @ map oe_opened_at (OpenedAtList r) @ map ce_clicked_at (ClickList r)"

definition encodable :: "rcpt \<Rightarrow> bool" where
  "encodable r \<longleftrightarrow> list_all time_encodable (record_times r)"

text \<open>\<open>json.Marshal(record)\<close>: \<open>None\<close> is its error.\<close>

definition marshal_record :: "rcpt \<Rightarrow> string option" where
  "marshal_record r = (if encodable r then Some (json_print (record_json r)) else None)"

definition marshal_ids :: "string list \<Rightarrow> string" where
  "marshal_ids ids = json_print (JArr (map json_string ids))"

section \<open>Push events\<close>

record EmailFailedEvent =
  fe_email_id :: string
  fe_group_id :: string
  fe_reason :: string
  fe_failed_at :: gtime

record EmailDeliveredEvent =
  de_email_id :: string
  de_group_id :: string
  de_delivered_at :: gtime

record EmailOpenedEvent =
  pe_email_id :: string
  pe_group_id :: string
  pe_open_count :: int64
  pe_opened_at :: gtime

record EmailLinkClickedEvent =
  le_email_id :: string
  le_group_id :: string
  le_event_id :: string
  le_link :: string
  le_click_count :: int64
  le_clicked_at :: gtime

datatype payload =
    FailedPayload EmailFailedEvent
  | DeliveredPayload EmailDeliveredEvent
  | OpenedPayload EmailOpenedEvent
  | LinkClickedPayload EmailLinkClickedEvent

fun payload_members :: "payload \<Rightarrow> (string \<times> json) list" where
  "payload_members (FailedPayload e) =
     (''email_id'', json_string (fe_email_id e)) # str_member ''group_id'' (fe_group_id e)
     @ [(''reason'', json_string (fe_reason e)), (''failed_at'', json_time (fe_failed_at e))]"
| "payload_members (DeliveredPayload e) =
     (''email_id'', json_string (de_email_id e)) # str_member ''group_id'' (de_group_id e)
     @ [(''delivered_at'', json_time (de_delivered_at e))]"
| "payload_members (OpenedPayload e) =
     (''email_id'', json_string (pe_email_id e)) # str_member ''group_id'' (pe_group_id e)
     @ [(''open_count'', json_int (pe_open_count e)), (''opened_at'', json_time (pe_opened_at e))]"
| "payload_members (LinkClickedPayload e) =
     (''email_id'', json_string (le_email_id e)) # str_member ''group_id'' (le_group_id e)
     @ [(''event_id'', json_string (le_event_id e)), (''link'', json_string (le_link e)),
        (''click_count'', json_int (le_click_count e)),
        (''clicked_at'', json_time (le_clicked_at e))]"

fun payload_time :: "payload \<Rightarrow> gtime" where
  "payload_time (FailedPayload e) = fe_failed_at e"
| "payload_time (DeliveredPayload e) = de_delivered_at e"
| "payload_time (OpenedPayload e) = pe_opened_at e"
| "payload_time (LinkClickedPayload e) = le_clicked_at e"

definition marshal_payload :: "payload \<Rightarrow> string option" where
  "marshal_payload p =
     (if time_encodable (payload_time p) then Some (json_print (JObj (payload_members p))) else None)"

end
