(* ===== verification/SesEvent.thy ===== *)
theory SesEvent
  imports Api
begin

text \<open>
  The inbound event types of \<open>internal/service/engagement_event_handler.go\<close>, and the record
  of the standard-library functions the model takes as a parameter: the address and URL
  parsers and the Unicode tables.
\<close>

section \<open>SNS and SES events\<close>

record snsEnvelope =
  sns_message_id :: string
  sns_message :: string

record sesHeader =
  hdr_name :: string
  hdr_value :: string

record sesClick =
  clk_timestamp :: string
  clk_link :: string

text \<open>
  The open, bounce, complaint and delivery objects have a timestamp only; a pointer that may
  be \<open>nil\<close> is an option. The IP address and user agent of a click are decoded and never read.
\<close>

record sesEvent =
  ses_event_type :: string
  ses_headers :: "sesHeader list"
  ses_open :: "string option"
  ses_click :: "sesClick option"
  ses_bounce :: "string option"
  ses_complaint :: "string option"
  ses_delivery :: "string option"

section \<open>Library functions\<close>

text \<open>A parsed URL: the components \<open>redactLink\<close> reads or clears, and the others as they are.\<close>

record 'r url =
  u_host :: string
  u_user :: "string option"
  u_raw_query :: string
  u_fragment :: string
  u_rest :: 'r

text \<open>
  \<open>lib_parse_address\<close> is \<open>mail.ParseAddress\<close>, returning the \<open>Address\<close> field (the unquoted
  mailbox); \<open>lib_url_parse\<close> and \<open>lib_url_string\<close> are \<open>url.Parse\<close> and \<open>URL.String\<close> (the scheme
  and path of a URL are the opaque \<open>u_rest\<close>). \<open>None\<close> is the error return of each.
\<close>

record golib =
  lib_unicode :: unicode
  lib_parse_address :: "string \<Rightarrow> string option"
  lib_url_parse :: "string \<Rightarrow> (string \<times> string) url option"
  lib_url_string :: "(string \<times> string) url \<Rightarrow> string"

text \<open>
  A concrete library for the examples: letters of ASCII only, no quoted addresses, and every URL
  without a host.
\<close>

definition example_lib :: golib where
  "example_lib = \<lparr>
     lib_unicode = \<lparr>u_lower = id, u_upper = id, u_fold = id\<rparr>,
     lib_parse_address = Some,
     lib_url_parse = (\<lambda>s. Some \<lparr>u_host = [], u_user = None, u_raw_query = [], u_fragment = [], u_rest = ([], s)\<rparr>),
     lib_url_string = (\<lambda>u. snd (u_rest u))\<rparr>"

lemma example_lib_address [simp]: "lib_parse_address example_lib = Some"
  by (simp add: example_lib_def)

end
