(* ===== verification/AddressPolicy.thy ===== *)
theory AddressPolicy
  imports SesEvent
begin

text \<open>
  \<open>internal/domain/policy.go\<close>: the length bound on address fields and the three address
  allowlists, with the part of \<open>mail.Address.String\<close> that decides whether a local part needs
  quoting. \<open>mail.ParseAddress\<close> is the parameter \<open>lib_parse_address\<close>: nothing is assumed of it,
  so the theorems hold for whatever mailbox it returns.
\<close>

section \<open>mail.Address.String for an address without a display name\<close>

text \<open>
  \<open>isAtext(r, false, false)\<close> of \<open>net/mail\<close>. Every byte from 0x80 is part of a multi-byte rune
  or of an invalid one, both of which count as atext, so the test is made byte by byte.
\<close>

definition is_vchar :: "char \<Rightarrow> bool" where
  "is_vchar c \<longleftrightarrow> (0x21 \<le> byte c \<and> byte c \<le> 0x7E) \<or> 0x80 \<le> byte c"

definition mail_specials :: string where
  "mail_specials = ''.()[];@,<>:'' @ [CHR 0x5C, CHR 0x22]"

definition is_atext :: "char \<Rightarrow> bool" where
  "is_atext c \<longleftrightarrow> c \<notin> set mail_specials \<and> is_vchar c"

text \<open>
  The loop of \<open>Address.String\<close> over the local part: a dot is fine between atext only.
  \<open>prev\<close> is the byte before the rest.
\<close>

fun quote_local :: "char option \<Rightarrow> string \<Rightarrow> bool" where
  "quote_local prev [] = False"
| "quote_local prev (c # cs) =
     (if is_atext c then quote_local (Some c) cs
      else if c = CHR ''.'' \<and> prev \<noteq> None \<and> prev \<noteq> Some CHR ''.'' \<and> cs \<noteq> []
        then quote_local (Some c) cs
      else True)"

text \<open>\<open>quoteString\<close>, rune by rune; other characters are dropped.\<close>

definition is_qtext_or_wsp :: "nat \<Rightarrow> bool" where
  "is_qtext_or_wsp r \<longleftrightarrow>
     (r \<noteq> 0x5C \<and> r \<noteq> 0x22 \<and> ((0x21 \<le> r \<and> r \<le> 0x7E) \<or> 0x80 \<le> r)) \<or> r = 0x20 \<or> r = 9"

definition quote_rune :: "nat \<Rightarrow> nat list" where
  "quote_rune r =
     (if is_qtext_or_wsp r then [r] else if r = 0x5C \<or> r = 0x22 then [0x5C, r] else [])"

definition quote_string :: "string \<Rightarrow> string" where
  "quote_string s = from_runes (0x22 # concat (map quote_rune (runes s)) @ [0x22])"

definition address_string :: "string \<Rightarrow> string" where
  "address_string a =
     (let (local, dmn) = (case last_index CHR ''@'' a of
                            None \<Rightarrow> (a, [])
                          | Some at \<Rightarrow> (take at a, drop (Suc at) a));
          local = (if quote_local None local then quote_string local else local)
      in CHR ''<'' # local @ CHR ''@'' # dmn @ ''>'')"

subsection \<open>When an address is written unquoted\<close>

text \<open>A quoted local part is never the local part itself, as quoting only makes it longer.\<close>

lemma quote_string_runes:
  "runes (quote_string s) = 0x22 # concat (map quote_rune (runes s)) @ [0x22]"
proof -
  have "list_all valid_rune (concat (map quote_rune rs))" if "list_all valid_rune rs" for rs
    using that by (induction rs) (auto simp: quote_rune_def valid_rune_def)
  from this [OF runes_valid [of s]] show ?thesis
    unfolding quote_string_def by (intro runes_from_runes) (simp add: valid_rune_def)
qed

lemma length_concat_ge:
  "\<forall>x \<in> set xs. f x \<noteq> [] \<Longrightarrow> length xs \<le> length (concat (map f xs))"
proof (induction xs)
  case (Cons x xs)
  then have "1 \<le> length (f x)" by (simp add: Suc_le_eq)
  with Cons show ?case by (simp del: length_0_conv length_greater_0_conv)
qed simp

lemma quote_string_neq: "quote_string s \<noteq> s"
proof
  assume "quote_string s = s"
  then have rs: "runes s = 0x22 # concat (map quote_rune (runes s)) @ [0x22]"
    using quote_string_runes [of s] by simp
  have kept: "r \<in> set (quote_rune r') \<Longrightarrow> quote_rune r \<noteq> []" for r r'
    by (auto simp: quote_rune_def split: if_splits)
  have "\<forall>r \<in> set (runes s). quote_rune r \<noteq> []"
  proof
    fix r
    assume "r \<in> set (runes s)"
    then have "r = 0x22 \<or> (\<exists>r'. r \<in> set (quote_rune r'))"
      by (subst (asm) rs) auto
    then show "quote_rune r \<noteq> []"
    proof (elim disjE exE)
      assume "r = 0x22"
      then show ?thesis by (simp add: quote_rune_def)
    qed (rule kept)
  qed
  then have "length (runes s) \<le> length (concat (map quote_rune (runes s)))"
    by (rule length_concat_ge)
  moreover have "length (runes s) = length (concat (map quote_rune (runes s))) + 2"
    by (subst rs) simp
  ultimately show False by simp
qed

lemma address_string_None:
  "CHR ''@'' \<notin> set a \<Longrightarrow> address_string a \<noteq> CHR ''<'' # a @ ''>''"
proof
  assume no: "CHR ''@'' \<notin> set a" and eq: "address_string a = CHR ''<'' # a @ ''>''"
  from no obtain l where "address_string a = CHR ''<'' # l @ ''@>''"
    by (auto simp: address_string_def Let_def)
  with eq have "a = l @ ''@''" by simp
  with no show False by simp
qed

text \<open>
  The test \<open>Address.String() != "<" + addr + ">"\<close> of the code: it finds exactly the addresses
  without an at sign and those whose local part is not a dot-atom.
\<close>

lemma address_string_bare_iff:
  "address_string a = CHR ''<'' # a @ ''>'' \<longleftrightarrow>
     (\<exists>at. last_index CHR ''@'' a = Some at \<and> \<not> quote_local None (take at a))"
proof (cases "last_index CHR ''@'' a")
  case None
  then show ?thesis using address_string_None [of a] by (simp add: last_index_None_iff)
next
  case (Some at)
  let ?l = "take at a" and ?d = "drop (Suc at) a"
  have a: "a = ?l @ CHR ''@'' # ?d" by (rule last_index_decomp [OF Some])
  show ?thesis
  proof (cases "quote_local None ?l")
    case True
    have "address_string a \<noteq> CHR ''<'' # a @ ''>''"
    proof
      assume "address_string a = CHR ''<'' # a @ ''>''"
      then have "quote_string ?l @ CHR ''@'' # ?d = a"
        using Some True by (simp add: address_string_def)
      then have "quote_string ?l @ CHR ''@'' # ?d = ?l @ CHR ''@'' # ?d"
        using a by simp
      then show False using quote_string_neq [of ?l] by simp
    qed
    with Some True show ?thesis by simp
  next
    case False
    with Some a show ?thesis by (simp add: address_string_def)
  qed
qed

lemma quote_local_bytes:
  "\<not> quote_local prev l \<Longrightarrow> c \<in> set l \<Longrightarrow> is_atext c \<or> c = CHR ''.''"
  by (induction prev l rule: quote_local.induct) (auto split: if_splits)

text \<open>An unquoted local part is a dot-atom: non-empty atoms separated by single dots.\<close>

definition dot_atom :: "string \<Rightarrow> bool" where
  "dot_atom s \<longleftrightarrow> list_all (\<lambda>p. p \<noteq> [] \<and> list_all is_atext p) (split_on CHR ''.'' s)"

lemma is_atext_dot [simp]: "\<not> is_atext CHR ''.''"
  by (simp add: is_atext_def mail_specials_def)

lemma quote_local_iff:
  "\<not> quote_local prev l \<longleftrightarrow>
     l = [] \<or> (prev = None \<or> prev = Some CHR ''.'') \<and> dot_atom l
     \<or> prev \<noteq> None \<and> prev \<noteq> Some CHR ''.''
         \<and> (case split_on CHR ''.'' l of [] \<Rightarrow> False | p # ps \<Rightarrow>
              list_all is_atext p \<and> list_all (\<lambda>p. p \<noteq> [] \<and> list_all is_atext p) ps)"
proof (induction prev l rule: quote_local.induct)
  case (2 prev c cs)
  show ?case
  proof (cases "c = CHR ''.''")
    case True
    then show ?thesis using "2.IH"(2)
      by (cases cs) (auto simp: dot_atom_def split: list.splits)
  next
    case False
    show ?thesis using "2.IH"(1) False
      by (cases "split_on CHR ''.'' cs") (auto simp: dot_atom_def split: if_splits list.splits)
  qed
qed simp

lemma quote_local_dot_atom: "l \<noteq> [] \<Longrightarrow> \<not> quote_local None l \<longleftrightarrow> dot_atom l"
  by (simp add: quote_local_iff)

section \<open>Address length\<close>

definition CheckAddressLength :: "golib \<Rightarrow> string \<Rightarrow> goerr option" where
  "CheckAddressLength L raw =
     (if MaxAddressFieldLength < length raw then Some [ErrAddressTooLong]
      else (case lib_parse_address L raw of
        None \<Rightarrow> None
      | Some a \<Rightarrow>
          if MaxAddressLength < length a then Some [ErrAddressTooLong]
          else (case last_index CHR ''@'' a of
                  Some at \<Rightarrow>
                    if MaxAddressLocalPartLength < at then Some [ErrAddressTooLong] else None
                | None \<Rightarrow> None)))"

section \<open>The allowlists\<close>

record AddressPolicy =
  AllowedFromDomains :: "string list"
  AllowedReplyToDomains :: "string list"
  AllowedRecipientDomains :: "string list"

fun normalizeDomains :: "unicode \<Rightarrow> string list \<Rightarrow> string list" where
  "normalizeDomains U [] = []"
| "normalizeDomains U (d # ds) =
     (let d' = to_lower U (trim_space d)
      in if d' \<noteq> [] then d' # normalizeDomains U ds else normalizeDomains U ds)"

definition NewAddressPolicy ::
    "unicode \<Rightarrow> string list \<Rightarrow> string list \<Rightarrow> string list \<Rightarrow> AddressPolicy" where
  "NewAddressPolicy U fromDomains replyToDomains recipientDomains =
     \<lparr>AllowedFromDomains = normalizeDomains U fromDomains,
      AllowedReplyToDomains = normalizeDomains U replyToDomains,
      AllowedRecipientDomains = normalizeDomains U recipientDomains\<rparr>"

definition strictAddressDomain :: "golib \<Rightarrow> string \<Rightarrow> goerr + string" where
  "strictAddressDomain L raw =
     (case lib_parse_address L raw of
        None \<Rightarrow> Inl [ErrAddressMalformed]
      | Some a \<Rightarrow>
          if \<not> ascii a then Inl [ErrAddressMalformed]
          else (case last_index CHR ''@'' a of
                  None \<Rightarrow> Inl [ErrAddressMalformed]
                | Some at \<Rightarrow>
                    if at = 0 \<or> at = length a - 1 then Inl [ErrAddressMalformed]
                    else if address_string a \<noteq> CHR ''<'' # a @ ''>''
                      then Inl [ErrAddressMalformed]
                    else Inr (to_lower (lib_unicode L) (drop (Suc at) a))))"

text \<open>\<open>domain == d || strings.HasSuffix(domain, "."+d)\<close>.\<close>

definition matches_base :: "string \<Rightarrow> string \<Rightarrow> bool" where
  "matches_base dmn d \<longleftrightarrow> dmn = d \<or> suffix (CHR ''.'' # d) dmn"

definition IsRecipientAllowed :: "golib \<Rightarrow> AddressPolicy \<Rightarrow> string \<Rightarrow> bool \<times> goerr option" where
  "IsRecipientAllowed L p to =
     (if length (AllowedRecipientDomains p) = 0 then (True, None)
      else (case strictAddressDomain L to of
              Inl e \<Rightarrow> (False, Some e)
            | Inr dmn \<Rightarrow> (list_ex (matches_base dmn) (AllowedRecipientDomains p), None)))"

definition ValidateFrom :: "golib \<Rightarrow> AddressPolicy \<Rightarrow> string \<Rightarrow> goerr option" where
  "ValidateFrom L p from =
     (if from = [] then None
      else (case strictAddressDomain L from of
              Inl e \<Rightarrow> Some e
            | Inr dmn \<Rightarrow> if list_ex (\<lambda>d. d = dmn) (AllowedFromDomains p) then None
                        else Some [ErrFromDomainNotAllowed]))"

definition ValidateReplyTo :: "golib \<Rightarrow> AddressPolicy \<Rightarrow> string \<Rightarrow> goerr option" where
  "ValidateReplyTo L p replyTo =
     (if replyTo = [] then None
      else (case strictAddressDomain L replyTo of
              Inl e \<Rightarrow> Some e
            | Inr dmn \<Rightarrow> if list_ex (matches_base dmn) (AllowedReplyToDomains p) then None
                        else Some [ErrReplyToDomainNotAllowed]))"

section \<open>Lemmas\<close>

text \<open>
  The abstract specification: a mailbox is a dot-atom, an at sign and a domain, all ASCII, so
  the domain is what follows the only at sign of the text written into the envelope.
\<close>

definition plain_mailbox :: "string \<Rightarrow> string \<Rightarrow> string \<Rightarrow> bool" where
  "plain_mailbox a l d \<longleftrightarrow>
     a = l @ CHR ''@'' # d \<and> dot_atom l \<and> l \<noteq> [] \<and> d \<noteq> [] \<and> CHR ''@'' \<notin> set d \<and> ascii a"

lemma dot_atom_bytes:
  assumes "dot_atom l" and "c \<in> set l"
  shows "is_atext c \<or> c = CHR ''.''"
  using assms quote_local_bytes [of None l c] quote_local_dot_atom [of l] by (cases l) auto

lemma dot_atom_no_at: "dot_atom l \<Longrightarrow> CHR ''@'' \<notin> set l"
  by (auto dest!: dot_atom_bytes [of l "CHR ''@''"] simp: is_atext_def mail_specials_def)

lemma strictAddressDomain_iff:
  "strictAddressDomain L raw = Inr dmn \<longleftrightarrow>
     (\<exists>a l d. lib_parse_address L raw = Some a \<and> plain_mailbox a l d \<and> dmn = ascii_lower d)"
proof
  assume "strictAddressDomain L raw = Inr dmn"
  then obtain a at where a: "lib_parse_address L raw = Some a" "ascii a"
    and at: "last_index CHR ''@'' a = Some at" "at \<noteq> 0" "at \<noteq> length a - 1"
    and s: "address_string a = CHR ''<'' # a @ ''>''"
    and dmn: "dmn = to_lower (lib_unicode L) (drop (Suc at) a)"
    by (auto simp: strictAddressDomain_def split: option.splits if_splits)
  let ?l = "take at a" and ?d = "drop (Suc at) a"
  have dec: "a = ?l @ CHR ''@'' # ?d" "CHR ''@'' \<notin> set ?d" using last_index_decomp [OF at(1)] by auto
  have "at < length a" using at(1) by (simp add: last_index_Some_iff)
  then have ne: "?l \<noteq> []" "?d \<noteq> []" using at by auto
  have "dot_atom ?l"
    using s at(1) address_string_bare_iff [of a] quote_local_dot_atom [OF ne(1)] by simp
  then have "plain_mailbox a ?l ?d"
    using dec ne a(2) by (simp add: plain_mailbox_def)
  moreover have "ascii ?d" using a(2) dec(1) ascii_simps(2,3) by metis
  ultimately show "\<exists>a l d. lib_parse_address L raw = Some a \<and> plain_mailbox a l d \<and> dmn = ascii_lower d"
    using a dmn to_lower_ascii by metis
next
  assume "\<exists>a l d. lib_parse_address L raw = Some a \<and> plain_mailbox a l d \<and> dmn = ascii_lower d"
  then obtain a l d where p: "lib_parse_address L raw = Some a" and dmn: "dmn = ascii_lower d"
    and m: "a = l @ CHR ''@'' # d" "dot_atom l" "l \<noteq> []" "d \<noteq> []" "CHR ''@'' \<notin> set d" "ascii a"
    by (auto simp: plain_mailbox_def)
  have at: "last_index CHR ''@'' a = Some (length l)" using m by (simp add: last_index_append)
  have "address_string a = CHR ''<'' # a @ ''>''"
    using address_string_bare_iff [of a] at m quote_local_dot_atom [of l] by simp
  then show "strictAddressDomain L raw = Inr dmn"
    using p m at by (simp add: strictAddressDomain_def dmn to_lower_ascii)
qed

lemma strictAddressDomain_err: "strictAddressDomain L raw = Inl e \<Longrightarrow> e = [ErrAddressMalformed]"
  by (auto simp: strictAddressDomain_def split: option.splits if_splits)

text \<open>No byte of a plain local part can end or extend the envelope path or a header.\<close>

lemma plain_local_safe:
  assumes "plain_mailbox a l d" and "c \<in> set l"
  shows "0x21 \<le> byte c" and "byte c \<le> 0x7E" and "c \<notin> set ''@<>,;:()[]''"
proof -
  have b: "is_atext c \<or> c = CHR ''.''" using assms dot_atom_bytes by (auto simp: plain_mailbox_def)
  have "byte c < 0x80" using assms by (auto simp: plain_mailbox_def ascii_def list_all_iff)
  with b show "0x21 \<le> byte c" "byte c \<le> 0x7E" "c \<notin> set ''@<>,;:()[]''"
    by (auto simp: is_atext_def mail_specials_def is_vchar_def byte_eval)
qed

text \<open>Matching a base domain respects label boundaries.\<close>

lemma matches_base_labels:
  assumes "matches_base dmn d"
  shows "suffix (split_on CHR ''.'' d) (split_on CHR ''.'' dmn)"
  using assms by (auto simp: matches_base_def suffix_def split_on_append_sep)

lemma join_on_append:
  "ps \<noteq> [] \<Longrightarrow> qs \<noteq> [] \<Longrightarrow> join_on c (ps @ qs) = join_on c ps @ c # join_on c qs"
  by (induction ps rule: join_on.induct) (auto simp: join_on_Cons)

text \<open>A domain matches a base domain when its labels end with the labels of the base.\<close>

lemma matches_base_iff_labels:
  "matches_base dmn d \<longleftrightarrow> suffix (split_on CHR ''.'' d) (split_on CHR ''.'' dmn)"
proof
  assume "suffix (split_on CHR ''.'' d) (split_on CHR ''.'' dmn)"
  then obtain ps where ps: "split_on CHR ''.'' dmn = ps @ split_on CHR ''.'' d"
    by (auto simp: suffix_def)
  show "matches_base dmn d"
  proof (cases "ps = []")
    case True
    with ps have "dmn = d" using join_split_on by (metis append_Nil)
    then show ?thesis by (simp add: matches_base_def)
  next
    case False
    have "dmn = join_on CHR ''.'' (ps @ split_on CHR ''.'' d)" using ps join_split_on by metis
    then show ?thesis using False by (simp add: join_on_append matches_base_def suffix_def)
  qed
qed (rule matches_base_labels)

lemma CheckAddressLength_bounds:
  assumes "CheckAddressLength L raw = None"
  shows "length raw \<le> 512"
    and "lib_parse_address L raw = Some a \<Longrightarrow> length a \<le> 254"
    and "lib_parse_address L raw = Some a \<Longrightarrow> last_index CHR ''@'' a = Some at \<Longrightarrow> at \<le> 64"
  using assms by (auto simp: CheckAddressLength_def MaxAddressFieldLength_def MaxAddressLength_def
      MaxAddressLocalPartLength_def split: if_splits option.splits)

lemma CheckAddressLength_err: "CheckAddressLength L raw = Some e \<Longrightarrow> e = [ErrAddressTooLong]"
  by (auto simp: CheckAddressLength_def split: if_splits option.splits)

lemma normalizeDomains_eq:
  "normalizeDomains U ds = filter (\<lambda>d. d \<noteq> []) (map (\<lambda>d. to_lower U (trim_space d)) ds)"
  by (induction ds) (auto simp: Let_def)

section \<open>Properties\<close>

text \<open>C4: A recipient is permitted exactly when the allowlist is empty, or the recipient parses to
  an ASCII mailbox with a dot-atom local part and a single at sign whose lower-cased domain
  ends, label by label, with an allowed base domain.\<close>

theorem recipient_allowed_iff:
  "IsRecipientAllowed L p to =
     (AllowedRecipientDomains p = []
      \<or> (\<exists>a l d. \<exists>b \<in> set (AllowedRecipientDomains p).
           lib_parse_address L to = Some a \<and> plain_mailbox a l d
           \<and> suffix (split_on CHR ''.'' b) (split_on CHR ''.'' (ascii_lower d))),
      if AllowedRecipientDomains p = [] then None
      else (case strictAddressDomain L to of Inl e \<Rightarrow> Some [ErrAddressMalformed] | Inr x \<Rightarrow> None))"
proof (cases "AllowedRecipientDomains p = []")
  case False
  show ?thesis
  proof (cases "strictAddressDomain L to")
    case (Inl e)
    moreover from Inl have "\<not> (\<exists>a l d. lib_parse_address L to = Some a \<and> plain_mailbox a l d)"
      using strictAddressDomain_iff [of L to] by auto
    ultimately show ?thesis
      using False strictAddressDomain_err [OF Inl] by (auto simp: IsRecipientAllowed_def)
  next
    case (Inr x)
    from Inr obtain a l d where ald: "lib_parse_address L to = Some a" "plain_mailbox a l d"
      "x = ascii_lower d"
      using strictAddressDomain_iff [of L to x] by auto
    have "x = ascii_lower d'" if "plain_mailbox a l' d'" for l' d'
    proof -
      have "strictAddressDomain L to = Inr (ascii_lower d')"
        unfolding strictAddressDomain_iff using ald(1) that by blast
      with Inr show ?thesis by simp
    qed
    then have "(\<exists>a l d. \<exists>b \<in> set (AllowedRecipientDomains p).
           lib_parse_address L to = Some a \<and> plain_mailbox a l d
           \<and> suffix (split_on CHR ''.'' b) (split_on CHR ''.'' (ascii_lower d)))
       \<longleftrightarrow> (\<exists>b \<in> set (AllowedRecipientDomains p). matches_base x b)"
      unfolding matches_base_iff_labels using ald by (metis option.inject)
    then show ?thesis
      using False Inr by (simp add: IsRecipientAllowed_def list_ex_iff)
  qed
qed (simp add: IsRecipientAllowed_def)

end
