(* ===== verification/World.thy ===== *)
theory World
  imports AddressPolicy
begin

text \<open>
  The state the service acts on, and its environment. NATS JetStream is not part of the
  repository: the two key-value buckets are modelled after the interface \<open>kvBucket\<close> and the
  in-memory double of \<open>kv/store_test.go\<close>, with everything the environment may do between and
  during the calls given as data. Before each call the environment takes one move: other
  writers may put or delete keys of either bucket, and the call may fail with any error,
  a failed write having been applied or not. A world without moves left behaves as an
  undisturbed bucket. The results of \<open>ctx.Err()\<close>, the clock, the random source and the UUID
  generator are given the same way, so a theorem about all worlds is a theorem about all
  interleavings with other writers and all failures.
\<close>

section \<open>Buckets\<close>

datatype bucket = Recipients | GroupIndex

record kv_entry =
  ent_value :: string
  ent_revision :: nat

datatype env_write =
    EnvPut bucket string string
  | EnvDelete bucket string

text \<open>A fault is an error and whether a write was applied in spite of it.\<close>

record kv_move =
  mv_before :: "env_write list"
  mv_fault :: "(goerr \<times> bool) option"

definition quiet :: kv_move where
  "quiet = \<lparr>mv_before = [], mv_fault = None\<rparr>"

text \<open>What \<open>smtp.SendMail\<close> and the wait for it did, for one send.\<close>

datatype smtp_outcome =
    SmtpDone                                      \<comment> \<open>the server accepted the message\<close>
  | SmtpError string "(nat \<times> string) option" bool  \<comment> \<open>error text, the reply if it was one; was the mail taken?\<close>
  | SmtpCtx sentinel bool                         \<comment> \<open>the context ended first; was the mail taken?\<close>

record mail =
  mail_server :: string
  mail_auth :: "(string \<times> string) option"
  mail_from :: string
  mail_rcpt :: string
  mail_data :: string

record world =
  w_kv :: "bucket \<Rightarrow> string \<Rightarrow> kv_entry option"
  w_seq :: nat                          \<comment> \<open>last revision given out\<close>
  w_max_value :: "bucket \<Rightarrow> nat"        \<comment> \<open>\<open>maxValueSize\<close> of the buckets\<close>
  w_moves :: "kv_move list"             \<comment> \<open>environment moves still to come\<close>
  w_calls :: "(bucket \<times> string) list"   \<comment> \<open>keys passed to a bucket, in call order\<close>
  w_writes :: "(bucket \<times> string \<times> kv_entry option \<times> string) list"
    \<comment> \<open>writes of the service that took effect: the entry replaced and the new value\<close>
  w_ctx :: "sentinel option list"       \<comment> \<open>results of the coming \<open>ctx.Err()\<close> calls\<close>
  w_now :: "nat \<Rightarrow> gtime"               \<comment> \<open>readings of the clock\<close>
  w_ticks :: nat
  w_rand :: "nat \<Rightarrow> 8 word"             \<comment> \<open>bytes of \<open>crypto/rand\<close>\<close>
  w_draws :: nat
  w_uuid :: "nat \<Rightarrow> string"             \<comment> \<open>results of \<open>uuid.NewString\<close>\<close>
  w_uuids :: nat
  w_smtp :: "smtp_outcome list"
  w_sent :: "mail list"                 \<comment> \<open>mail handed to the SMTP server\<close>
  w_published :: "(string \<times> string) list"   \<comment> \<open>subject and data of published events\<close>
  w_replies :: "string list"            \<comment> \<open>calls of \<open>respond\<close>\<close>

text \<open>The bucket sizes of \<open>charts/lfx-v2-email-service/templates/nats-kv-buckets.yaml\<close>.\<close>

fun maxValueSize :: "bucket \<Rightarrow> nat" where
  "maxValueSize Recipients = 65536"
| "maxValueSize GroupIndex = 1048576"

text \<open>An undisturbed world with empty buckets.\<close>

definition empty_world :: world where
  "empty_world = \<lparr>w_kv = (\<lambda>_ _. None), w_seq = 0, w_max_value = maxValueSize, w_moves = [], w_calls = [],
     w_writes = [], w_ctx = [], w_now = (\<lambda>n. \<lparr>t_sec = 63900000000, t_nsec = 0, t_off = 0\<rparr>), w_ticks = 0,
     w_rand = of_nat, w_draws = 0,
     w_uuid = (\<lambda>n. ''550e8400-e29b-41d4-a716-446655440000''), w_uuids = 0,
     w_smtp = [], w_sent = [], w_published = [], w_replies = []\<rparr>"

section \<open>Environment moves\<close>

definition put_entry :: "bucket \<Rightarrow> string \<Rightarrow> string \<Rightarrow> world \<Rightarrow> world" where
  "put_entry b k v w =
     w\<lparr>w_kv := (w_kv w)(b := (w_kv w b)(k \<mapsto> \<lparr>ent_value = v, ent_revision = Suc (w_seq w)\<rparr>)),
       w_seq := Suc (w_seq w)\<rparr>"

definition delete_entry :: "bucket \<Rightarrow> string \<Rightarrow> world \<Rightarrow> world" where
  "delete_entry b k w =
     w\<lparr>w_kv := (w_kv w)(b := (w_kv w b)(k := None)), w_seq := Suc (w_seq w)\<rparr>"

fun apply_env :: "env_write list \<Rightarrow> world \<Rightarrow> world" where
  "apply_env [] w = w"
| "apply_env (EnvPut b k v # es) w = apply_env es (put_entry b k v w)"
| "apply_env (EnvDelete b k # es) w = apply_env es (delete_entry b k w)"

definition next_move :: "world \<Rightarrow> kv_move" where
  "next_move w = (case w_moves w of [] \<Rightarrow> quiet | m # ms \<Rightarrow> m)"

text \<open>The start of a bucket call: it is logged, and the environment takes its move.\<close>

definition kv_begin :: "bucket \<Rightarrow> string \<Rightarrow> world \<Rightarrow> (goerr \<times> bool) option \<times> world" where
  "kv_begin b k w =
     (mv_fault (next_move w),
      apply_env (mv_before (next_move w))
        (w\<lparr>w_moves := tl (w_moves w), w_calls := w_calls w @ [(b, k)]\<rparr>))"

section \<open>Bucket operations\<close>

definition jsErrCodeMessageTooLarge :: nat where
  "jsErrCodeMessageTooLarge = 10054"

definition wrong_last_sequence :: nat where
  "wrong_last_sequence = 10071"

definition kv_get :: "bucket \<Rightarrow> string \<Rightarrow> world \<Rightarrow> (goerr + kv_entry) \<times> world" where
  "kv_get b k w =
     (case kv_begin b k w of
        (Some (e, _), w) \<Rightarrow> (Inl e, w)
      | (None, w) \<Rightarrow>
          (case w_kv w b k of None \<Rightarrow> Inl [ErrKeyNotFound] | Some en \<Rightarrow> Inr en, w))"

text \<open>
  A write succeeds when its guard holds and the value fits; the guard gives the error
  otherwise.
\<close>

definition kv_write ::
    "(kv_entry option \<Rightarrow> sentinel option) \<Rightarrow> bucket \<Rightarrow> string \<Rightarrow> string \<Rightarrow> world
       \<Rightarrow> (goerr + nat) \<times> world" where
  "kv_write guard b k v w =
     (case kv_begin b k w of (fault, w) \<Rightarrow>
        let res = (if w_max_value w b < length v then Some (APIError jsErrCodeMessageTooLarge)
                   else guard (w_kv w b k));
            w' = (if res = None
                  then put_entry b k v (w\<lparr>w_writes := w_writes w @ [(b, k, w_kv w b k, v)]\<rparr>)
                  else w)
        in (case fault of
              Some (e, applied) \<Rightarrow> (Inl e, if applied then w' else w)
            | None \<Rightarrow> (case res of Some e \<Rightarrow> Inl [e] | None \<Rightarrow> Inr (w_seq w'), w')))"

definition kv_put :: "bucket \<Rightarrow> string \<Rightarrow> string \<Rightarrow> world \<Rightarrow> (goerr + nat) \<times> world" where
  "kv_put = kv_write (\<lambda>_. None)"

definition kv_create :: "bucket \<Rightarrow> string \<Rightarrow> string \<Rightarrow> world \<Rightarrow> (goerr + nat) \<times> world" where
  "kv_create = kv_write (\<lambda>cur. if cur = None then None else Some ErrKeyExists)"

definition kv_update :: "bucket \<Rightarrow> string \<Rightarrow> string \<Rightarrow> nat \<Rightarrow> world \<Rightarrow> (goerr + nat) \<times> world" where
  "kv_update b k v rev_last = kv_write (\<lambda>cur.
     case cur of
       Some en \<Rightarrow> if ent_revision en = rev_last then None else Some (APIError wrong_last_sequence)
     | None \<Rightarrow> Some (APIError wrong_last_sequence)) b k v"

section \<open>Undisturbed buckets\<close>

text \<open>Without environment moves left a bucket is a map.\<close>

definition logged :: "bucket \<Rightarrow> string \<Rightarrow> world \<Rightarrow> world" where
  "logged b k w = w\<lparr>w_calls := w_calls w @ [(b, k)]\<rparr>"

lemma logged_simps [simp]:
  "w_kv (logged b k w) = w_kv w" "w_seq (logged b k w) = w_seq w" "w_moves (logged b k w) = w_moves w"
  "w_max_value (logged b k w) = w_max_value w" "w_writes (logged b k w) = w_writes w"
  "w_ctx (logged b k w) = w_ctx w" "w_published (logged b k w) = w_published w"
  "w_sent (logged b k w) = w_sent w" "w_replies (logged b k w) = w_replies w"
  "w_now (logged b k w) = w_now w" "w_ticks (logged b k w) = w_ticks w"
  by (simp_all add: logged_def)

lemma kv_begin_quiet: "w_moves w = [] \<Longrightarrow> kv_begin b k w = (None, logged b k w)"
  by (cases w) (simp add: kv_begin_def next_move_def quiet_def logged_def)

lemma kv_get_quiet:
  "w_moves w = [] \<Longrightarrow> kv_get b k w =
     (case w_kv w b k of None \<Rightarrow> Inl [ErrKeyNotFound] | Some en \<Rightarrow> Inr en, logged b k w)"
  by (simp add: kv_get_def kv_begin_quiet)

definition stored :: "bucket \<Rightarrow> string \<Rightarrow> string \<Rightarrow> world \<Rightarrow> world" where
  "stored b k v w = put_entry b k v (w\<lparr>w_writes := w_writes w @ [(b, k, w_kv w b k, v)]\<rparr>)"

lemma stored_simps [simp]:
  "w_kv (stored b k v w) = (w_kv w)(b := (w_kv w b)(k \<mapsto> \<lparr>ent_value = v, ent_revision = Suc (w_seq w)\<rparr>))"
  "w_seq (stored b k v w) = Suc (w_seq w)" "w_moves (stored b k v w) = w_moves w"
  "w_max_value (stored b k v w) = w_max_value w" "w_ctx (stored b k v w) = w_ctx w"
  "w_published (stored b k v w) = w_published w" "w_sent (stored b k v w) = w_sent w"
  "w_replies (stored b k v w) = w_replies w" "w_calls (stored b k v w) = w_calls w"
  "w_writes (stored b k v w) = w_writes w @ [(b, k, w_kv w b k, v)]"
  "w_now (stored b k v w) = w_now w" "w_ticks (stored b k v w) = w_ticks w"
  by (simp_all add: stored_def put_entry_def)

lemma kv_write_quiet:
  assumes "w_moves w = []" and "length v \<le> w_max_value w b" and "guard (w_kv w b k) = None"
  shows "kv_write guard b k v w = (Inr (Suc (w_seq w)), stored b k v (logged b k w))"
  using assms by (simp add: kv_write_def kv_begin_quiet Let_def stored_def put_entry_def)

section \<open>How the state evolves\<close>

text \<open>
  Every revision is at most the last one given out. Between two states of a run, an entry
  either is the same or has a revision given out in between: this is what makes the revision
  check of \<open>Update\<close> a check that the value is unchanged.
\<close>

definition revisions_ok :: "world \<Rightarrow> bool" where
  "revisions_ok w \<longleftrightarrow> (\<forall>b k en. w_kv w b k = Some en \<longrightarrow> ent_revision en \<le> w_seq w)"

definition later :: "world \<Rightarrow> world \<Rightarrow> bool" where
  "later w w' \<longleftrightarrow> w_seq w \<le> w_seq w'
     \<and> (\<forall>b k en. w_kv w' b k = Some en \<longrightarrow> w_kv w b k = Some en \<or> w_seq w < ent_revision en)"

text \<open>What a bucket operation leaves alone: mail, published events and replies, and the sources of times and identifiers.\<close>

type_synonym outside_world =
  "smtp_outcome list \<times> mail list \<times> (string \<times> string) list \<times> string list \<times> (nat \<Rightarrow> gtime) \<times> (nat \<Rightarrow> string)"

definition outside :: "world \<Rightarrow> outside_world" where
  "outside w = (w_smtp w, w_sent w, w_published w, w_replies w, w_now w, w_uuid w)"

named_theorems later_intros \<open>state-evolution facts of the operations\<close>

lemma later_refl [simp, later_intros]: "later w w"
  by (simp add: later_def)

lemma later_trans: "later w w' \<Longrightarrow> later w' w'' \<Longrightarrow> later w w''"
  unfolding later_def by (meson le_trans less_le_trans order_le_less_trans)

lemma later_unchanged:
  "later w w' \<Longrightarrow> revisions_ok w \<Longrightarrow> w_kv w b k = Some en \<Longrightarrow> w_kv w' b k = Some en'
     \<Longrightarrow> ent_revision en' = ent_revision en \<Longrightarrow> en' = en"
  unfolding later_def revisions_ok_def by (metis leD option.inject)

lemma put_entry_simps [simp]:
  "w_seq (put_entry b k v w) = Suc (w_seq w)"
  "w_kv (put_entry b k v w) b' k' =
     (if b' = b \<and> k' = k then Some \<lparr>ent_value = v, ent_revision = Suc (w_seq w)\<rparr> else w_kv w b' k')"
  "w_moves (put_entry b k v w) = w_moves w" "w_calls (put_entry b k v w) = w_calls w"
  "w_writes (put_entry b k v w) = w_writes w" "w_max_value (put_entry b k v w) = w_max_value w"
  "w_ctx (put_entry b k v w) = w_ctx w" "outside (put_entry b k v w) = outside w"
  by (simp_all add: put_entry_def outside_def)

lemma delete_entry_simps [simp]:
  "w_seq (delete_entry b k w) = Suc (w_seq w)"
  "w_kv (delete_entry b k w) b' k' = (if b' = b \<and> k' = k then None else w_kv w b' k')"
  "w_moves (delete_entry b k w) = w_moves w" "w_calls (delete_entry b k w) = w_calls w"
  "w_writes (delete_entry b k w) = w_writes w" "w_max_value (delete_entry b k w) = w_max_value w"
  "w_ctx (delete_entry b k w) = w_ctx w" "outside (delete_entry b k w) = outside w"
  by (simp_all add: delete_entry_def outside_def)

lemma later_put_entry [later_intros]: "later w (put_entry b k v w)"
  by (auto simp: later_def)

lemma later_delete_entry [later_intros]: "later w (delete_entry b k w)"
  by (auto simp: later_def)

lemma apply_env_later: "later w (apply_env es w)"
  by (induction es w rule: apply_env.induct)
    (auto intro: later_trans later_put_entry later_delete_entry)

lemma put_entry_revisions: "revisions_ok w \<Longrightarrow> revisions_ok (put_entry b k v w)"
  by (auto simp: revisions_ok_def intro: le_SucI)

lemma delete_entry_revisions: "revisions_ok w \<Longrightarrow> revisions_ok (delete_entry b k w)"
  by (auto simp: revisions_ok_def intro: le_SucI)

lemma apply_env_revisions: "revisions_ok w \<Longrightarrow> revisions_ok (apply_env es w)"
  by (induction es w rule: apply_env.induct) (simp_all add: put_entry_revisions delete_entry_revisions)

lemma apply_env_frame [simp]:
  "w_moves (apply_env es w) = w_moves w" "w_calls (apply_env es w) = w_calls w"
  "w_writes (apply_env es w) = w_writes w" "w_max_value (apply_env es w) = w_max_value w"
  "w_ctx (apply_env es w) = w_ctx w" "outside (apply_env es w) = outside w"
  by (induction es w rule: apply_env.induct) simp_all

text \<open>A state change that does not touch the buckets.\<close>

lemma later_frame: "w_kv w' = w_kv w \<Longrightarrow> w_seq w' = w_seq w \<Longrightarrow> later w w'"
  by (simp add: later_def)

lemma revisions_frame: "w_kv w' = w_kv w \<Longrightarrow> w_seq w' = w_seq w \<Longrightarrow> revisions_ok w' = revisions_ok w"
  by (simp add: revisions_ok_def)

lemma kv_begin_later:
  assumes "kv_begin b k w = (f, w')"
  shows "later w w'"
proof -
  let ?v = "w\<lparr>w_moves := tl (w_moves w), w_calls := w_calls w @ [(b, k)]\<rparr>"
  from assms have "w' = apply_env (mv_before (next_move w)) ?v" by (auto simp: kv_begin_def)
  then have "later ?v w'" by (simp add: apply_env_later)
  moreover have "later w ?v" by (rule later_frame) simp_all
  ultimately show ?thesis by (rule later_trans [rotated])
qed

lemma kv_begin_revisions: "kv_begin b k w = (f, w') \<Longrightarrow> revisions_ok w \<Longrightarrow> revisions_ok w'"
  unfolding kv_begin_def
  by (auto simp only: prod.inject intro!: apply_env_revisions) (simp add: revisions_ok_def)

lemma kv_begin_frame:
  "kv_begin b k w = (f, w') \<Longrightarrow>
     w_calls w' = w_calls w @ [(b, k)] \<and> w_writes w' = w_writes w
     \<and> w_max_value w' = w_max_value w \<and> w_ctx w' = w_ctx w \<and> w_moves w' = tl (w_moves w)
     \<and> outside w' = outside w"
  by (auto simp: kv_begin_def) (simp add: outside_def)

lemma kv_get_effect:
  assumes "kv_get b k w = (r, w')"
  shows "later w w'" and "revisions_ok w \<Longrightarrow> revisions_ok w'"
    and "w_calls w' = w_calls w @ [(b, k)]" and "w_writes w' = w_writes w"
    and "w_max_value w' = w_max_value w" and "outside w' = outside w"
    and "r = Inr en \<Longrightarrow> w_kv w' b k = Some en"
proof -
  obtain f where f: "kv_begin b k w = (f, w')"
    using assms by (auto simp: kv_get_def split: prod.splits option.splits)
  show "later w w'" by (rule kv_begin_later [OF f])
  show "revisions_ok w \<Longrightarrow> revisions_ok w'" by (rule kv_begin_revisions [OF f])
  show "w_calls w' = w_calls w @ [(b, k)]" "w_writes w' = w_writes w"
    "w_max_value w' = w_max_value w" "outside w' = outside w"
    using kv_begin_frame [OF f] by simp_all
  show "r = Inr en \<Longrightarrow> w_kv w' b k = Some en"
    using assms f by (auto simp: kv_get_def split: option.splits)
qed

text \<open>
  A write either leaves the buckets as the environment left them or replaces the entry that
  was there when it took effect, whose guard then held.
\<close>

lemma kv_write_effect:
  assumes "kv_write guard b k v w = (r, w')"
  shows "later w w'" and "revisions_ok w \<Longrightarrow> revisions_ok w'"
    and "w_calls w' = w_calls w @ [(b, k)]"
    and "w_max_value w' = w_max_value w" and "outside w' = outside w"
    and "w_writes w' = w_writes w
         \<or> (\<exists>old w1. w_writes w' = w_writes w @ [(b, k, old, v)] \<and> guard old = None
              \<and> length v \<le> w_max_value w b \<and> later w w1 \<and> w_kv w1 b k = old
              \<and> (\<exists>rev. w_kv w' b k = Some \<lparr>ent_value = v, ent_revision = rev\<rparr>))"
    and "r = Inr n \<Longrightarrow> (\<exists>old. w_writes w' = w_writes w @ [(b, k, old, v)])"
proof -
  obtain f w1 where f: "kv_begin b k w = (f, w1)" by (cases "kv_begin b k w")
  define res where "res = (if w_max_value w1 b < length v then Some (APIError jsErrCodeMessageTooLarge)
                   else guard (w_kv w1 b k))"
  let ?w2 = "w1\<lparr>w_writes := w_writes w1 @ [(b, k, w_kv w1 b k, v)]\<rparr>"
  have w': "w' = w1 \<or> res = None \<and> w' = put_entry b k v ?w2"
    and r: "r = Inr n \<Longrightarrow> res = None \<and> w' = put_entry b k v ?w2"
    using assms f
    by (auto simp: kv_write_def Let_def res_def [symmetric] split: option.splits prod.splits if_splits)
  note b = kv_begin_later [OF f] kv_begin_frame [OF f] kv_begin_revisions [OF f]
  have 2: "later w1 ?w2" by (rule later_frame) simp_all
  have 3: "later w1 (put_entry b k v ?w2)" by (rule later_trans [OF 2 later_put_entry])
  show "later w w'" using w' b(1) later_trans [OF b(1) 3] by auto
  show "w_calls w' = w_calls w @ [(b, k)]" "w_max_value w' = w_max_value w" using w' b(2) by auto
  have "outside ?w2 = outside w1" by (simp add: outside_def)
  then show "outside w' = outside w" using w' b(2) by auto
  show "revisions_ok w'" if "revisions_ok w"
  proof -
    have "revisions_ok w1" by (rule b(3) [OF that])
    then have "revisions_ok ?w2" by (simp add: revisions_ok_def)
    with w' \<open>revisions_ok w1\<close> show ?thesis using put_entry_revisions by blast
  qed
  show "w_writes w' = w_writes w
         \<or> (\<exists>old w1. w_writes w' = w_writes w @ [(b, k, old, v)] \<and> guard old = None
              \<and> length v \<le> w_max_value w b \<and> later w w1 \<and> w_kv w1 b k = old
              \<and> (\<exists>rev. w_kv w' b k = Some \<lparr>ent_value = v, ent_revision = rev\<rparr>))"
  proof (cases "w' = w1")
    case False
    with w' have "res = None" "w' = put_entry b k v ?w2" by simp_all
    then have "w_writes w' = w_writes w @ [(b, k, w_kv w1 b k, v)]" "guard (w_kv w1 b k) = None"
      "length v \<le> w_max_value w b" "\<exists>rev. w_kv w' b k = Some \<lparr>ent_value = v, ent_revision = rev\<rparr>"
      using b(2) by (auto simp: res_def split: if_splits)
    with b(1) show ?thesis by blast
  qed (use b(2) in simp)
  show "r = Inr n \<Longrightarrow> (\<exists>old. w_writes w' = w_writes w @ [(b, k, old, v)])"
    using r b(2) by auto
qed

section \<open>Runs\<close>

text \<open>
  A run of the service from \<open>w\<close> to \<open>w'\<close>: the state evolves, every bucket call has a key in
  \<open>K\<close>, every write that took effect is in \<open>P\<close>, nothing is sent, published or replied. Every
  operation of a tracking store is one.
\<close>

type_synonym kv_log = "bucket \<times> string \<times> kv_entry option \<times> string"

definition runs :: "(bucket \<times> string \<Rightarrow> bool) \<Rightarrow> (kv_log \<Rightarrow> bool) \<Rightarrow> world \<Rightarrow> world \<Rightarrow> bool" where
  "runs K P w w' \<longleftrightarrow>
     later w w' \<and> (revisions_ok w \<longrightarrow> revisions_ok w') \<and> w_max_value w' = w_max_value w
     \<and> outside w' = outside w
     \<and> (\<exists>cs. w_calls w' = w_calls w @ cs \<and> list_all K cs)
     \<and> (\<exists>ws. w_writes w' = w_writes w @ ws \<and> list_all P ws)"

definition no_write :: "kv_log \<Rightarrow> bool" where
  "no_write l = False"

lemma runs_refl [simp, intro]: "runs K P w w"
  by (simp add: runs_def)

lemma runs_trans: "runs K P w w' \<Longrightarrow> runs K P w' w'' \<Longrightarrow> runs K P w w''"
  unfolding runs_def using later_trans by fastforce

lemma runs_mono: "runs K P w w' \<Longrightarrow> (\<And>x. K x \<Longrightarrow> K' x) \<Longrightarrow> (\<And>x. P x \<Longrightarrow> P' x) \<Longrightarrow> runs K' P' w w'"
  unfolding runs_def by (fast intro: list.pred_mono_strong)

lemma runs_no_write: "runs K no_write w w' \<Longrightarrow> runs K P w w'"
  by (erule runs_mono) (simp_all add: no_write_def)

lemma runs_later: "runs K P w w' \<Longrightarrow> later w w'"
  by (simp add: runs_def)

lemma runs_revisions: "runs K P w w' \<Longrightarrow> revisions_ok w \<Longrightarrow> revisions_ok w'"
  by (simp add: runs_def)

lemma runs_outside: "runs K P w w' \<Longrightarrow> outside w' = outside w"
  by (simp add: runs_def)

lemma runs_writes:
  assumes "runs K no_write w w'"
  shows "w_writes w' = w_writes w"
proof -
  obtain ws where "w_writes w' = w_writes w @ ws" "list_all no_write ws"
    using assms unfolding runs_def by blast
  then show ?thesis by (cases ws) (simp_all add: no_write_def)
qed

lemma runs_kv_get: "kv_get b k w = (r, w') \<Longrightarrow> K (b, k) \<Longrightarrow> runs K P w w'"
  using kv_get_effect [of b k w r w'] by (simp add: runs_def)

lemma runs_kv_write:
  assumes "kv_write guard b k v w = (r, w')" and "K (b, k)"
    and "\<And>old w1. guard old = None \<Longrightarrow> length v \<le> w_max_value w b \<Longrightarrow> later w w1
           \<Longrightarrow> w_kv w1 b k = old \<Longrightarrow> P (b, k, old, v)"
  shows "runs K P w w'"
  using kv_write_effect [OF assms(1)] assms(2,3) by (auto simp: runs_def)

text \<open>A change of the clock, the context or the random source.\<close>

lemma runs_frame:
  "w_kv w' = w_kv w \<Longrightarrow> w_seq w' = w_seq w \<Longrightarrow> w_max_value w' = w_max_value w \<Longrightarrow> outside w' = outside w
     \<Longrightarrow> w_calls w' = w_calls w \<Longrightarrow> w_writes w' = w_writes w \<Longrightarrow> runs K P w w'"
  using later_frame [of w' w] revisions_frame [of w' w] unfolding runs_def by simp

text \<open>The same without the condition on mail, events and replies.\<close>

definition acts :: "(bucket \<times> string \<Rightarrow> bool) \<Rightarrow> (kv_log \<Rightarrow> bool) \<Rightarrow> world \<Rightarrow> world \<Rightarrow> bool" where
  "acts K P w w' \<longleftrightarrow>
     later w w' \<and> (revisions_ok w \<longrightarrow> revisions_ok w') \<and> w_max_value w' = w_max_value w
     \<and> w_now w' = w_now w \<and> w_uuid w' = w_uuid w
     \<and> (\<exists>cs. w_calls w' = w_calls w @ cs \<and> list_all K cs)
     \<and> (\<exists>ws. w_writes w' = w_writes w @ ws \<and> list_all P ws)"

lemma runs_acts: "runs K P w w' \<Longrightarrow> acts K P w w'"
  by (simp add: runs_def acts_def outside_def)

lemma acts_refl [simp, intro]: "acts K P w w"
  by (simp add: acts_def)

lemma acts_trans: "acts K P w w' \<Longrightarrow> acts K P w' w'' \<Longrightarrow> acts K P w w''"
  unfolding acts_def using later_trans by fastforce

lemma acts_mono: "acts K P w w' \<Longrightarrow> (\<And>x. K x \<Longrightarrow> K' x) \<Longrightarrow> (\<And>x. P x \<Longrightarrow> P' x) \<Longrightarrow> acts K' P' w w'"
  unfolding acts_def by (fast intro: list.pred_mono_strong)

lemma acts_revisions: "acts K P w w' \<Longrightarrow> revisions_ok w \<Longrightarrow> revisions_ok w'"
  by (simp add: acts_def)

lemma acts_frame:
  "w_kv w' = w_kv w \<Longrightarrow> w_seq w' = w_seq w \<Longrightarrow> w_max_value w' = w_max_value w
     \<Longrightarrow> w_calls w' = w_calls w \<Longrightarrow> w_writes w' = w_writes w \<Longrightarrow> w_now w' = w_now w
     \<Longrightarrow> w_uuid w' = w_uuid w \<Longrightarrow> acts K P w w'"
  using later_frame [of w' w] revisions_frame [of w' w] unfolding acts_def by simp

lemma acts_clock: "acts K P w w' \<Longrightarrow> w_now w' = w_now w \<and> w_uuid w' = w_uuid w"
  by (simp add: acts_def)

section \<open>Optimistic concurrency\<close>

text \<open>
  One key of a bucket, as the read-modify-write loops of the store use it: read the entry,
  compute a new value, write it if the revision read is still the last one (or, with no
  entry read, if there is still none). The laws say that a write that takes effect replaces
  an entry the guard allows; what follows is that it replaces the very entry that was read,
  whatever others wrote in between.
\<close>

definition swap_guard :: "nat option \<Rightarrow> kv_entry option \<Rightarrow> bool" where
  "swap_guard rv old = (map_option ent_revision old = rv)"

locale versioned_cell =
  fixes fetch :: "world \<Rightarrow> (goerr + kv_entry) \<times> world"
    and swap :: "nat option \<Rightarrow> string \<Rightarrow> world \<Rightarrow> (goerr + nat) \<times> world"
    and slot :: "bucket \<times> string"
  assumes fetch_runs: "fetch w = (g, w') \<Longrightarrow> runs (\<lambda>c. c = slot) no_write w w'"
    and fetch_entry: "fetch w = (Inr en, w') \<Longrightarrow> w_kv w' (fst slot) (snd slot) = Some en"
    and swap_runs: "swap rv v w = (r, w') \<Longrightarrow>
      runs (\<lambda>c. c = slot)
        (\<lambda>l. \<exists>old w1. l = (fst slot, snd slot, old, v) \<and> swap_guard rv old \<and> length v \<le> w_max_value w (fst slot)
              \<and> later w w1 \<and> w_kv w1 (fst slot) (snd slot) = old) w w'"
begin

lemma fetch_any: "fetch w = (r, w') \<Longrightarrow> runs (\<lambda>c. c = slot) P w w'"
  by (rule runs_no_write, rule fetch_runs)

text \<open>An entry that was read and a revision that is still the same: the same entry.\<close>

lemma read_modify_write:
  assumes "fetch w = (Inr en, w1)" and "runs (\<lambda>c. c = slot) no_write w1 w2"
    and "swap (Some (ent_revision en)) v w2 = (r, w3)" and "revisions_ok w"
    and "length v \<le> w_max_value w (fst slot) \<Longrightarrow> P (fst slot, snd slot, Some en, v)"
  shows "runs (\<lambda>c. c = slot) P w w3"
proof -
  have m: "w_max_value w2 = w_max_value w"
    using fetch_runs [OF assms(1)] assms(2) by (simp add: runs_def)
  have "runs (\<lambda>c. c = slot) P w2 w3"
  proof (rule runs_mono [OF swap_runs [OF assms(3)]])
    fix l
    assume "\<exists>old w4. l = (fst slot, snd slot, old, v) \<and> swap_guard (Some (ent_revision en)) old
              \<and> length v \<le> w_max_value w2 (fst slot) \<and> later w2 w4 \<and> w_kv w4 (fst slot) (snd slot) = old"
    then obtain en' w4 where l: "l = (fst slot, snd slot, Some en', v)"
      and "ent_revision en' = ent_revision en" and sz: "length v \<le> w_max_value w2 (fst slot)"
      and "later w2 w4" "w_kv w4 (fst slot) (snd slot) = Some en'"
      by (auto simp: swap_guard_def)
    moreover from this have "later w1 w4" using later_trans runs_later [OF assms(2)] by blast
    moreover have "revisions_ok w1" using runs_revisions [OF fetch_runs [OF assms(1)] assms(4)] .
    ultimately have "en' = en" using later_unchanged [OF _ _ fetch_entry [OF assms(1)]] by blast
    with l sz m assms(5) show "P l" by simp
  qed
  with assms(2) have "runs (\<lambda>c. c = slot) P w1 w3" using runs_no_write runs_trans by blast
  with fetch_any [OF assms(1)] show ?thesis by (rule runs_trans)
qed

lemma create_only_new:
  assumes "swap None v w = (r, w')" and "length v \<le> w_max_value w (fst slot) \<Longrightarrow> P (fst slot, snd slot, None, v)"
  shows "runs (\<lambda>c. c = slot) P w w'"
  using assms(2) by (auto intro!: runs_mono [OF swap_runs [OF assms(1)]] simp: swap_guard_def)

end

definition kv_swap :: "bucket \<Rightarrow> string \<Rightarrow> nat option \<Rightarrow> string \<Rightarrow> world \<Rightarrow> (goerr + nat) \<times> world" where
  "kv_swap b k rv v = (case rv of None \<Rightarrow> kv_create b k v | Some r \<Rightarrow> kv_update b k v r)"

interpretation cell: versioned_cell "kv_get b k" "kv_swap b k" "(b, k)" for b k
proof
  show "kv_get b k w = (r, w') \<Longrightarrow> runs (\<lambda>c. c = (b, k)) no_write w w'" for w r w'
    by (erule runs_kv_get) simp
  show "kv_get b k w = (Inr en, w') \<Longrightarrow> w_kv w' (fst (b, k)) (snd (b, k)) = Some en" for w en w'
    using kv_get_effect(7) by simp
  fix rv v w r w'
  assume "kv_swap b k rv v w = (r, w')"
  then have "kv_write (\<lambda>old. if swap_guard rv old then None
      else if rv = None then Some ErrKeyExists else Some (APIError wrong_last_sequence)) b k v w = (r, w')"
    by (auto simp: kv_swap_def kv_create_def kv_update_def swap_guard_def fun_eq_iff
        split: option.splits if_splits elim!: back_subst [of "\<lambda>g. kv_write g b k v w = (r, w')"])
  then show "runs (\<lambda>c. c = (b, k))
        (\<lambda>l. \<exists>old w1. l = (fst (b, k), snd (b, k), old, v) \<and> swap_guard rv old
              \<and> length v \<le> w_max_value w (fst (b, k)) \<and> later w w1 \<and> w_kv w1 (fst (b, k)) (snd (b, k)) = old) w w'"
    by (rule runs_kv_write) (auto split: if_splits)
qed

section \<open>Clock, context, randomness, replies\<close>

definition now_utc :: "world \<Rightarrow> gtime \<times> world" where
  "now_utc w = (time_utc (w_now w (w_ticks w)), w\<lparr>w_ticks := Suc (w_ticks w)\<rparr>)"

text \<open>\<open>ctx.Err()\<close>: once it is not \<open>nil\<close> it stays as it is.\<close>

definition ctx_err :: "world \<Rightarrow> sentinel option \<times> world" where
  "ctx_err w =
     (case w_ctx w of
        [] \<Rightarrow> (None, w)
      | None # cs \<Rightarrow> (None, w\<lparr>w_ctx := cs\<rparr>)
      | Some e # cs \<Rightarrow> (Some e, w))"

definition rand_bytes :: "nat \<Rightarrow> world \<Rightarrow> 8 word list \<times> world" where
  "rand_bytes n w =
     (map (w_rand w) [w_draws w ..< w_draws w + n], w\<lparr>w_draws := w_draws w + n\<rparr>)"

definition uuid_new :: "world \<Rightarrow> string \<times> world" where
  "uuid_new w = (w_uuid w (w_uuids w), w\<lparr>w_uuids := Suc (w_uuids w)\<rparr>)"

text \<open>
  \<open>smtp.SendMail\<close> run against the next outcome; without one the server accepts the mail.
\<close>

definition smtp_send :: "mail \<Rightarrow> world \<Rightarrow> smtp_outcome \<times> world" where
  "smtp_send m w =
     (let out = (case w_smtp w of [] \<Rightarrow> SmtpDone | x # _ \<Rightarrow> x);
          taken = (case out of SmtpDone \<Rightarrow> True | SmtpError _ _ b \<Rightarrow> b | SmtpCtx _ b \<Rightarrow> b)
      in (out, w\<lparr>w_smtp := tl (w_smtp w), w_sent := w_sent w @ (if taken then [m] else [])\<rparr>))"

definition respond :: "string \<Rightarrow> world \<Rightarrow> world" where
  "respond data w = w\<lparr>w_replies := w_replies w @ [data]\<rparr>"

definition publish :: "string \<Rightarrow> string \<Rightarrow> world \<Rightarrow> world" where
  "publish subject data w = w\<lparr>w_published := w_published w @ [(subject, data)]\<rparr>"

lemma runs_now_utc: "now_utc w = (t, w') \<Longrightarrow> runs K P w w'"
  by (auto simp: now_utc_def outside_def intro!: runs_frame)

lemma runs_ctx_drop: "runs K P w (w\<lparr>w_ctx := cs\<rparr>)"
  by (rule runs_frame) (simp_all add: outside_def)

lemma runs_ctx_err: "ctx_err w = (e, w') \<Longrightarrow> runs K P w w'"
  by (simp add: ctx_err_def runs_ctx_drop split: list.splits option.splits)
    (metis runs_ctx_drop runs_refl)+

lemma runs_rand_bytes: "rand_bytes n w = (bs, w') \<Longrightarrow> runs K P w w'"
  by (auto simp: rand_bytes_def outside_def intro!: runs_frame)

lemma runs_uuid_new: "uuid_new w = (u, w') \<Longrightarrow> runs K P w w'"
  by (auto simp: uuid_new_def outside_def intro!: runs_frame)

lemma acts_respond: "acts K P w (respond d w)"
  by (rule acts_frame) (simp_all add: respond_def)

lemma respond_simps [simp]:
  "w_replies (respond d w) = w_replies w @ [d]" "w_sent (respond d w) = w_sent w"
  "w_published (respond d w) = w_published w" "w_kv (respond d w) = w_kv w"
  "w_writes (respond d w) = w_writes w" "w_calls (respond d w) = w_calls w"
  by (simp_all add: respond_def)

lemma now_utc_frame:
  "now_utc w = (t, w') \<Longrightarrow> w' = w\<lparr>w_ticks := Suc (w_ticks w)\<rparr> \<and> t = time_utc (w_now w (w_ticks w))"
  by (simp add: now_utc_def)

end
