(* ===== verification/GoTimeParse.thy ===== *)
theory GoTimeParse
  imports GoTime "HOL-Library.Monad_Syntax"
begin

text \<open>
  \<open>time.Parse\<close> with the layout \<open>time.RFC3339\<close>, which \<open>Time.UnmarshalJSON\<close> uses too. The model is
  the general parser: a shortcut in the package accepts part of its inputs with the same result. The
  hour may have one digit, a comma may introduce the fraction, and digits of the fraction beyond the ninth
  are dropped. \<open>time_parse_rfc3339\<close> shows that the text of a time parses to that time.
\<close>

section \<open>The parser\<close>

text \<open>A parser returns the value read and the rest of the text; \<open>None\<close> is the parse error.\<close>

definition digit :: "char \<Rightarrow> nat" where
  "digit c = byte c - 48"

definition guarded :: "bool \<Rightarrow> 'a \<Rightarrow> 'a option" where
  "guarded b x = (if b then Some x else None)"

fun literal :: "char \<Rightarrow> string \<Rightarrow> string option" where
  "literal c [] = None"
| "literal c (x # s) = guarded (x = c) s"

text \<open>\<open>getnum\<close>: two digits, or one when the width is not fixed.\<close>

fun getnum :: "bool \<Rightarrow> string \<Rightarrow> (nat \<times> string) option" where
  "getnum fixed [] = None"
| "getnum fixed [a] = guarded (is_digit a \<and> \<not> fixed) (digit a, [])"
| "getnum fixed (a # b # s) =
     (if is_digit a \<and> is_digit b then Some (10 * digit a + digit b, s)
      else guarded (is_digit a \<and> \<not> fixed) (digit a, b # s))"

definition getyear :: "string \<Rightarrow> (nat \<times> string) option" where
  "getyear s =
     (if length s < 4 then None else do { y \<leftarrow> digits_value 0 (take 4 s); Some (y, drop 4 s) })"

text \<open>\<open>parseNanoseconds\<close> on the digits after the point.\<close>

definition nanoseconds :: "string \<Rightarrow> nat" where
  "nanoseconds ds =
     (case digits_value 0 (take 9 ds) of None \<Rightarrow> 0 | Some n \<Rightarrow> n * 10 ^ (9 - length (take 9 ds)))"

fun getfraction :: "string \<Rightarrow> nat \<times> string" where
  "getfraction (c # d # s) =
     (if (c = CHR ''.'' \<or> c = CHR '','') \<and> is_digit d
      then (nanoseconds (takeWhile is_digit (d # s)), dropWhile is_digit (d # s))
      else (0, c # d # s))"
| "getfraction s = (0, s)"

text \<open>The zone: \<open>Z\<close>, or a sign, two digits, a colon and two digits; the offset in seconds.\<close>

fun getzone :: "string \<Rightarrow> (int \<times> string) option" where
  "getzone [] = None"
| "getzone (c # s) =
     (if c = CHR ''Z'' then Some (0, s)
      else do {
        (hr, s) \<leftarrow> getnum True s;
        s \<leftarrow> literal CHR '':'' s;
        (mm, s) \<leftarrow> getnum True s;
        guarded (hr \<le> 24 \<and> mm \<le> 60 \<and> (c = CHR ''+'' \<or> c = CHR ''-''))
          ((if c = CHR ''-'' then -1 else 1) * int ((hr * 60 + mm) * 60), s)
      })"

definition days_in :: "int \<Rightarrow> nat \<Rightarrow> int" where
  "days_in y m = month_lengths (is_leap y) ! (m - 1)"

definition time_of_clock :: "int \<Rightarrow> nat \<Rightarrow> int \<Rightarrow> nat \<Rightarrow> nat \<Rightarrow> nat \<Rightarrow> nat \<Rightarrow> int \<Rightarrow> gtime" where
  "time_of_clock y m d hh mi ss ns off =
     \<lparr>t_sec = days_of_date y m d * 86400 + int (hh * 3600 + mi * 60 + ss) - off, t_nsec = ns, t_off = off\<rparr>"

definition time_parse :: "string \<Rightarrow> gtime option" where
  "time_parse s = do {
     (y, s) \<leftarrow> getyear s;
     s \<leftarrow> literal CHR ''-'' s;
     (m, s) \<leftarrow> getnum True s;
     s \<leftarrow> guarded (1 \<le> m \<and> m \<le> 12) s;
     s \<leftarrow> literal CHR ''-'' s;
     (d, s) \<leftarrow> getnum True s;
     s \<leftarrow> literal CHR ''T'' s;
     (hh, s) \<leftarrow> getnum False s;
     s \<leftarrow> literal CHR '':'' s;
     (mi, s) \<leftarrow> getnum True s;
     s \<leftarrow> literal CHR '':'' s;
     (ss, s) \<leftarrow> getnum True s;
     (ns, s) \<leftarrow> Some (getfraction s);
     (off, s) \<leftarrow> getzone s;
     guarded (s = [] \<and> hh < 24 \<and> mi < 60 \<and> ss < 60 \<and> 1 \<le> d \<and> int d \<le> days_in (int y) m)
       (time_of_clock (int y) m (int d) hh mi ss ns off)
   }"

section \<open>Reading what was written\<close>

lemma guarded_True [simp]: "guarded True x = Some x"
  by (simp add: guarded_def)

lemma digit_chr [simp]: "n < 10 \<Longrightarrow> digit (chr (48 + n)) = n"
  by (simp add: digit_def)

lemma pad_str_2: "n < 100 \<Longrightarrow> pad_str 2 n = [chr (48 + n div 10), chr (48 + n mod 10)]"
proof -
  assume n: "n < 100"
  have z: "chr 48 = CHR ''0''" by (simp add: chr_eval)
  show ?thesis
  proof (cases "n < 10")
    case True
    then show ?thesis by (simp add: pad_str_def nat_str.simps z)
  next
    case False
    with n have "nat_str n = [chr (48 + n div 10), chr (48 + n mod 10)]"
      by (subst nat_str.simps, subst nat_str.simps) simp
    then show ?thesis by (simp add: pad_str_def)
  qed
qed

lemma getnum_pad_str [simp]: "n < 100 \<Longrightarrow> getnum f (pad_str 2 n @ s) = Some (n, s)"
  by (simp add: pad_str_2)

lemma digits_value_zeros [simp]: "digits_value 0 (replicate k CHR ''0'' @ s) = digits_value 0 s"
  by (induction k) (simp_all add: is_digit_def byte_eval)

lemma digits_value_pad_str [simp]: "digits_value 0 (pad_str w n) = Some n"
  by (simp add: pad_str_def digits_value_nat_str)

lemma pad_str_digits: "list_all is_digit (pad_str w n)"
proof -
  have "is_digit CHR ''0''" by (simp add: is_digit_def byte_eval)
  then show ?thesis using nat_str_digits [of n] by (auto simp: pad_str_def list_all_iff)
qed

lemma getyear_pad_str [simp]: "n < 10000 \<Longrightarrow> getyear (pad_str 4 n @ s) = Some (n, s)"
  by (simp add: getyear_def length_pad_str)

lemma digits_value_trailing:
  "digits_value n (xs @ replicate k CHR ''0'') = map_option (\<lambda>m. m * 10 ^ k) (digits_value n xs)"
proof (induction k)
  case (Suc k)
  have "xs @ replicate (Suc k) CHR ''0'' = (xs @ replicate k CHR ''0'') @ ''0''"
    by (simp add: replicate_append_same)
  then show ?case using Suc
    by (cases "digits_value n xs") (simp_all add: digits_value_append is_digit_def byte_eval)
qed (simp add: option.map_ident)

text \<open>Trailing zeros dropped and put back.\<close>

lemma rev_dropWhile_zeros:
  "rev (dropWhile (\<lambda>c. c = z) (rev s)) @ replicate (length s - length (dropWhile (\<lambda>c. c = z) (rev s))) z = s"
proof -
  let ?p = "\<lambda>c. c = z"
  have "takeWhile ?p (rev s) = replicate (length (takeWhile ?p (rev s))) z"
    by (intro replicate_eqI) (auto dest: set_takeWhileD)
  moreover have "length (takeWhile ?p (rev s)) + length (dropWhile ?p (rev s)) = length s"
    by (metis length_append length_rev takeWhile_dropWhile_id)
  ultimately have "takeWhile ?p (rev s) = replicate (length s - length (dropWhile ?p (rev s))) z"
    by (metis add_diff_cancel_right')
  then have "s = rev (replicate (length s - length (dropWhile ?p (rev s))) z @ dropWhile ?p (rev s))"
    by (metis rev_rev_ident takeWhile_dropWhile_id)
  then show ?thesis by (simp only: rev_append rev_replicate)
qed

definition no_digit :: "string \<Rightarrow> bool" where
  "no_digit z \<longleftrightarrow> (case z of [] \<Rightarrow> True | c # _ \<Rightarrow> \<not> is_digit c)"

lemma no_digit_while:
  assumes "list_all is_digit ds" and "no_digit z"
  shows "takeWhile is_digit (ds @ z) = ds" and "dropWhile is_digit (ds @ z) = z"
  using assms by (cases z; simp add: no_digit_def takeWhile_append2 dropWhile_append2 list_all_iff)+

lemma getfraction_frac_str:
  assumes "ns < 10 ^ 9" and "no_digit z" and "z \<noteq> []" and "hd z \<noteq> CHR ''.''" and "hd z \<noteq> CHR '',''"
  shows "getfraction (frac_str ns @ z) = (ns, z)"
proof (cases "ns = 0")
  case True
  from assms(3) obtain c t where "z = c # t" by (cases z) auto
  with assms True show ?thesis by (cases t) (simp_all add: frac_str_def)
next
  case False
  define ds where "ds = rev (dropWhile (\<lambda>c. c = CHR ''0'') (rev (pad_str 9 ns)))"
  have len: "length (pad_str 9 ns) = 9" using assms(1) by (rule length_pad_str)
  have all: "ds @ replicate (9 - length ds) CHR ''0'' = pad_str 9 ns"
    using rev_dropWhile_zeros [of "CHR ''0''" "pad_str 9 ns"] by (simp add: ds_def len)
  then have le: "length ds \<le> 9" using len by (metis le_add1 length_append)
  have digs: "list_all is_digit ds" using pad_str_digits [of 9 ns] unfolding all [symmetric] by simp
  have val: "map_option (\<lambda>m. m * 10 ^ (9 - length ds)) (digits_value 0 ds) = Some ns"
    unfolding digits_value_trailing [symmetric] all by simp
  then have nano: "nanoseconds ds = ns" using le by (auto simp: nanoseconds_def)
  have "ds \<noteq> []" using val False by auto
  then obtain d t where ds: "ds = d # t" by (cases ds) auto
  have "frac_str ns @ z = CHR ''.'' # d # (t @ z)"
    unfolding frac_str_def using False ds by (simp add: ds_def [symmetric])
  moreover have "getfraction (CHR ''.'' # d # (t @ z)) = (nanoseconds ds, z)"
    using no_digit_while [OF digs assms(2)] digs by (simp add: ds)
  ultimately show ?thesis by (simp add: nano)
qed

lemma zone_minutes_exact: "t_off t mod 60 = 0 \<Longrightarrow> t_off t = 60 * zone_minutes t"
proof -
  assume "t_off t mod 60 = 0"
  then obtain k where k: "t_off t = 60 * k" by (auto simp: mod_eq_0_iff_dvd)
  have "\<bar>60 * k\<bar> div 60 = \<bar>k\<bar>" by (simp add: abs_mult)
  then show ?thesis unfolding zone_minutes_def k by (simp add: sgn_mult mult_sgn_abs)
qed

lemma getzone_zone_str:
  assumes "time_exact t"
  shows "getzone (zone_str t) = Some (t_off t, [])"
proof (cases "t_off t = 0")
  case False
  define n where "n = nat \<bar>zone_minutes t\<bar>"
  have off: "t_off t = 60 * zone_minutes t" and "\<bar>zone_minutes t\<bar> < 1440"
    using assms zone_minutes_exact by (simp_all add: time_exact_def time_encodable_def)
  then have n: "n < 1440" by (simp add: n_def)
  have b: "n div 60 < 24" "n mod 60 < 60" "n div 60 * 60 + n mod 60 = n"
    using n by (simp_all add: less_mult_imp_div_less)
  have l: "getnum True (pad_str 2 (n mod 60)) = Some (n mod 60, [])"
    using getnum_pad_str [of "n mod 60" True "[]"] b by simp
  have z: "zone_minutes t < 0 \<Longrightarrow> - int n = zone_minutes t" "\<not> zone_minutes t < 0 \<Longrightarrow> int n = zone_minutes t"
    by (simp_all add: n_def)
  have zs: "zone_str t = (if zone_minutes t < 0 then CHR ''-'' else CHR ''+'')
      # pad_str 2 (n div 60) @ CHR '':'' # pad_str 2 (n mod 60)"
    using False by (simp add: zone_str_def n_def Let_def)
  have c: "int ((n div 60 * 60 + n mod 60) * 60) = 60 * int n" unfolding b(3) by simp
  have "getzone (zone_str t)
      = Some ((if zone_minutes t < 0 then -1 else 1) * int ((n div 60 * 60 + n mod 60) * 60), [])"
    unfolding zs using b(1,2) l by (simp del: of_nat_mult of_nat_add) (use b(3) in linarith)
  then show ?thesis unfolding c off using z by auto
qed (simp add: zone_str_def)

lemma zone_str_head:
  "zone_str t \<noteq> []" "no_digit (zone_str t)" "hd (zone_str t) \<noteq> CHR ''.''" "hd (zone_str t) \<noteq> CHR '',''"
  by (simp_all add: zone_str_def Let_def no_digit_def is_digit_def byte_eval)

lemma civil_date_days_in: "civil_date n = (y, m, d) \<Longrightarrow> d \<le> days_in y m"
proof -
  assume c: "civil_date n = (y, m, d)"
  then obtain yd where yy: "year_yday n = (y, yd)"
    and md: "month_day (month_lengths (is_leap y)) 1 yd = (m, d - 1)"
    by (auto simp: civil_date_def split: prod.splits)
  have "0 \<le> yd" "yd < sum_list (month_lengths (is_leap y))"
    using year_yday [OF yy] by (simp_all add: sum_month_lengths)
  then show ?thesis using month_day_spec [OF md] by (simp add: days_in_def)
qed

lemma time_parse_rfc3339:
  assumes t: "time_exact t"
  shows "time_parse (rfc3339_nano t) = Some t"
proof -
  obtain y m d where c: "civil_date (local_secs t div 86400) = (y, m, d)"
    by (cases "civil_date (local_secs t div 86400)")
  note cd = civil_date [OF c] civil_date_days_in [OF c]
  have y: "0 \<le> y" "y \<le> 9999" using t c by (simp_all add: time_exact_def time_encodable_def time_year_def)
  define s where "s = nat (local_secs t mod 86400)"
  have s: "s < 86400" "int s = local_secs t mod 86400" by (simp_all add: s_def nat_less_iff)
  have b: "s div 3600 < 24" "s mod 3600 div 60 < 60" "s mod 60 < 60"
    using s mod_less_divisor [of 3600 s] by (simp_all add: less_mult_imp_div_less)
  have "s mod 3600 mod 60 = s mod 60" by (rule mod_mod_cancel) simp
  then have sum: "s div 3600 * 3600 + s mod 3600 div 60 * 60 + s mod 60 = s"
    using div_mult_mod_eq [of s 3600] div_mult_mod_eq [of "s mod 3600" 60]
    by linarith
  have f: "getfraction (frac_str (t_nsec t) @ zone_str t) = (t_nsec t, zone_str t)"
    using t zone_str_head [of t] by (intro getfraction_frac_str) (simp_all add: time_exact_def)
  have tm: "time_of_clock y m d (s div 3600) (s mod 3600 div 60) (s mod 60) (t_nsec t) (t_off t) = t"
    using s(2) cd(1) div_mult_mod_eq [of "local_secs t" 86400]
    by (simp add: time_of_clock_def sum del: of_nat_mult of_nat_add) (simp add: local_secs_def)
  have "Suc 0 \<le> nat d" using cd(4) by simp
  then show ?thesis
    using y b cd getzone_zone_str [OF t] tm
    by (simp add: time_parse_def rfc3339_nano_def date_str_def clock_str_def c s_def [symmetric] Let_def f)
qed

lemma digits_value_bound: "digits_value n s = Some m \<Longrightarrow> m < (n + 1) * 10 ^ length s"
proof (induction s arbitrary: n)
  case (Cons c s)
  then have c: "is_digit c" "digits_value (10 * n + (byte c - 48)) s = Some m" by (auto split: if_splits)
  then have "m < (10 * n + (byte c - 48) + 1) * 10 ^ length s" by (intro Cons.IH)
  also have "\<dots> \<le> (10 * (n + 1)) * 10 ^ length s"
    using c(1) by (intro mult_right_mono) (auto simp: is_digit_def)
  finally show ?case by (simp add: algebra_simps)
qed simp

lemma nanoseconds_bound: "nanoseconds ds < 10 ^ 9"
proof (cases "digits_value 0 (take 9 ds)")
  case (Some n)
  define k where "k = length (take 9 ds)"
  have "n < 10 ^ k" using digits_value_bound [OF Some] by (simp add: k_def)
  then have "n * 10 ^ (9 - k) < 10 ^ k * 10 ^ (9 - k)" by simp
  also have "(10 :: nat) ^ k * 10 ^ (9 - k) = 10 ^ 9"
    by (subst power_add [symmetric]) (simp add: k_def)
  finally show ?thesis using Some by (simp add: nanoseconds_def k_def)
qed (simp add: nanoseconds_def)

lemma getfraction_bound: "fst (getfraction s) < 10 ^ 9"
  by (cases s rule: getfraction.cases) (simp_all add: nanoseconds_bound [simplified])

lemma time_parse_nsec: "time_parse s = Some t \<Longrightarrow> t_nsec t < 10 ^ 9"
  using getfraction_bound [simplified]
  by (auto simp: time_parse_def time_of_clock_def Option.bind_eq_Some_conv guarded_def case_prod_unfold
      split: if_splits)

end
