(* ===== verification/GoJsonParse.thy ===== *)
theory GoJsonParse
  imports GoJson GoTimeParse
begin

text \<open>
  The reader of \<open>encoding/json\<close>: the grammar its scanner accepts, with the limit on nesting. A text
  is read into the values of \<open>GoJson\<close>, which keep strings escaped and numbers as text.
  \<open>json_parse_print\<close> shows that what the encoder writes is read back.
\<close>

section \<open>Tokens\<close>

abbreviation dquote :: char where
  "dquote \<equiv> CHR 0x22"

definition json_space :: "char \<Rightarrow> bool" where
  "json_space c \<longleftrightarrow> byte c = 32 \<or> byte c = 9 \<or> byte c = 13 \<or> byte c = 10"

definition skip_ws :: "string \<Rightarrow> string" where
  "skip_ws = dropWhile json_space"

text \<open>\<open>token c s\<close>: the text after the character \<open>c\<close>, white space before it skipped.\<close>

definition token :: "char \<Rightarrow> string \<Rightarrow> string option" where
  "token c s = literal c (skip_ws s)"

text \<open>A scanner returns the text it accepts and the rest.\<close>

definition keep :: "string \<Rightarrow> (string \<times> string) option \<Rightarrow> (string \<times> string) option" where
  "keep x r = map_option (\<lambda>(t, s). (x @ t, s)) r"

text \<open>The character after a backslash, with what follows it.\<close>

definition escape_ok :: "char \<Rightarrow> string \<Rightarrow> bool" where
  "escape_ok e s \<longleftrightarrow> e = dquote \<or> e = backslash \<or> e \<in> set ''/bfnrt''
     \<or> (e = CHR ''u'' \<and> 4 \<le> length s \<and> list_all is_hex (take 4 s))"

text \<open>The rest of a string literal, up to its closing quote.\<close>

fun scan_string :: "string \<Rightarrow> (string \<times> string) option" where
  "scan_string [] = None"
| "scan_string [c] = guarded (c = dquote) ([], [])"
| "scan_string (c # e # s) =
     (if c = dquote then Some ([], e # s)
      else if c = backslash then
        (if escape_ok e s then keep [c, e] (scan_string s) else None)
      else if byte c < 0x20 then None
      else keep [c] (scan_string (e # s)))"

definition scan_digits :: "string \<Rightarrow> (string \<times> string) option" where
  "scan_digits s = guarded (s \<noteq> [] \<and> is_digit (hd s)) (takeWhile is_digit s, dropWhile is_digit s)"

definition scan_int :: "string \<Rightarrow> (string \<times> string) option" where
  "scan_int s = (case literal CHR ''0'' s of Some t \<Rightarrow> Some (''0'', t) | None \<Rightarrow> scan_digits s)"

definition scan_sign :: "string \<Rightarrow> (string \<times> string) option" where
  "scan_sign s = (case literal CHR ''-'' s of Some t \<Rightarrow> keep ''-'' (scan_int t) | None \<Rightarrow> scan_int s)"

definition scan_frac :: "string \<Rightarrow> (string \<times> string) option" where
  "scan_frac s = (case literal CHR ''.'' s of Some t \<Rightarrow> keep ''.'' (scan_digits t) | None \<Rightarrow> Some ([], s))"

fun scan_exp :: "string \<Rightarrow> (string \<times> string) option" where
  "scan_exp (c # s) =
     (if c = CHR ''e'' \<or> c = CHR ''E'' then
        (case s of
           [] \<Rightarrow> None
         | d # t \<Rightarrow> if d = CHR ''+'' \<or> d = CHR ''-'' then keep [c, d] (scan_digits t)
                   else keep [c] (scan_digits s))
      else Some ([], c # s))"
| "scan_exp [] = Some ([], [])"

definition scan_number :: "string \<Rightarrow> (string \<times> string) option" where
  "scan_number s = do {
     (i, s) \<leftarrow> scan_sign s;
     (f, s) \<leftarrow> scan_frac s;
     (e, s) \<leftarrow> scan_exp s;
     Some (i @ f @ e, s)
   }"

section \<open>Values\<close>

text \<open>\<open>maxNestingDepth\<close>: the number of arrays and objects that may be open.\<close>

definition maxNestingDepth :: nat where
  "maxNestingDepth = 10000"

text \<open>
  The first argument is fuel, which every call uses one unit of; \<open>parse_fuel\<close> shows that twice the length
  of the text is enough. The second is the depth that is left.
\<close>

fun parse_value :: "nat \<Rightarrow> nat \<Rightarrow> string \<Rightarrow> (json \<times> string) option"
and parse_elems :: "nat \<Rightarrow> nat \<Rightarrow> string \<Rightarrow> (json list \<times> string) option"
and parse_members :: "nat \<Rightarrow> nat \<Rightarrow> string \<Rightarrow> ((string \<times> json) list \<times> string) option" where
  "parse_value 0 d s = None"
| "parse_value (Suc n) d s =
     (case skip_ws s of
        [] \<Rightarrow> None
      | c # t \<Rightarrow>
          if c = dquote then do { (x, r) \<leftarrow> scan_string t; Some (JStr x, r) }
          else if c = CHR ''['' then
            (if d = 0 then None
             else case token CHR '']'' t of
                 Some r \<Rightarrow> Some (JArr [], r)
               | None \<Rightarrow> do { (xs, r) \<leftarrow> parse_elems n (d - 1) t; Some (JArr xs, r) })
          else if c = CHR ''{'' then
            (if d = 0 then None
             else case token CHR ''}'' t of
                 Some r \<Rightarrow> Some (JObj [], r)
               | None \<Rightarrow> do { (ms, r) \<leftarrow> parse_members n (d - 1) t; Some (JObj ms, r) })
          else if prefix ''null'' (c # t) then Some (JNull, drop 3 t)
          else if prefix ''true'' (c # t) then Some (JBool True, drop 3 t)
          else if prefix ''false'' (c # t) then Some (JBool False, drop 4 t)
          else do { (x, r) \<leftarrow> scan_number (c # t); Some (JNum x, r) })"
| "parse_elems 0 d s = None"
| "parse_elems (Suc n) d s = do {
     (v, r) \<leftarrow> parse_value n d s;
     (case token CHR '','' r of
        Some r \<Rightarrow> do { (vs, r) \<leftarrow> parse_elems n d r; Some (v # vs, r) }
      | None \<Rightarrow> do { r \<leftarrow> token CHR '']'' r; Some ([v], r) })
   }"
| "parse_members 0 d s = None"
| "parse_members (Suc n) d s = do {
     r \<leftarrow> token dquote s;
     (k, r) \<leftarrow> scan_string r;
     r \<leftarrow> token CHR '':'' r;
     (v, r) \<leftarrow> parse_value n d r;
     (case token CHR '','' r of
        Some r \<Rightarrow> do { (ms, r) \<leftarrow> parse_members n d r; Some ((k, v) # ms, r) }
      | None \<Rightarrow> do { r \<leftarrow> token CHR ''}'' r; Some ([(k, v)], r) })
   }"

text \<open>The value of a whole text; white space may follow it, nothing else.\<close>

definition json_parse :: "string \<Rightarrow> json option" where
  "json_parse s = do {
     (v, r) \<leftarrow> parse_value (2 * length s + 1) maxNestingDepth s;
     guarded (skip_ws r = []) v
   }"

section \<open>What the encoder writes is read back\<close>

text \<open>Texts of numbers and of strings between their quotes, and the values that hold only such texts.\<close>

definition num_text :: "string \<Rightarrow> bool" where
  "num_text x \<longleftrightarrow> scan_number x = Some (x, [])"

definition raw_text :: "string \<Rightarrow> bool" where
  "raw_text x \<longleftrightarrow> scan_string (x @ [dquote]) = Some (x, [])"

fun json_ok :: "nat \<Rightarrow> json \<Rightarrow> bool" where
  "json_ok d JNull \<longleftrightarrow> True"
| "json_ok d (JBool b) \<longleftrightarrow> True"
| "json_ok d (JNum x) \<longleftrightarrow> num_text x"
| "json_ok d (JStr x) \<longleftrightarrow> raw_text x"
| "json_ok d (JArr xs) \<longleftrightarrow> 0 < d \<and> list_all (json_ok (d - 1)) xs"
| "json_ok d (JObj ms) \<longleftrightarrow> 0 < d \<and> list_all (\<lambda>(k, v). raw_text k \<and> json_ok (d - 1) v) ms"

subsection \<open>Strings\<close>

lemma keep_simps [simp]:
  "keep x None = None" "keep x (Some (t, s)) = Some (x @ t, s)"
  "keep x r = Some (t, s) \<longleftrightarrow> (\<exists>u. r = Some (u, s) \<and> t = x @ u)"
  by (auto simp: keep_def)

lemma guarded_Some [simp]: "guarded b x = Some y \<longleftrightarrow> b \<and> x = y"
  by (auto simp: guarded_def)

lemma escape_ok_append: "escape_ok e s \<Longrightarrow> escape_ok e (s @ r)"
  by (cases "e = CHR ''u''") (simp_all add: escape_ok_def, auto)

lemma scan_string_append: "scan_string s = Some (t, u) \<Longrightarrow> scan_string (s @ r) = Some (t, u @ r)"
proof (induction s arbitrary: t rule: scan_string.induct)
  case (2 c)
  then show ?case by (cases r) auto
next
  case (3 c e s)
  consider "c = dquote" | "c = backslash" "escape_ok e s" | "c \<noteq> dquote" "c \<noteq> backslash" "\<not> byte c < 0x20"
    using "3.prems" by (cases "c = dquote"; cases "c = backslash"; cases "escape_ok e s"; cases "byte c < 0x20") simp_all
  then show ?case
  proof cases
    case 1
    with "3.prems" have "t = []" "u = e # s" by simp_all
    then show ?thesis using 1 by simp
  next
    case 2
    then have n: "c \<noteq> dquote" by (simp add: backslash_def)
    with "3.prems" 2 obtain t' where "scan_string s = Some (t', u)" "t = [c, e] @ t'" by auto
    with "3.IH"(1) [OF n 2] 2 n escape_ok_append [OF 2(2)] show ?thesis by simp
  next
    case 3
    with "3.prems" obtain t' where "scan_string (e # s) = Some (t', u)" "t = [c] @ t'" by auto
    with "3.IH"(2) [OF 3] 3 show ?thesis by simp
  qed
qed simp

lemma scan_string_raw: "raw_text x \<Longrightarrow> scan_string (x @ dquote # r) = Some (x, r)"
  using scan_string_append [of "x @ [dquote]" x "[]" r] by (simp add: raw_text_def)

subsection \<open>Numbers\<close>

text \<open>Where a number ends: not before another character of a number.\<close>

definition num_end :: "string \<Rightarrow> bool" where
  "num_end r \<longleftrightarrow> no_digit r \<and> (r = [] \<or> hd r \<notin> set ''.eE'')"

lemma num_end_simps [simp]:
  "num_end []" "num_end (CHR '','' # r)" "num_end (CHR '']'' # r)" "num_end (CHR ''}'' # r)"
  by (simp_all add: num_end_def no_digit_def is_digit_def byte_eval)

lemma literal_append: "s \<noteq> [] \<Longrightarrow> literal c (s @ r) = map_option (\<lambda>t. t @ r) (literal c s)"
  by (cases s) (auto simp: guarded_def)

lemma literal_Some [simp]: "literal c s = Some t \<longleftrightarrow> s = c # t"
  by (cases s) auto

lemma literal_None: "literal c s = None \<longleftrightarrow> s = [] \<or> hd s \<noteq> c"
  by (cases s) (auto simp: guarded_def)

lemma scan_digits_append:
  assumes "scan_digits s = Some (t, u)" and "num_end r"
  shows "scan_digits (s @ r) = Some (t, u @ r)"
proof -
  have s: "s \<noteq> []" "is_digit (hd s)" "t = takeWhile is_digit s" "u = dropWhile is_digit s"
    using assms(1) by (auto simp: scan_digits_def)
  have "takeWhile is_digit (s @ r) = t \<and> dropWhile is_digit (s @ r) = u @ r"
  proof (cases "\<forall>x \<in> set s. is_digit x")
    case True
    then have "list_all is_digit s" by (simp add: list_all_iff)
    then have "takeWhile is_digit (s @ r) = s" "dropWhile is_digit (s @ r) = r"
      using no_digit_while assms(2) by (simp_all add: num_end_def)
    moreover have "t = s" "u = []" using True s by (simp_all add: takeWhile_eq_all_conv [THEN iffD2])
    ultimately show ?thesis by simp
  next
    case False
    then show ?thesis using s by (auto simp: takeWhile_append1 dropWhile_append1)
  qed
  with s show ?thesis by (simp add: scan_digits_def)
qed

lemma scan_int_append:
  assumes "scan_int s = Some (t, u)" and "num_end r"
  shows "scan_int (s @ r) = Some (t, u @ r)"
proof (cases s)
  case Nil
  with assms(1) show ?thesis by (simp add: scan_int_def scan_digits_def guarded_def)
next
  case (Cons c v)
  with assms scan_digits_append [of s t u r] show ?thesis
    by (auto simp: scan_int_def guarded_def split: option.splits if_splits)
qed

lemma scan_sign_append:
  assumes "scan_sign s = Some (t, u)" and "num_end r"
  shows "scan_sign (s @ r) = Some (t, u @ r)"
proof (cases s)
  case Nil
  with assms(1) show ?thesis by (simp add: scan_sign_def scan_int_def scan_digits_def guarded_def)
next
  case (Cons c v)
  with assms scan_int_append [of s t u r] scan_int_append [of v _ u r] show ?thesis
    by (auto simp: scan_sign_def guarded_def split: option.splits if_splits)
qed

lemma scan_frac_append:
  assumes "scan_frac s = Some (t, u)" and "num_end r"
  shows "scan_frac (s @ r) = Some (t, u @ r)"
proof (cases s)
  case Nil
  with assms show ?thesis by (cases r) (auto simp: scan_frac_def guarded_def num_end_def)
next
  case (Cons c v)
  with assms scan_digits_append [of v _ u r] show ?thesis
    by (auto simp: scan_frac_def guarded_def split: option.splits if_splits)
qed

lemma scan_exp_append:
  assumes "scan_exp s = Some (t, u)" and "num_end r"
  shows "scan_exp (s @ r) = Some (t, u @ r)"
proof (cases s)
  case Nil
  with assms show ?thesis by (cases r) (auto simp: num_end_def)
next
  case (Cons c v)
  with assms scan_digits_append [of v _ u r] scan_digits_append [of "tl v" _ u r] show ?thesis
    by (auto split: list.splits if_splits)
qed

lemma scan_number_append:
  assumes "scan_number s = Some (t, u)" and "num_end r"
  shows "scan_number (s @ r) = Some (t, u @ r)"
proof -
  obtain i v f w e where "scan_sign s = Some (i, v)" "scan_frac v = Some (f, w)"
    "scan_exp w = Some (e, u)" "t = i @ f @ e"
    using assms(1) by (auto simp: scan_number_def Option.bind_eq_Some_conv)
  then show ?thesis
    using scan_sign_append [OF _ assms(2)] scan_frac_append [OF _ assms(2)] scan_exp_append [OF _ assms(2)]
    by (simp add: scan_number_def)
qed

lemma nat_str_first: "0 < n \<Longrightarrow> hd (nat_str n) \<noteq> CHR ''0''"
proof (induction n rule: nat_str.induct)
  case (1 n)
  show ?case
  proof (cases "n < 10")
    case True
    then have "byte (chr (48 + n)) \<noteq> byte CHR ''0''" using "1.prems" by (simp add: byte_eval)
    then have "chr (48 + n) \<noteq> CHR ''0''" by metis
    with True show ?thesis by (subst nat_str.simps) simp
  next
    case False
    then have "0 < n div 10" by simp
    with 1 False show ?thesis by (subst nat_str.simps) simp
  qed
qed

lemma scan_digits_all: "list_all is_digit s \<Longrightarrow> s \<noteq> [] \<Longrightarrow> scan_digits s = Some (s, [])"
  by (cases s) (auto simp: scan_digits_def list_all_iff)

lemma num_text_int_str: "num_text (int_str i)"
proof -
  have int: "scan_int (nat_str n) = Some (nat_str n, [])" for n
  proof (cases "n = 0")
    case True
    then show ?thesis by (simp add: scan_int_def nat_str.simps chr_eval)
  next
    case False
    then have "literal CHR ''0'' (nat_str n) = None" by (simp add: literal_None nat_str_first)
    then show ?thesis by (simp add: scan_int_def scan_digits_all nat_str_digits)
  qed
  have "nat_str n \<noteq> CHR ''-'' # a" for n a using nat_str_hd [of n] by auto
  then have "scan_sign (int_str i) = Some (int_str i, [])"
    using int [of "nat i"]
    by (cases "literal CHR ''-'' (nat_str (nat i))") (auto simp: int_str_def scan_sign_def int)
  then show ?thesis by (simp add: num_text_def scan_number_def scan_frac_def)
qed

subsection \<open>Values\<close>

lemma skip_ws_char [simp]: "\<not> json_space c \<Longrightarrow> skip_ws (c # s) = c # s"
  by (simp add: skip_ws_def)

lemma json_space_simps [simp]:
  "\<not> json_space CHR '',''" "\<not> json_space CHR '':''" "\<not> json_space CHR '']''" "\<not> json_space CHR ''}''"
  "\<not> json_space CHR ''[''" "\<not> json_space CHR ''{''" "\<not> json_space dquote"
  by (simp_all add: json_space_def byte_eval)

lemma token_char [simp]: "\<not> json_space x \<Longrightarrow> token c (x # s) = guarded (x = c) s"
  by (simp add: token_def)

lemma guarded_False [simp]: "guarded False x = None"
  by (simp add: guarded_def)

text \<open>The first character of a number is none of those that start another value.\<close>

lemma num_text_first:
  assumes "num_text x"
  shows "\<exists>c t. x = c # t \<and> (c = CHR ''-'' \<or> is_digit c)"
proof (cases x)
  case Nil
  with assms show ?thesis
    by (simp add: num_text_def scan_number_def scan_sign_def scan_int_def scan_digits_def guarded_def)
next
  case (Cons c t)
  then show ?thesis using assms
    by (auto simp: num_text_def scan_number_def scan_sign_def scan_int_def scan_digits_def guarded_def
        is_digit_def byte_eval split: option.splits if_splits)
qed

lemma num_text_start:
  assumes "num_text (c # t)"
  shows "\<not> json_space c" "c \<noteq> dquote" "c \<noteq> CHR ''[''" "c \<noteq> CHR ''{''" "c \<noteq> CHR ''n''"
    "c \<noteq> CHR ''t''" "c \<noteq> CHR ''f''"
  using num_text_first [OF assms] by (auto simp: is_digit_def json_space_def byte_eval)

text \<open>The character a printed value begins with, and that a closing bracket is not one.\<close>

lemma json_print_first:
  assumes "json_ok d v"
  obtains c t where "json_print v = c # t" "\<not> json_space c" "c \<noteq> CHR '']''" "c \<noteq> CHR ''}''"
proof (cases v)
  case (JNum x)
  with assms num_text_first num_text_start(1) obtain c t
    where "x = c # t" "c = CHR ''-'' \<or> is_digit c" "\<not> json_space c" by force
  with JNum that [of c t] show ?thesis
    by (cases "c = CHR '']''"; cases "c = CHR ''}''") (auto simp: is_digit_def byte_eval)
next
  case (JBool b)
  with that show ?thesis by (cases b) (auto simp: json_space_def byte_eval)
qed (use that in \<open>auto simp: quote_def json_space_def byte_eval\<close>)

definition reads_back :: "nat \<Rightarrow> json \<Rightarrow> bool" where
  "reads_back d v \<longleftrightarrow> (\<forall>n r. 2 * length (json_print v) < n \<longrightarrow> num_end r
     \<longrightarrow> parse_value n d (json_print v @ r) = Some (v, r))"

lemma parse_elems_print:
  assumes "list_all (reads_back d) (x # xs)"
    and "2 * length (commas (map json_print (x # xs))) + 2 \<le> n"
  shows "parse_elems n d (commas (map json_print (x # xs)) @ CHR '']'' # r) = Some (x # xs, r)"
  using assms
proof (induction xs arbitrary: x n)
  case Nil
  then obtain m where n: "n = Suc m" "2 * length (json_print x) < m" by (cases n) auto
  with Nil(1) have "parse_value m d (json_print x @ CHR '']'' # r) = Some (x, CHR '']'' # r)"
    by (simp add: reads_back_def)
  then show ?case by (simp add: n)
next
  case (Cons y ys)
  let ?ys = "commas (map json_print (y # ys))"
  from Cons.prems(2) obtain m where n: "n = Suc m" "2 * length (json_print x) < m" "2 * length ?ys + 2 \<le> m"
    by (cases n) auto
  with Cons.prems(1) have "parse_value m d (json_print x @ CHR '','' # ?ys @ CHR '']'' # r)
      = Some (x, CHR '','' # ?ys @ CHR '']'' # r)"
    by (simp add: reads_back_def)
  moreover have "parse_elems m d (?ys @ CHR '']'' # r) = Some (y # ys, r)"
    using Cons.IH [of y m] Cons.prems(1) n by simp
  ultimately show ?case by (simp add: n)
qed

abbreviation print_member :: "string \<times> json \<Rightarrow> string" where
  "print_member \<equiv> (\<lambda>(k, v). quote k @ CHR '':'' # json_print v)"

lemma parse_members_print:
  assumes "list_all (\<lambda>(k, v). raw_text k \<and> reads_back d v) (x # xs)"
    and "2 * length (commas (map print_member (x # xs))) + 2 \<le> n"
  shows "parse_members n d (commas (map print_member (x # xs)) @ CHR ''}'' # r) = Some (x # xs, r)"
  using assms
proof (induction xs arbitrary: x n)
  case Nil
  obtain k v where x: "x = (k, v)" by force
  from Nil x obtain m where n: "n = Suc m" "2 * length (json_print v) < m" by (cases n) auto
  with Nil(1) x have "parse_value m d (json_print v @ CHR ''}'' # r) = Some (v, CHR ''}'' # r)"
    by (simp add: reads_back_def)
  with Nil(1) show ?case by (simp add: n x quote_def scan_string_raw)
next
  case (Cons y ys)
  obtain k v where x: "x = (k, v)" by force
  let ?ys = "commas (map print_member (y # ys))"
  from Cons.prems(2) x obtain m where n: "n = Suc m" "2 * length (json_print v) < m" "2 * length ?ys + 2 \<le> m"
    by (cases n) auto
  with Cons.prems(1) x have "parse_value m d (json_print v @ CHR '','' # ?ys @ CHR ''}'' # r)
      = Some (v, CHR '','' # ?ys @ CHR ''}'' # r)"
    by (simp add: reads_back_def)
  moreover have "parse_members m d (?ys @ CHR ''}'' # r) = Some (y # ys, r)"
    using Cons.IH [of y m] Cons.prems(1) n by simp
  ultimately show ?case using Cons.prems(1) by (simp add: n x quote_def scan_string_raw)
qed

lemma json_reads_back: "json_ok d v \<Longrightarrow> reads_back d v"
proof (induction v arbitrary: d)
  case (JNum x)
  show ?case unfolding reads_back_def
  proof (intro allI impI)
    fix n :: nat and r
    assume "2 * length (json_print (JNum x)) < n" and r: "num_end r"
    then obtain m where n: "n = Suc m" by (cases n) auto
    from JNum num_text_first obtain c t where x: "x = c # t" by fastforce
    have num: "scan_number (x @ r) = Some (x, r)"
      using JNum scan_number_append [of x x "[]" r] r by (simp add: num_text_def)
    from JNum x have "num_text (c # t)" by simp
    note st = num_text_start [OF this]
    show "parse_value n d (json_print (JNum x) @ r) = Some (JNum x, r)"
      using st num by (simp add: n x)
  qed
next
  case (JArr xs)
  show ?case unfolding reads_back_def
  proof (intro allI impI)
    fix n :: nat and r
    assume l: "2 * length (json_print (JArr xs)) < n" and "num_end r"
    then obtain m where n: "n = Suc m" by (cases n) auto
    show "parse_value n d (json_print (JArr xs) @ r) = Some (JArr xs, r)"
    proof (cases xs)
      case Nil
      with JArr.prems show ?thesis by (simp add: n)
    next
      case (Cons y ys)
      have "list_all (reads_back (d - 1)) (y # ys)"
        using JArr Cons by (auto simp: list_all_iff)
      from parse_elems_print [OF this, of m r] have
        e: "parse_elems m (d - 1) (commas (map json_print xs) @ CHR '']'' # r) = Some (xs, r)"
        using l Cons by (simp add: n)
      from JArr.prems Cons have "json_ok (d - 1) y" by simp
      then obtain c t where "json_print y = c # t" "\<not> json_space c" "c \<noteq> CHR '']''"
        by (rule json_print_first)
      then have "token CHR '']'' (commas (map json_print xs) @ CHR '']'' # r) = None"
        using Cons by (cases ys) simp_all
      with e JArr.prems show ?thesis by (simp add: n)
    qed
  qed
next
  case (JObj ms)
  show ?case unfolding reads_back_def
  proof (intro allI impI)
    fix n :: nat and r
    assume l: "2 * length (json_print (JObj ms)) < n" and "num_end r"
    then obtain m where n: "n = Suc m" by (cases n) auto
    show "parse_value n d (json_print (JObj ms) @ r) = Some (JObj ms, r)"
    proof (cases ms)
      case Nil
      with JObj.prems show ?thesis by (simp add: n)
    next
      case (Cons y ys)
      have "list_all (\<lambda>(k, v). raw_text k \<and> reads_back (d - 1) v) (y # ys)"
        using JObj.prems JObj.IH [OF _ snds.intros] Cons by (fastforce simp: list_all_iff)
      from parse_members_print [OF this, of m r] have
        e: "parse_members m (d - 1) (commas (map print_member ms) @ CHR ''}'' # r) = Some (ms, r)"
        using l Cons by (simp add: n)
      have "token CHR ''}'' (commas (map print_member ms) @ CHR ''}'' # r) = None"
        using Cons by (cases ys; cases y) (simp_all add: quote_def)
      with e JObj.prems show ?thesis by (simp add: n)
    qed
  qed
next
  case JNull
  show ?case unfolding reads_back_def
    by (intro allI impI) (case_tac n; simp add: json_space_def byte_eval)
next
  case (JBool b)
  show ?case unfolding reads_back_def
    by (intro allI impI) (case_tac n; cases b; simp add: json_space_def byte_eval)
next
  case (JStr x)
  then show ?case unfolding reads_back_def
    by (intro allI impI) (case_tac n; simp add: quote_def scan_string_raw)
qed

lemma json_parse_print:
  assumes "json_ok maxNestingDepth v"
  shows "json_parse (json_print v) = Some v"
proof -
  have "parse_value (2 * length (json_print v) + 1) maxNestingDepth (json_print v @ []) = Some (v, [])"
    using json_reads_back [OF assms] by (simp add: reads_back_def del: append_Nil2 parse_value.simps)
  then show ?thesis by (simp add: json_parse_def skip_ws_def)
qed

subsection \<open>The fuel\<close>

text \<open>
  Every parser leaves less text than it got, so with more than twice the length of the text as fuel the
  result no longer depends on the fuel: a failure is an error of the text.
\<close>

lemma skip_ws_length: "length (skip_ws s) \<le> length s"
  by (simp add: skip_ws_def length_dropWhile_le)

lemma token_length: "token c s = Some r \<Longrightarrow> length r < length s"
  using skip_ws_length [of s] by (simp add: token_def)

lemma scan_string_length: "scan_string s = Some (t, u) \<Longrightarrow> length u < length s"
proof (induction s arbitrary: t rule: scan_string.induct)
  case (3 c e s)
  then show ?case
    by (cases "c = dquote"; cases "c = backslash"; cases "escape_ok e s"; cases "byte c < 0x20") fastforce+
qed (simp_all)

lemma scan_digits_length: "scan_digits s = Some (t, u) \<Longrightarrow> length u < length s"
  by (cases s) (auto simp: scan_digits_def less_Suc_eq_le length_dropWhile_le)

lemma scan_number_length: "scan_number s = Some (t, u) \<Longrightarrow> length u < length s"
proof -
  assume "scan_number s = Some (t, u)"
  then obtain i v f w e where 1: "scan_sign s = Some (i, v)" and 2: "scan_frac v = Some (f, w)"
    and 3: "scan_exp w = Some (e, u)"
    by (auto simp: scan_number_def Option.bind_eq_Some_conv)
  have int: "scan_int x = Some (i, y) \<Longrightarrow> length y < length x" for x i y
    by (auto simp: scan_int_def dest: scan_digits_length split: option.splits)
  from 1 have "length v < length s"
    by (auto simp: scan_sign_def dest!: int split: option.splits)
  moreover from 2 have "length w \<le> length v"
    by (auto simp: scan_frac_def dest!: scan_digits_length split: option.splits)
  moreover from 3 have "length u \<le> length w"
    by (cases w) (auto dest!: scan_digits_length split: if_splits list.splits)
  ultimately show ?thesis by simp
qed

lemma parse_elems_Some:
  assumes "parse_elems (Suc n) d s = Some (vs, r)"
  obtains v r1 r2 vs' where "parse_value n d s = Some (v, r1)" "token CHR '','' r1 = Some r2"
      "parse_elems n d r2 = Some (vs', r)"
    | v r1 where "parse_value n d s = Some (v, r1)" "token CHR '']'' r1 = Some r"
  using assms by (auto simp: Option.bind_eq_Some_conv split: option.splits)

lemma parse_members_Some:
  assumes "parse_members (Suc n) d s = Some (ms, r)"
  obtains k v r1 r2 r3 r4 where "token dquote s = Some r1" "scan_string r1 = Some (k, r2)"
    "token CHR '':'' r2 = Some r3" "parse_value n d r3 = Some (v, r4)"
    "token CHR ''}'' r4 = Some r \<or> (\<exists>r5 ms'. token CHR '','' r4 = Some r5 \<and> parse_members n d r5 = Some (ms', r))"
proof -
  from assms obtain r1 where 1: "token dquote s = Some r1" by (cases "token dquote s") auto
  with assms obtain k r2 where 2: "scan_string r1 = Some (k, r2)" by (cases "scan_string r1") auto
  with assms 1 obtain r3 where 3: "token CHR '':'' r2 = Some r3" by (cases "token CHR '':'' r2") auto
  with assms 1 2 obtain v r4 where 4: "parse_value n d r3 = Some (v, r4)" by (cases "parse_value n d r3") auto
  have "token CHR ''}'' r4 = Some r \<or> (\<exists>r5 ms'. token CHR '','' r4 = Some r5 \<and> parse_members n d r5 = Some (ms', r))"
    using assms by (auto simp: 1 2 3 4 Option.bind_eq_Some_conv split: option.splits)
  with 1 2 3 4 that show ?thesis by blast
qed

lemma parse_value_Some:
  assumes "parse_value (Suc n) d s = Some (v, r)"
  obtains c t where "skip_ws s = c # t"
    "(\<exists>x. scan_string t = Some (x, r)) \<or> token CHR '']'' t = Some r \<or> token CHR ''}'' t = Some r
     \<or> (\<exists>vs. parse_elems n (d - 1) t = Some (vs, r)) \<or> (\<exists>ms. parse_members n (d - 1) t = Some (ms, r))
     \<or> (\<exists>k. r = drop k t) \<or> (\<exists>x. scan_number (c # t) = Some (x, r))"
proof -
  obtain c t where s: "skip_ws s = c # t" using assms by (cases "skip_ws s") auto
  note p = assms [unfolded parse_value.simps s list.case]
  consider "c = dquote" | "c = CHR ''[''" | "c = CHR ''{''" | "prefix ''null'' (c # t)"
    | "prefix ''true'' (c # t)" | "prefix ''false'' (c # t)"
    | "c \<noteq> dquote" "c \<noteq> CHR ''[''" "c \<noteq> CHR ''{''" "\<not> prefix ''null'' (c # t)"
      "\<not> prefix ''true'' (c # t)" "\<not> prefix ''false'' (c # t)"
    by blast
  then show ?thesis
  proof cases
    case 1
    with p have "\<exists>x. scan_string t = Some (x, r)" by (auto simp: Option.bind_eq_Some_conv)
    with that [OF s] show ?thesis by blast
  next
    case 2
    with p have "token CHR '']'' t = Some r \<or> (\<exists>vs. parse_elems n (d - 1) t = Some (vs, r))"
      by (auto simp: Option.bind_eq_Some_conv split: option.splits if_splits)
    with that [OF s] show ?thesis by blast
  next
    case 3
    with p have "token CHR ''}'' t = Some r \<or> (\<exists>ms. parse_members n (d - 1) t = Some (ms, r))"
      by (auto simp: Option.bind_eq_Some_conv split: option.splits if_splits)
    with that [OF s] show ?thesis by blast
  next
    case 7
    have "do { (x, r) \<leftarrow> scan_number (c # t); Some (JNum x, r) } = Some (v, r)"
      using p by (simp only: 7 if_False)
    then have "\<exists>x. scan_number (c # t) = Some (x, r)" by (auto simp: Option.bind_eq_Some_conv)
    with that [OF s] show ?thesis by blast
  next
    case 4
    with p have "r = drop 3 t" by auto
    with that [OF s] show ?thesis by blast
  next
    case 5
    with p have "r = drop 3 t" by auto
    with that [OF s] show ?thesis by blast
  next
    case 6
    with p have "r = drop 4 t" by auto
    with that [OF s] show ?thesis by blast
  qed
qed

lemma parse_length:
  "(\<forall>d s v r. parse_value n d s = Some (v, r) \<longrightarrow> length r < length s)
   \<and> (\<forall>d s v r. parse_elems n d s = Some (v, r) \<longrightarrow> length r < length s)
   \<and> (\<forall>d s v r. parse_members n d s = Some (v, r) \<longrightarrow> length r < length s)"
proof (induction n)
  case (Suc n)
  then have val: "parse_value n d s = Some (v, r) \<Longrightarrow> length r < length s"
    and elems: "parse_elems n d s = Some (vs, r) \<Longrightarrow> length r < length s"
    and members: "parse_members n d s = Some (ms, r) \<Longrightarrow> length r < length s"
    for d s v vs ms r by blast+
  have "length r < length s" if p: "parse_value (Suc n) d s = Some (v, r)" for d s v r
    using p
  proof (rule parse_value_Some)
    fix c t
    assume "skip_ws s = c # t"
    then have l: "length (c # t) \<le> length s" using skip_ws_length [of s] by simp
    have drop: "length (drop k t) < length (c # t)" for k by simp
    assume "(\<exists>x. scan_string t = Some (x, r)) \<or> token CHR '']'' t = Some r \<or> token CHR ''}'' t = Some r
     \<or> (\<exists>vs. parse_elems n (d - 1) t = Some (vs, r)) \<or> (\<exists>ms. parse_members n (d - 1) t = Some (ms, r))
     \<or> (\<exists>k. r = drop k t) \<or> (\<exists>x. scan_number (c # t) = Some (x, r))"
    then have "length r < length t \<or> length r < length (c # t)"
      using scan_string_length token_length elems members scan_number_length drop by meson
    with l show "length r < length s" by auto
  qed
  moreover have "length r < length s" if p: "parse_elems (Suc n) d s = Some (vs, r)" for d s vs r
    using p
  proof (rule parse_elems_Some)
    fix v r1 r2 vs'
    assume "parse_value n d s = Some (v, r1)" "token CHR '','' r1 = Some r2" "parse_elems n d r2 = Some (vs', r)"
    from val [OF this(1)] token_length [OF this(2)] elems [OF this(3)] show ?thesis by simp
  next
    fix v r1
    assume "parse_value n d s = Some (v, r1)" "token CHR '']'' r1 = Some r"
    from val [OF this(1)] token_length [OF this(2)] show ?thesis by simp
  qed
  moreover have "length r < length s" if p: "parse_members (Suc n) d s = Some (ms, r)" for d s ms r
    using p
  proof (rule parse_members_Some)
    fix k v r1 r2 r3 r4
    assume "token dquote s = Some r1" "scan_string r1 = Some (k, r2)" "token CHR '':'' r2 = Some r3"
      "parse_value n d r3 = Some (v, r4)"
    from token_length [OF this(1)] scan_string_length [OF this(2)] token_length [OF this(3)] val [OF this(4)]
    have "length r4 < length s" by simp
    moreover assume "token CHR ''}'' r4 = Some r
      \<or> (\<exists>r5 ms'. token CHR '','' r4 = Some r5 \<and> parse_members n d r5 = Some (ms', r))"
    then have "length r < length r4" using token_length members less_trans by blast
    ultimately show "length r < length s" by simp
  qed
  ultimately show ?case by blast
qed simp

lemma parse_fuel:
  "(\<forall>m d s. 2 * length s < n \<longrightarrow> 2 * length s < m \<longrightarrow> parse_value n d s = parse_value m d s)
   \<and> (\<forall>m d s. 2 * length s + 1 < n \<longrightarrow> 2 * length s + 1 < m \<longrightarrow> parse_elems n d s = parse_elems m d s)
   \<and> (\<forall>m d s. 2 * length s + 1 < n \<longrightarrow> 2 * length s + 1 < m \<longrightarrow> parse_members n d s = parse_members m d s)"
proof (induction n)
  case (Suc n)
  then have val: "2 * length s < n \<Longrightarrow> 2 * length s < m \<Longrightarrow> parse_value n d s = parse_value m d s"
    and elems: "2 * length s + 1 < n \<Longrightarrow> 2 * length s + 1 < m \<Longrightarrow> parse_elems n d s = parse_elems m d s"
    and members: "2 * length s + 1 < n \<Longrightarrow> 2 * length s + 1 < m \<Longrightarrow> parse_members n d s = parse_members m d s"
    for d s m by blast+
  note len = parse_length [THEN conjunct1, rule_format]
  have "parse_value (Suc n) d s = parse_value m d s" if l: "2 * length s < Suc n" "2 * length s < m" for m d s
  proof -
    obtain k where m: "m = Suc k" using l by (cases m) auto
    show ?thesis
    proof (cases "skip_ws s")
      case (Cons c t)
      then have "2 * length t + 1 < n" "2 * length t + 1 < k" using skip_ws_length [of s] l m by simp_all
      from elems [OF this] members [OF this] show ?thesis
        by (simp only: m Cons parse_value.simps list.case)
    qed (simp add: m)
  qed
  moreover have "parse_elems (Suc n) d s = parse_elems m d s"
    if l: "2 * length s + 1 < Suc n" "2 * length s + 1 < m" for m d s
  proof -
    obtain k where m: "m = Suc k" using l by (cases m) auto
    have v: "parse_value n d s = parse_value k d s" using l m by (intro val) simp_all
    have "parse_elems n d r' = parse_elems k d r'"
      if "parse_value k d s = Some (v, r)" "token CHR '','' r = Some r'" for v r r'
      using len [OF that(1)] token_length [OF that(2)] l m by (intro elems) simp_all
    then show ?thesis by (auto simp: m v split: option.splits intro!: Option.bind_cong)
  qed
  moreover have "parse_members (Suc n) d s = parse_members m d s"
    if l: "2 * length s + 1 < Suc n" "2 * length s + 1 < m" for m d s
  proof -
    obtain k where m: "m = Suc k" using l by (cases m) auto
    have "parse_value n d r3 = parse_value k d r3"
      if "token dquote s = Some r1" "scan_string r1 = Some (x, r2)" "token CHR '':'' r2 = Some r3" for r1 x r2 r3
      using token_length [OF that(1)] scan_string_length [OF that(2)] token_length [OF that(3)] l m
      by (intro val) simp_all
    moreover have "parse_members n d r5 = parse_members k d r5"
      if "token dquote s = Some r1" "scan_string r1 = Some (x, r2)" "token CHR '':'' r2 = Some r3"
        "parse_value k d r3 = Some (v, r4)" "token CHR '','' r4 = Some r5" for r1 x r2 r3 v r4 r5
      using token_length [OF that(1)] scan_string_length [OF that(2)] token_length [OF that(3)]
        len [OF that(4)] token_length [OF that(5)] l m
      by (intro members) simp_all
    ultimately show ?thesis by (auto simp: m split: option.splits intro!: Option.bind_cong)
  qed
  ultimately show ?case by blast
qed simp

text \<open>A text is a JSON text if it can be read with any fuel.\<close>

lemma json_parse_any_fuel:
  assumes "2 * length s < n"
  shows "json_parse s = do { (v, r) \<leftarrow> parse_value n maxNestingDepth s; guarded (skip_ws r = []) v }"
proof -
  have "parse_value (2 * length s + 1) maxNestingDepth s = parse_value n maxNestingDepth s"
    using parse_fuel [of "2 * length s + 1"] assms by simp
  then show ?thesis by (simp add: json_parse_def)
qed

end
