(* ===== verification/GoJsonUnquote.thy ===== *)
theory GoJsonUnquote
  imports GoJsonParse
begin

text \<open>
  \<open>unquoteBytes\<close> of \<open>encoding/json\<close>: the string that a literal stands for. \<open>unquote_escape\<close> shows
  that a string that is written and read comes back, its ill-formed bytes replaced by U+FFFD.
\<close>

section \<open>Unquoting\<close>

definition hex_value :: "char \<Rightarrow> nat" where
  "hex_value c =
     (if byte c \<le> 57 then byte c - 48 else if byte c \<le> 70 then byte c - 55 else byte c - 87)"

definition hex4 :: "string \<Rightarrow> nat option" where
  "hex4 s = guarded (4 \<le> length s \<and> list_all is_hex (take 4 s))
     (foldl (\<lambda>n c. 16 * n + hex_value c) 0 (take 4 s))"

definition getu4 :: "string \<Rightarrow> nat option" where
  "getu4 s = (if prefix [backslash, CHR ''u''] s then hex4 (drop 2 s) else None)"

text \<open>\<open>utf16.IsSurrogate\<close> and \<open>utf16.DecodeRune\<close>.\<close>

definition is_surrogate :: "nat \<Rightarrow> bool" where
  "is_surrogate r \<longleftrightarrow> 0xD800 \<le> r \<and> r < 0xE000"

definition utf16_pair :: "nat \<Rightarrow> nat option \<Rightarrow> nat option" where
  "utf16_pair r r' =
     (case r' of
        None \<Rightarrow> None
      | Some q \<Rightarrow> guarded (0xD800 \<le> r \<and> r < 0xDC00 \<and> 0xDC00 \<le> q \<and> q < 0xE000)
          ((r - 0xD800) * 1024 + (q - 0xDC00) + 0x10000))"

definition escaped :: "char \<Rightarrow> char option" where
  "escaped e =
     (if e = dquote \<or> e = backslash \<or> e = CHR ''/'' \<or> byte e = 39 then Some e
      else if e = CHR ''b'' then Some (chr 8)
      else if e = CHR ''f'' then Some (chr 12)
      else if e = CHR ''n'' then Some (chr 10)
      else if e = CHR ''r'' then Some (chr 13)
      else if e = CHR ''t'' then Some (chr 9)
      else None)"

text \<open>\<open>put r t\<close>: the rune \<open>r\<close> before the text that is unquoted from the rest.\<close>

definition put :: "nat \<Rightarrow> string option \<Rightarrow> string option" where
  "put r t = map_option (append (encode_rune r)) t"

function unquote :: "string \<Rightarrow> string option" where
  "unquote [] = Some []"
| "unquote (c # s) =
     (if c = backslash then
        (case s of
           [] \<Rightarrow> None
         | e # t \<Rightarrow>
             if e = CHR ''u'' then
               (case hex4 t of
                  None \<Rightarrow> None
                | Some r \<Rightarrow>
                    if \<not> is_surrogate r then put r (unquote (drop 4 t))
                    else (case utf16_pair r (getu4 (drop 4 t)) of
                            Some q \<Rightarrow> put q (unquote (drop 10 t))
                          | None \<Rightarrow> put rune_error (unquote (drop 4 t))))
             else (case escaped e of
                     None \<Rightarrow> None
                   | Some x \<Rightarrow> map_option ((#) x) (unquote t)))
      else if c = dquote \<or> byte c < 0x20 then None
      else put (fst (decode_rune (c # s))) (unquote (drop (snd (decode_rune (c # s))) (c # s))))"
  by pat_completeness auto
termination
proof (relation "measure length")
  fix c :: char and s :: string
  show "(drop (snd (decode_rune (c # s))) (c # s), c # s) \<in> measure length"
    using decode_rune_width [of "c # s"] by simp
qed auto

declare unquote.simps(2) [simp del]

section \<open>Decoded runes\<close>

lemma base64_digits:
  assumes "y < 64" and "z < (64 :: nat)"
  shows "(x * 64 + z) div 64 = x" "(x * 64 + z) mod 64 = z"
    "(x * 4096 + y * 64 + z) div 4096 = x" "(x * 4096 + y * 64 + z) div 64 = x * 64 + y"
    "(x * 4096 + y * 64 + z) mod 64 = z"
proof -
  have e: "x * 4096 + y * 64 + z = (x * 64 + y) * 64 + z" by simp
  show "(x * 64 + z) div 64 = x" "(x * 64 + z) mod 64 = z" using assms by simp_all
  show d: "(x * 4096 + y * 64 + z) div 64 = x * 64 + y" and "(x * 4096 + y * 64 + z) mod 64 = z"
    unfolding e using assms by (simp_all only: div_mult_self3 mod_mult_self3) simp_all
  have "(x * 4096 + y * 64 + z) div (64 * 64) = (x * 64 + y) div 64"
    unfolding div_mult2_eq d ..
  then show "(x * 4096 + y * 64 + z) div 4096 = x" using assms by simp
qed

lemma chr_offset: "n \<le> byte c \<Longrightarrow> chr (n + (byte c - n)) = c"
  by simp

text \<open>The bytes a rune was decoded from are its encoding, but for an ill-formed byte.\<close>

lemma decode_rune_take:
  assumes "decode_rune s = (r, n)" and "s \<noteq> []" and "\<not> (r = rune_error \<and> n = 1)"
  shows "take n s = encode_rune r"
proof (cases s)
  case (Cons c cs)
  define b where "b = byte c"
  have valid: "valid_rune r" using decode_rune_valid [of s] assms(1) by simp
  note dec = assms(1) [unfolded Cons decode_rune.simps(2) Let_def, folded b_def]
  show ?thesis
  proof (cases "b < 0x80")
    case True
    with dec have "r = b" "n = 1" by simp_all
    then show ?thesis using True by (simp add: Cons encode_rune_ascii b_def)
  next
    case False
    with dec assms(3) have b: "0xC2 \<le> b" "b \<le> 0xF4" by (auto simp: not_less split: if_splits)
    with dec False assms(3) obtain c1 cs1 where c1: "cs = c1 # cs1" by (cases cs) auto
    note dec1 = dec [unfolded c1 list.case]
    define y where "y = byte c1 - 0x80"
    have bc1: "accept_lo b \<le> byte c1" "byte c1 \<le> accept_hi b"
      using dec1 False b assms(3) by (auto simp: not_less split: if_splits)
    then have y: "y < 64" "0x80 \<le> byte c1" and lo: "b = 0xE0 \<Longrightarrow> 0x20 \<le> y" "b = 0xF0 \<Longrightarrow> 0x10 \<le> y"
      by (auto simp: y_def accept_lo_def accept_hi_def split: if_splits)
    have cy: "chr (0x80 + y) = c1" unfolding y_def using y(2) by (rule chr_offset)
    show ?thesis
    proof (cases "b < 0xE0")
      case True
      with dec1 False b bc1 have rn: "r = (b - 0xC0) * 64 + y" "n = 2" by (simp_all add: y_def)
      have "r < 0x800" "0x80 \<le> r" using True b y rn by simp_all
      moreover have "chr (0xC0 + (b - 0xC0)) = c" using b unfolding b_def by (intro chr_offset) simp
      ultimately show ?thesis using valid y
        by (simp add: Cons c1 rn encode_rune_def encode_valid_def base64_digits cy del: le_add_diff_inverse)
    next
      case ge3: False
      with dec1 False b bc1 assms(3) obtain c2 cs2 where c2: "cs1 = c2 # cs2" by (cases cs1) auto
      note dec2 = dec1 [unfolded c2 list.case]
      define z where "z = byte c2 - 0x80"
      have bc2: "is_cont c2" using dec2 False b bc1 ge3 assms(3) by (auto split: if_splits)
      then have z: "z < 64" "0x80 \<le> byte c2" by (auto simp: z_def is_cont_def)
      have cz: "chr (0x80 + z) = c2" unfolding z_def using z(2) by (rule chr_offset)
      show ?thesis
      proof (cases "b < 0xF0")
        case True
        with dec2 False b bc1 ge3 bc2 have rn: "r = (b - 0xE0) * 4096 + y * 64 + z" "n = 3"
          by (simp_all add: y_def z_def)
        have "r < 0x10000" "0x800 \<le> r"
          using True ge3 y z lo(1) rn by (cases "b = 0xE0"; simp)+
        moreover have "chr (0xE0 + (b - 0xE0)) = c" using ge3 unfolding b_def by (intro chr_offset) simp
        moreover have "((b - 0xE0) * 64 + y) mod 64 = y" using y by simp
        ultimately show ?thesis using valid y z
          by (simp add: Cons c1 c2 rn encode_rune_def encode_valid_def base64_digits cy cz del: le_add_diff_inverse)
      next
        case ge4: False
        with dec2 False b bc1 ge3 bc2 assms(3) obtain c3 cs3 where c3: "cs2 = c3 # cs3" by (cases cs2) auto
        note dec3 = dec2 [unfolded c3 list.case]
        define u where "u = byte c3 - 0x80"
        have bc3: "is_cont c3" using dec3 False b bc1 ge3 bc2 ge4 assms(3) by (auto split: if_splits)
        then have u: "u < 64" "0x80 \<le> byte c3" by (auto simp: u_def is_cont_def)
        have cu: "chr (0x80 + u) = c3" unfolding u_def using u(2) by (rule chr_offset)
        define x where "x = b - 0xF0"
        from dec3 False b bc1 ge3 bc2 ge4 bc3
        have rn: "r = x * 262144 + y * 4096 + z * 64 + u" "n = 4" by (simp_all add: x_def y_def z_def u_def)
        have "0x10000 \<le> r" using ge4 y z lo(2) rn by (cases "b = 0xF0"; simp add: x_def)
        moreover have "chr (0xF0 + x) = c" using ge4 unfolding b_def x_def by (intro chr_offset) simp
        moreover have e: "r = (x * 64 + y) * 4096 + z * 64 + u" using rn by simp
        moreover have "r div 262144 = x"
        proof -
          have "r div (4096 * 64) = (x * 64 + y) div 64"
            unfolding div_mult2_eq e base64_digits(3) [OF z(1) u(1)] ..
          then show ?thesis using y by simp
        qed
        moreover have "r div 4096 mod 64 = y" "r div 64 mod 64 = z" "r mod 64 = u"
          unfolding e base64_digits(3-5) [OF z(1) u(1)] using y z by (simp_all only: mod_mult_self3) simp_all
        ultimately show ?thesis using valid
          by (simp add: Cons c1 c2 c3 rn(2) encode_rune_def encode_valid_def cy cz cu)
      qed
    qed
  qed
qed (use assms in simp)

text \<open>The bytes of a rune outside ASCII are outside ASCII.\<close>

lemma encode_rune_high: "0x80 \<le> r \<Longrightarrow> list_all (\<lambda>c. 0x80 \<le> byte c) (encode_rune r)"
proof -
  assume r: "0x80 \<le> r"
  define q where "q = (if valid_rune r then r else rune_error)"
  have q: "0x80 \<le> q" "q \<le> 0x10FFFF" using r by (auto simp: q_def valid_rune_def rune_error_def)
  have "byte (chr (0xC0 + q div 64)) = 0xC0 + q div 64" if "q < 0x800" using that by (intro byte_chr) simp
  moreover have "byte (chr (0xE0 + q div 4096)) = 0xE0 + q div 4096" if "q < 0x10000"
    using that by (intro byte_chr) simp
  moreover have "byte (chr (0xF0 + q div 262144)) = 0xF0 + q div 262144" using q by (intro byte_chr) simp
  ultimately show ?thesis using q unfolding encode_rune_def q_def [symmetric]
    by (auto simp: encode_valid_def)
qed

section \<open>Unquoting what was escaped\<close>

lemma put_simps [simp]: "put r (Some t) = Some (encode_rune r @ t)" "put r None = None"
  by (simp_all add: put_def)

lemma hex_digits:
  assumes "n < 16"
  shows "is_hex (hex_digit n)" and "hex_value (hex_digit n) = n"
proof -
  have "list_all (\<lambda>n. hex_value (hex_digit n) = n) [0..<16]"
    by (simp add: upt_rec hex_digit_def hex_value_def byte_eval)
  then show "hex_value (hex_digit n) = n" using assms by (simp add: list_all_iff)
  show "is_hex (hex_digit n)" using hex_digit_lower [OF assms] by (simp add: is_hex_def)
qed

lemma is_hex_eval: "is_hex CHR ''0''" "is_hex CHR ''2''" "is_hex CHR ''f''" "is_hex CHR ''d''"
  "hex_value CHR ''0'' = 0" "hex_value CHR ''2'' = 2" "hex_value CHR ''f'' = 15" "hex_value CHR ''d'' = 13"
  by (simp_all add: is_hex_def is_hex_lower_def is_digit_def hex_value_def byte_eval)

lemma backslash_simps [simp]:
  "backslash \<noteq> dquote" "dquote \<noteq> backslash" "byte backslash = 0x5C" "byte dquote = 0x22" "CHR ''u'' \<noteq> backslash"
  by (simp_all add: backslash_def byte_eval)

lemma unquote_hex:
  assumes "list_all is_hex [a, b, c, d]"
    and "r = ((hex_value a * 16 + hex_value b) * 16 + hex_value c) * 16 + hex_value d" and "\<not> is_surrogate r"
  shows "unquote (backslash # CHR ''u'' # a # b # c # d # t) = put r (unquote t)"
proof -
  have "hex4 (a # b # c # d # t) = Some r"
    using assms(1,2) by (simp add: hex4_def algebra_simps)
  then show ?thesis using assms(3) by (simp add: unquote.simps(2))
qed

lemma unquote_plain:
  assumes "decode_rune (s @ t) = (r, length s)" and "s \<noteq> []" and "hd s \<noteq> backslash" and "hd s \<noteq> dquote"
    and "0x20 \<le> byte (hd s)"
  shows "unquote (s @ t) = put r (unquote t)"
proof -
  obtain c cs where "s = c # cs" using assms(2) by (cases s) auto
  with assms show ?thesis by (simp add: unquote.simps(2))
qed

lemma unquote_short:
  assumes "escaped e = Some c" and "e \<noteq> CHR ''u''" and "byte c < 0x80"
  shows "unquote ([backslash, e] @ t) = put (byte c) (unquote t)"
  using assms by (cases "unquote t") (simp_all add: unquote.simps(2) encode_rune_ascii)

lemma unquote_control:
  "unquote (backslash # CHR ''b'' # t) = put 8 (unquote t)"
  "unquote (backslash # CHR ''f'' # t) = put 12 (unquote t)"
  "unquote (backslash # CHR ''n'' # t) = put 10 (unquote t)"
  "unquote (backslash # CHR ''r'' # t) = put 13 (unquote t)"
  "unquote (backslash # CHR ''t'' # t) = put 9 (unquote t)"
  using unquote_short [of "CHR ''b''" "chr 8" t] unquote_short [of "CHR ''f''" "chr 12" t]
    unquote_short [of "CHR ''n''" "chr 10" t] unquote_short [of "CHR ''r''" "chr 13" t]
    unquote_short [of "CHR ''t''" "chr 9" t]
  by (simp_all add: escaped_def backslash_def byte_eval)

lemma unquote_escape_byte:
  assumes "byte c < 0x80"
  shows "unquote (escape_byte c @ t) = put (byte c) (unquote t)"
proof -
  consider "html_safe c" | "c = dquote" | "c = backslash" | "byte c = 8" | "byte c = 12" | "byte c = 10"
    | "byte c = 13" | "byte c = 9"
    | "\<not> html_safe c" "c \<noteq> dquote" "c \<noteq> backslash" "byte c \<notin> {8, 9, 10, 12, 13}"
    by blast
  then show ?thesis
  proof cases
    case 1
    then have "unquote ([c] @ t) = put (byte c) (unquote t)"
      by (intro unquote_plain) (auto simp: html_safe_def backslash_def)
    with 1 show ?thesis by (simp add: escape_byte_def)
  next
    case 9
    have "byte c div 16 < 16" "byte c mod 16 < 16" "byte c div 16 * 16 + byte c mod 16 = byte c"
      using assms by simp_all
    moreover have "\<not> is_surrogate (byte c)" using assms by (simp add: is_surrogate_def)
    ultimately have "unquote (backslash # CHR ''u'' # CHR ''0'' # CHR ''0'' # hex_digit (byte c div 16)
        # hex_digit (byte c mod 16) # t) = put (byte c) (unquote t)"
      by (intro unquote_hex) (simp_all add: is_hex_eval hex_digits)
    with 9 show ?thesis by (simp add: escape_byte_def)
  next
    case 2
    then show ?thesis using unquote_short [of dquote c t] assms by (simp add: escape_byte_def html_safe_def escaped_def)
  next
    case 3
    then show ?thesis using unquote_short [of backslash c t] assms
      by (simp add: escape_byte_def html_safe_def escaped_def backslash_def)
  qed (use assms unquote_control in \<open>auto simp: escape_byte_def html_safe_def\<close>)
qed

lemma escape_seg_other:
  assumes "0x80 \<le> r" and "\<not> (r = rune_error \<and> length bs = 1)" and "r \<noteq> 0x2028" and "r \<noteq> 0x2029"
  shows "escape_seg (r, bs) = bs"
  using assms by auto

text \<open>The segments of a string, as \<open>json_escape\<close> writes them.\<close>

definition rune_seg :: "nat \<times> string \<Rightarrow> bool" where
  "rune_seg p \<longleftrightarrow> snd p = encode_rune (fst p) \<and> valid_rune (fst p) \<or> fst p = rune_error \<and> length (snd p) = 1"

lemma rune_segs_segs: "list_all rune_seg (rune_segs s)"
proof (induction s rule: rune_segs.induct)
  case (1 s)
  show ?case
  proof (cases "s = []")
    case False
    have "rune_seg (fst (decode_rune s), take (snd (decode_rune s)) s)"
      using decode_rune_take [of s "fst (decode_rune s)" "snd (decode_rune s)"] decode_rune_valid [of s]
        decode_rune_width [OF False] False
      by (auto simp: rune_seg_def)
    with 1 False show ?thesis by (simp add: rune_segs_not_Nil)
  qed simp
qed

lemma encode_rune_head:
  assumes "0x80 \<le> r"
  shows "hd (encode_rune r) \<noteq> backslash" "hd (encode_rune r) \<noteq> dquote" "0x20 \<le> byte (hd (encode_rune r))"
proof -
  have "0x80 \<le> byte (hd (encode_rune r))"
    using encode_rune_high [OF assms] by (cases "encode_rune r") auto
  then show "hd (encode_rune r) \<noteq> backslash" "hd (encode_rune r) \<noteq> dquote" "0x20 \<le> byte (hd (encode_rune r))"
    by (auto simp: backslash_def byte_eval)
qed

lemma rune_seg_cases:
  assumes "rune_seg (r, bs)"
  obtains (ascii) "r < 0x80" "bs = encode_rune r" | (bad) "r = rune_error" "length bs = 1"
    | (sep) "r = 0x2028 \<or> r = 0x2029" "\<not> (r = rune_error \<and> length bs = 1)"
    | (other) "0x80 \<le> r" "bs = encode_rune r" "valid_rune r" "\<not> (r = rune_error \<and> length bs = 1)"
        "r \<noteq> 0x2028" "r \<noteq> 0x2029"
proof (cases "r = rune_error \<and> length bs = 1")
  case False
  then have b: "bs = encode_rune r" "valid_rune r" using assms by (auto simp: rune_seg_def)
  show ?thesis
  proof (cases "r < 0x80")
    case False
    then have "0x80 \<le> r" by simp
    then show ?thesis using sep other b \<open>\<not> (r = rune_error \<and> length bs = 1)\<close> by blast
  qed (use ascii b in blast)
qed (use bad in blast)

lemma unquote_escape_seg:
  assumes "rune_seg (r, bs)"
  shows "unquote (escape_seg (r, bs) @ t) = put r (unquote t)"
proof -
  have hx: "r = ((2 * 16 + 0) * 16 + 2) * 16 + r mod 16 \<and> \<not> is_surrogate r" if "r = 0x2028 \<or> r = 0x2029"
    using that by (auto simp: is_surrogate_def)
  show ?thesis using assms
  proof (cases rule: rune_seg_cases)
    case ascii
    then show ?thesis using unquote_escape_byte [of "chr r" t] by (simp add: encode_rune_ascii)
  next
    case bad
    have "unquote (backslash # CHR ''u'' # CHR ''f'' # CHR ''f'' # CHR ''f'' # CHR ''d'' # t)
        = put rune_error (unquote t)"
      by (rule unquote_hex) (simp_all add: is_hex_eval rune_error_def is_surrogate_def)
    with bad show ?thesis by (simp add: rune_error_def)
  next
    case sep
    have "unquote (backslash # CHR ''u'' # CHR ''2'' # CHR ''0'' # CHR ''2'' # hex_digit (r mod 16) # t)
        = put r (unquote t)"
      using hx [OF sep(1)] by (intro unquote_hex) (simp_all add: is_hex_eval hex_digits)
    with sep show ?thesis by auto
  next
    case other
    then have "unquote (bs @ t) = put r (unquote t)"
      using encode_rune_head [OF other(1)] by (intro unquote_plain) (simp_all add: decode_encode_rune)
    with other escape_seg_other show ?thesis by simp
  qed
qed

lemma unquote_segs:
  "list_all rune_seg ps \<Longrightarrow> unquote (concat (map escape_seg ps)) = Some (from_runes (map fst ps))"
proof (induction ps)
  case (Cons p ps)
  then show ?case using unquote_escape_seg [of "fst p" "snd p" "concat (map escape_seg ps)"] by simp
qed simp

theorem unquote_escape: "unquote (json_escape s) = Some (from_runes (runes s))"
  unfolding json_escape_def runes_def by (rule unquote_segs [OF rune_segs_segs])

text \<open>\<open>utf8.ValidString\<close>: no byte decodes to U+FFFD with width 1.\<close>

definition valid_utf8 :: "string \<Rightarrow> bool" where
  "valid_utf8 s \<longleftrightarrow> list_all (\<lambda>(r, bs). \<not> (r = rune_error \<and> length bs = 1)) (rune_segs s)"

lemma valid_utf8_runes: "valid_utf8 s \<Longrightarrow> from_runes (runes s) = s"
proof -
  assume v: "valid_utf8 s"
  have "list_all (\<lambda>p. snd p = encode_rune (fst p)) (rune_segs s)"
    using rune_segs_segs [of s] v by (fastforce simp: valid_utf8_def list_all_iff rune_seg_def)
  then have "concat (map encode_rune (map fst (rune_segs s))) = concat (map snd (rune_segs s))"
    by (simp add: o_def list_all_iff cong: map_cong)
  then show ?thesis by (simp add: from_runes_def runes_def)
qed

lemma valid_utf8_ascii: "ascii s \<Longrightarrow> valid_utf8 s"
proof (induction s)
  case (Cons c s)
  then show ?case by (simp add: valid_utf8_def rune_segs_not_Nil rune_error_def)
qed (simp add: valid_utf8_def)

lemma valid_utf8_encode_rune [simp]: "valid_rune r \<Longrightarrow> valid_utf8 (encode_rune r @ s) \<longleftrightarrow> valid_utf8 s"
  by (simp add: valid_utf8_def rune_segs_not_Nil decode_encode_rune)
    (auto simp: encode_rune_def encode_valid_def rune_error_def valid_rune_def)

lemma valid_utf8_from_runes: "list_all valid_rune rs \<Longrightarrow> valid_utf8 (from_runes rs @ s) \<longleftrightarrow> valid_utf8 s"
  by (induction rs) simp_all

lemma valid_utf8_append: "valid_utf8 s \<Longrightarrow> valid_utf8 t \<Longrightarrow> valid_utf8 (s @ t)"
  using valid_utf8_from_runes [OF runes_valid, of s t] by (simp add: valid_utf8_runes)

lemma valid_utf8_Nil [simp]: "valid_utf8 []"
  by (simp add: valid_utf8_def)

lemma valid_utf8_Cons: "byte c < 0x80 \<Longrightarrow> valid_utf8 (c # s) \<longleftrightarrow> valid_utf8 s"
  by (simp add: valid_utf8_def rune_segs_not_Nil rune_error_def)

section \<open>Escaped strings are strings of the grammar\<close>

lemma scan_plain:
  "list_all (\<lambda>c. c \<noteq> dquote \<and> c \<noteq> backslash \<and> 0x20 \<le> byte c) x \<Longrightarrow> scan_string (x @ s) = keep x (scan_string s)"
proof (induction x)
  case (Cons c x)
  then have "scan_string (c # y) = keep [c] (scan_string y)" for y by (cases y) auto
  with Cons show ?case by (cases "scan_string s") auto
qed (simp add: keep_def prod.case_eq_if option.map_id)

lemma scan_escaped: "escape_ok e s \<Longrightarrow> scan_string (backslash # e # s) = keep [backslash, e] (scan_string s)"
  by simp

lemma is_hex_plain: "is_hex c \<Longrightarrow> c \<noteq> dquote \<and> c \<noteq> backslash \<and> 0x20 \<le> byte c"
  by (auto simp: is_hex_def is_hex_lower_def is_digit_def backslash_def byte_eval)

lemma scan_hex:
  assumes "list_all is_hex [a, b, c, d]"
  shows "scan_string (backslash # CHR ''u'' # a # b # c # d # s)
    = keep (backslash # CHR ''u'' # [a, b, c, d]) (scan_string s)"
proof -
  have "list_all (\<lambda>c. c \<noteq> dquote \<and> c \<noteq> backslash \<and> 0x20 \<le> byte c) [a, b, c, d]"
    using assms is_hex_plain by simp
  from scan_plain [OF this, of s] assms scan_escaped [of "CHR ''u''" "a # b # c # d # s"]
  show ?thesis by (cases "scan_string s") (auto simp: escape_ok_def)
qed

lemma scan_escape_byte:
  assumes "byte c < 0x80"
  shows "scan_string (escape_byte c @ s) = keep (escape_byte c) (scan_string s)"
proof (cases "html_safe c")
  case True
  then show ?thesis using scan_plain [of "[c]" s] by (simp add: escape_byte_def html_safe_def backslash_def)
next
  case False
  have "byte c div 16 < 16" using assms by simp
  then show ?thesis using False
      scan_hex [of "CHR ''0''" "CHR ''0''" "hex_digit (byte c div 16)" "hex_digit (byte c mod 16)" s]
    by (simp add: escape_byte_def escape_ok_def is_hex_eval hex_digits)
qed

lemma scan_escape_seg:
  assumes "rune_seg (r, bs)"
  shows "scan_string (escape_seg (r, bs) @ s) = keep (escape_seg (r, bs)) (scan_string s)"
  using assms
proof (cases rule: rune_seg_cases)
  case ascii
  then show ?thesis using scan_escape_byte [of "chr r" s] by (simp add: encode_rune_ascii)
next
  case bad
  then show ?thesis using scan_hex [of "CHR ''f''" "CHR ''f''" "CHR ''f''" "CHR ''d''" s]
    by (simp add: rune_error_def is_hex_eval)
next
  case sep
  then show ?thesis
    using scan_hex [of "CHR ''2''" "CHR ''0''" "CHR ''2''" "hex_digit (r mod 16)" s]
    by (auto simp: is_hex_eval hex_digits)
next
  case other
  have "list_all (\<lambda>c. c \<noteq> dquote \<and> c \<noteq> backslash \<and> 0x20 \<le> byte c) bs"
    using encode_rune_high [OF other(1)] other(2) by (auto simp: list_all_iff backslash_def byte_eval)
  with other escape_seg_other scan_plain show ?thesis by simp
qed

lemma scan_segs:
  "list_all rune_seg ps \<Longrightarrow> scan_string (concat (map escape_seg ps) @ [dquote]) = Some (concat (map escape_seg ps), [])"
proof (induction ps)
  case (Cons p ps)
  then show ?case using scan_escape_seg [of "fst p" "snd p" "concat (map escape_seg ps) @ [dquote]"] by simp
qed simp

lemma raw_text_json_escape: "raw_text (json_escape s)"
  unfolding raw_text_def json_escape_def by (rule scan_segs [OF rune_segs_segs])

lemma raw_text_plain:
  "list_all (\<lambda>c. c \<noteq> dquote \<and> c \<noteq> backslash \<and> 0x20 \<le> byte c) x \<Longrightarrow> raw_text x"
  by (simp add: raw_text_def scan_plain)

end
