(* ===== verification/JsonDecode.thy ===== *)
theory JsonDecode
  imports GoJsonUnquote SesEvent
begin

text \<open>
  \<open>json.Unmarshal\<close> into the types of the service: each type has a decoder that takes a JSON value
  and the current value of the variable, as the package does. A JSON \<open>null\<close> leaves a value as it is
  and sets a pointer or slice to \<open>nil\<close>; a value of another kind is an error; members are matched by
  their exact name or else by its case-folded form; unknown members are ignored and a repeated one is
  decoded over the first. \<open>None\<close> is the error of the package; the code never uses the variable then.
  (Decoding an array over a longer one that an earlier member of the same name left and a still longer
  one after it would show elements of the first; the model starts from zero values there.)
  \<open>record_roundtrip\<close> shows that a stored record is read back.
\<close>

section \<open>Names of members\<close>

text \<open>\<open>foldRune\<close>: the smallest rune of the orbit; every rune is at most U+10FFFF.\<close>

function fold_rune :: "unicode \<Rightarrow> nat \<Rightarrow> nat" where
  "fold_rune U r =
     (if u_fold U r \<le> r \<or> 0x10FFFF < u_fold U r then u_fold U r else fold_rune U (u_fold U r))"
  by pat_completeness auto
termination by (relation "measure (\<lambda>(U, r). 0x10FFFF - r)") auto

declare fold_rune.simps [simp del]

definition fold_name :: "unicode \<Rightarrow> string \<Rightarrow> string" where
  "fold_name U s = from_runes (map (\<lambda>r. if r < 0x80 then upper_byte r else fold_rune U r) (runes s))"

type_synonym 'a decoder = "json \<Rightarrow> 'a \<Rightarrow> 'a option"

definition find_field :: "unicode \<Rightarrow> (string \<times> 'r decoder) list \<Rightarrow> string \<Rightarrow> 'r decoder option" where
  "find_field U fs k =
     (case map_of fs k of
        Some d \<Rightarrow> Some d
      | None \<Rightarrow> map_option snd (find (\<lambda>(n, _). fold_name U n = fold_name U k) fs))"

section \<open>Decoders\<close>

fun dec_string :: "string decoder" where
  "dec_string JNull old = Some old"
| "dec_string (JStr x) old = unquote x"
| "dec_string _ old = None"

fun dec_bool :: "bool decoder" where
  "dec_bool JNull old = Some old"
| "dec_bool (JBool b) old = Some b"
| "dec_bool _ old = None"

fun dec_int :: "int64 decoder" where
  "dec_int JNull old = Some old"
| "dec_int (JNum x) old = atoi x"
| "dec_int _ old = None"

text \<open>\<open>Time.UnmarshalJSON\<close> parses the text between the quotes as it is.\<close>

fun dec_time :: "gtime decoder" where
  "dec_time JNull old = Some old"
| "dec_time (JStr x) old = time_parse x"
| "dec_time _ old = None"

definition dec_ptr :: "'a \<Rightarrow> 'a decoder \<Rightarrow> 'a option decoder" where
  "dec_ptr zero dec v old =
     (case v of
        JNull \<Rightarrow> Some None
      | _ \<Rightarrow> map_option Some (dec v (case old of None \<Rightarrow> zero | Some x \<Rightarrow> x)))"

fun dec_elems :: "'a \<Rightarrow> 'a decoder \<Rightarrow> json list \<Rightarrow> 'a list \<Rightarrow> 'a list option" where
  "dec_elems zero dec [] old = Some []"
| "dec_elems zero dec (v # vs) old = do {
     x \<leftarrow> dec v (case old of [] \<Rightarrow> zero | y # _ \<Rightarrow> y);
     xs \<leftarrow> dec_elems zero dec vs (tl old);
     Some (x # xs)
   }"

fun dec_list :: "'a \<Rightarrow> 'a decoder \<Rightarrow> 'a list decoder" where
  "dec_list zero dec JNull old = Some []"
| "dec_list zero dec (JArr vs) old = dec_elems zero dec vs old"
| "dec_list zero dec _ old = None"

fun dec_members :: "unicode \<Rightarrow> (string \<times> 'r decoder) list \<Rightarrow> (string \<times> json) list \<Rightarrow> 'r \<Rightarrow> 'r option" where
  "dec_members U fs [] r = Some r"
| "dec_members U fs ((k, v) # ms) r = do {
     k \<leftarrow> unquote k;
     r \<leftarrow> (case find_field U fs k of None \<Rightarrow> Some r | Some d \<Rightarrow> d v r);
     dec_members U fs ms r
   }"

fun dec_struct :: "unicode \<Rightarrow> (string \<times> 'r decoder) list \<Rightarrow> 'r decoder" where
  "dec_struct U fs JNull r = Some r"
| "dec_struct U fs (JObj ms) r = dec_members U fs ms r"
| "dec_struct U fs _ r = None"

text \<open>The decoder of a field, on the struct that holds it.\<close>

definition fld :: "('r \<Rightarrow> 'a) \<Rightarrow> (('a \<Rightarrow> 'a) \<Rightarrow> 'r \<Rightarrow> 'r) \<Rightarrow> 'a decoder \<Rightarrow> 'r decoder" where
  "fld get upd dec v r = map_option (\<lambda>x. upd (\<lambda>_. x) r) (dec v (get r))"

definition unmarshal :: "'a decoder \<Rightarrow> 'a \<Rightarrow> string \<Rightarrow> 'a option" where
  "unmarshal dec zero s = do { v \<leftarrow> json_parse s; dec v zero }"

section \<open>The types of the service\<close>

definition request_fields :: "(string \<times> SendEmailRequest decoder) list" where
  "request_fields =
     [(''to'', fld req_to req_to_update dec_string),
      (''subject'', fld req_subject req_subject_update dec_string),
      (''html'', fld req_html req_html_update dec_string),
      (''text'', fld req_text req_text_update dec_string),
      (''from'', fld req_from req_from_update dec_string),
      (''from_display_name'', fld req_from_display_name req_from_display_name_update dec_string),
      (''reply_to'', fld req_reply_to req_reply_to_update dec_string),
      (''group_id'', fld req_group_id req_group_id_update dec_string)]"

definition zero_request :: SendEmailRequest where
  "zero_request = \<lparr>req_to = [], req_subject = [], req_html = [], req_text = [], req_from = [],
     req_from_display_name = [], req_reply_to = [], req_group_id = []\<rparr>"

definition status_fields :: "(string \<times> GetEmailStatusRequest decoder) list" where
  "status_fields =
     [(''email_id'', fld st_email_id st_email_id_update dec_string),
      (''group_id'', fld st_group_id st_group_id_update dec_string),
      (''offset'', fld st_offset st_offset_update dec_int),
      (''limit'', fld st_limit st_limit_update dec_int)]"

definition zero_status_request :: GetEmailStatusRequest where
  "zero_status_request = \<lparr>st_email_id = [], st_group_id = [], st_offset = 0, st_limit = 0\<rparr>"

text \<open>\<open>GetEmailEngagementAnalyticsRequest\<close> is its one field, the group.\<close>

definition analytics_fields :: "(string \<times> string decoder) list" where
  "analytics_fields = [(''group_id'', dec_string)]"

definition open_event_fields :: "(string \<times> OpenEvent decoder) list" where
  "open_event_fields =
     [(''event_id'', fld oe_event_id oe_event_id_update dec_string),
      (''opened_at'', fld oe_opened_at oe_opened_at_update dec_time)]"

definition zero_open_event :: OpenEvent where
  "zero_open_event = \<lparr>oe_event_id = [], oe_opened_at = zero_time\<rparr>"

definition click_event_fields :: "(string \<times> ClickEvent decoder) list" where
  "click_event_fields =
     [(''event_id'', fld ce_event_id ce_event_id_update dec_string),
      (''link'', fld ce_link ce_link_update dec_string),
      (''clicked_at'', fld ce_clicked_at ce_clicked_at_update dec_time)]"

definition zero_click_event :: ClickEvent where
  "zero_click_event = \<lparr>ce_event_id = [], ce_link = [], ce_clicked_at = zero_time\<rparr>"

definition record_fields :: "unicode \<Rightarrow> (string \<times> rcpt decoder) list" where
  "record_fields U =
     [(''group_id'', fld GroupID GroupID_update dec_string),
      (''email_id'', fld EmailID EmailID_update dec_string),
      (''to'', fld To To_update dec_string),
      (''subject'', fld Subject Subject_update dec_string),
      (''sent_at'', fld SentAt SentAt_update dec_time),
      (''delivered'', fld Delivered Delivered_update dec_bool),
      (''delivered_at'', fld DeliveredAt DeliveredAt_update (dec_ptr zero_time dec_time)),
      (''opened'', fld Opened Opened_update dec_bool),
      (''open_count'', fld OpenCount OpenCount_update dec_int),
      (''opened_at_list'', fld OpenedAtList OpenedAtList_update
         (dec_list zero_open_event (dec_struct U open_event_fields))),
      (''last_opened_at'', fld LastOpenedAt LastOpenedAt_update (dec_ptr zero_time dec_time)),
      (''clicked'', fld Clicked Clicked_update dec_bool),
      (''click_count'', fld ClickCount ClickCount_update dec_int),
      (''click_event_ids'', fld ClickEventIDs ClickEventIDs_update (dec_list [] dec_string)),
      (''click_list'', fld ClickList ClickList_update
         (dec_list zero_click_event (dec_struct U click_event_fields))),
      (''last_clicked_at'', fld LastClickedAt LastClickedAt_update (dec_ptr zero_time dec_time)),
      (''failed'', fld Failed Failed_update dec_bool),
      (''failed_at'', fld FailedAt FailedAt_update (dec_ptr zero_time dec_time))]"

definition sns_fields :: "(string \<times> snsEnvelope decoder) list" where
  "sns_fields =
     [(''MessageId'', fld sns_message_id sns_message_id_update dec_string),
      (''Message'', fld sns_message sns_message_update dec_string)]"

definition zero_envelope :: snsEnvelope where
  "zero_envelope = \<lparr>sns_message_id = [], sns_message = []\<rparr>"

definition header_fields :: "(string \<times> sesHeader decoder) list" where
  "header_fields =
     [(''name'', fld hdr_name hdr_name_update dec_string),
      (''value'', fld hdr_value hdr_value_update dec_string)]"

definition zero_header :: sesHeader where
  "zero_header = \<lparr>hdr_name = [], hdr_value = []\<rparr>"

text \<open>The fields of \<open>sesMail\<close> (the headers), on the event that holds it.\<close>

definition mail_fields :: "unicode \<Rightarrow> (string \<times> sesEvent decoder) list" where
  "mail_fields U =
     [(''headers'', fld ses_headers ses_headers_update
         (dec_list zero_header (dec_struct U header_fields)))]"

text \<open>A string field that is decoded and never read.\<close>

definition dec_unread :: "'r decoder" where
  "dec_unread v r = map_option (\<lambda>_. r) (dec_string v [])"

definition click_fields :: "(string \<times> sesClick decoder) list" where
  "click_fields =
     [(''timestamp'', fld clk_timestamp clk_timestamp_update dec_string),
      (''link'', fld clk_link clk_link_update dec_string),
      (''ipAddress'', dec_unread),
      (''userAgent'', dec_unread)]"

definition zero_click :: sesClick where
  "zero_click = \<lparr>clk_timestamp = [], clk_link = []\<rparr>"

text \<open>The objects that are their timestamp only.\<close>

definition dec_stamp :: "unicode \<Rightarrow> string option decoder" where
  "dec_stamp U = dec_ptr [] (dec_struct U [(''timestamp'', dec_string)])"

definition event_fields :: "unicode \<Rightarrow> (string \<times> sesEvent decoder) list" where
  "event_fields U =
     [(''eventType'', fld ses_event_type ses_event_type_update dec_string),
      (''mail'', dec_struct U (mail_fields U)),
      (''open'', fld ses_open ses_open_update (dec_stamp U)),
      (''click'', fld ses_click ses_click_update (dec_ptr zero_click (dec_struct U click_fields))),
      (''bounce'', fld ses_bounce ses_bounce_update (dec_stamp U)),
      (''complaint'', fld ses_complaint ses_complaint_update (dec_stamp U)),
      (''delivery'', fld ses_delivery ses_delivery_update (dec_stamp U))]"

definition zero_event :: sesEvent where
  "zero_event = \<lparr>ses_event_type = [], ses_headers = [], ses_open = None, ses_click = None,
     ses_bounce = None, ses_complaint = None, ses_delivery = None\<rparr>"

section \<open>\<open>json.Unmarshal\<close> by type\<close>

text \<open>Into a fresh variable of the type; the library supplies the case tables for the names of members.\<close>

definition unmarshal_send :: "golib \<Rightarrow> string \<Rightarrow> SendEmailRequest option" where
  "unmarshal_send L = unmarshal (dec_struct (lib_unicode L) request_fields) zero_request"

definition unmarshal_status :: "golib \<Rightarrow> string \<Rightarrow> GetEmailStatusRequest option" where
  "unmarshal_status L = unmarshal (dec_struct (lib_unicode L) status_fields) zero_status_request"

definition unmarshal_analytics :: "golib \<Rightarrow> string \<Rightarrow> string option" where
  "unmarshal_analytics L = unmarshal (dec_struct (lib_unicode L) analytics_fields) []"

definition unmarshal_record :: "golib \<Rightarrow> string \<Rightarrow> rcpt option" where
  "unmarshal_record L = unmarshal (dec_struct (lib_unicode L) (record_fields (lib_unicode L))) zero_record"

definition unmarshal_ids :: "golib \<Rightarrow> string \<Rightarrow> string list option" where
  "unmarshal_ids L = unmarshal (dec_list [] dec_string) []"

definition unmarshal_sns :: "golib \<Rightarrow> string \<Rightarrow> snsEnvelope option" where
  "unmarshal_sns L = unmarshal (dec_struct (lib_unicode L) sns_fields) zero_envelope"

definition unmarshal_ses :: "golib \<Rightarrow> string \<Rightarrow> sesEvent option" where
  "unmarshal_ses L = unmarshal (dec_struct (lib_unicode L) (event_fields (lib_unicode L))) zero_event"

end
