(* ===== verification/JsonRoundtrip.thy ===== *)
theory JsonRoundtrip
  imports JsonDecode
begin

text \<open>
  What the service stores it reads back: the texts that \<open>Api\<close> defines for records, identifier lists and
  events are JSON texts of the grammar, and the decoders of \<open>JsonDecode\<close> return the value that was encoded,
  its strings coerced to UTF-8.
\<close>

section \<open>Encoded values are JSON\<close>

lemma raw_text_safe: "list_all html_safe s \<Longrightarrow> raw_text s"
  using raw_text_json_escape [of s] by (simp add: json_escape_safe)

lemma unquote_safe: "list_all html_safe s \<Longrightarrow> unquote s = Some s"
proof -
  assume s: "list_all html_safe s"
  then have "ascii s" by (auto simp: ascii_def list_all_iff html_safe_def)
  then have "from_runes (runes s) = s" by (intro valid_utf8_runes valid_utf8_ascii)
  with s show ?thesis using unquote_escape [of s] by (simp add: json_escape_safe)
qed

definition time_char :: "char \<Rightarrow> bool" where
  "time_char c \<longleftrightarrow> is_digit c \<or> c \<in> set ''-:.TZ+''"

lemma time_char_safe: "list_all time_char s \<Longrightarrow> list_all html_safe s"
  by (rule list.pred_mono_strong, assumption)
    (auto simp: time_char_def is_digit_def html_safe_def byte_eval)

lemma list_all_time_char [simp]: "list_all is_digit s \<Longrightarrow> list_all time_char s"
  by (auto simp: list_all_iff time_char_def)

lemma time_char_simps [simp]:
  "time_char CHR ''-''" "time_char CHR '':''" "time_char CHR ''.''" "time_char CHR ''T''"
  "time_char CHR ''Z''" "time_char CHR ''+''"
  by (simp_all add: time_char_def)

lemma rfc3339_safe: "list_all html_safe (rfc3339_nano t)"
proof (rule time_char_safe)
  have f: "list_all time_char (frac_str n)" for n
  proof -
    have "set (dropWhile (\<lambda>c. c = CHR ''0'') (rev (pad_str 9 n))) \<subseteq> set (pad_str 9 n)"
      by (metis set_dropWhileD set_rev subsetI)
    then have "list_all is_digit (dropWhile (\<lambda>c. c = CHR ''0'') (rev (pad_str 9 n)))"
      using pad_str_digits [of 9 n] by (auto simp: list_all_iff)
    then show ?thesis by (simp add: frac_str_def)
  qed
  show "list_all time_char (rfc3339_nano t)"
    by (simp add: rfc3339_nano_def date_str_def clock_str_def zone_str_def Let_def f pad_str_digits
        split: prod.splits)
qed

lemma json_ok_simps [simp]:
  "json_ok d (json_string s)" "json_ok d (json_int n)" "json_ok d (json_time t)"
  by (simp_all add: json_string_def json_int_def json_time_def raw_text_json_escape num_text_int_str
      raw_text_safe rfc3339_safe)

section \<open>Decoding encoded values\<close>

definition to_utf8 :: "string \<Rightarrow> string" where
  "to_utf8 s = from_runes (runes s)"

lemma to_utf8_valid [simp]: "valid_utf8 s \<Longrightarrow> to_utf8 s = s"
  by (simp add: to_utf8_def valid_utf8_runes)

lemma dec_simps [simp]:
  "dec_string (json_string s) old = Some (to_utf8 s)"
  "dec_int (json_int n) i = Some n"
  "time_exact t \<Longrightarrow> dec_time (json_time t) u = Some t"
  by (simp_all add: json_string_def json_int_def json_time_def unquote_escape to_utf8_def atoi_int_str
      time_parse_rfc3339)

lemma dec_elems_map:
  assumes "\<And>x old. x \<in> set xs \<Longrightarrow> dec (f x) old = Some (g x)"
  shows "dec_elems z dec (map f xs) old = Some (map g xs)"
  using assms by (induction xs arbitrary: old) simp_all

lemma dec_members_Cons:
  assumes "list_all html_safe k" and "map_of fs k = Some d"
  shows "dec_members U fs ((k, v) # ms) r = do { r \<leftarrow> d v r; dec_members U fs ms r }"
  using assms by (simp add: unquote_safe find_field_def)

lemma dec_opt_member:
  assumes "list_all html_safe k" and "map_of fs k = Some (fld get upd (dec_ptr z dec_time))"
    and "list_all time_exact (opt_list ot)" and "get r = None" and "upd (\<lambda>_. None) r = r"
  shows "dec_members U fs (opt_member k ot @ ms) r = dec_members U fs ms (upd (\<lambda>_. ot) r)"
proof (cases ot)
  case (Some t)
  then have t: "time_exact t" using assms(3) by (simp add: opt_list_def)
  have "dec_ptr z dec_time (json_time t) None = Some (Some t)"
    using time_parse_rfc3339 [OF t] by (simp add: dec_ptr_def json_time_def)
  then show ?thesis
    using Some assms dec_members_Cons [OF assms(1,2)] by (simp add: opt_member_def fld_def)
qed (use assms in \<open>simp add: opt_member_def\<close>)

lemma dec_list_member:
  assumes "list_all html_safe k" and "map_of fs k = Some (fld get upd (dec_list z dec))"
    and "\<And>x old. x \<in> set xs \<Longrightarrow> dec (f x) old = Some (g x)" and "upd (\<lambda>_. []) r = r"
  shows "dec_members U fs (list_member k (map f xs) @ ms) r = dec_members U fs ms (upd (\<lambda>_. map g xs) r)"
proof (cases "xs = []")
  case False
  have "dec_list z dec (JArr (map f xs)) (get r) = Some (map g xs)"
    using dec_elems_map [of xs dec f g] assms(3) by simp
  then show ?thesis
    using False dec_members_Cons [OF assms(1,2)] by (simp add: list_member_def fld_def)
qed (use assms in \<open>simp add: list_member_def\<close>)

lemma dec_open_event:
  assumes "time_exact (oe_opened_at e)"
  shows "dec_struct U open_event_fields (open_event_json e) old = Some (e\<lparr>oe_event_id := to_utf8 (oe_event_id e)\<rparr>)"
  using assms
  by (simp add: open_event_json_def dec_members_Cons open_event_fields_def html_safe_def byte_eval fld_def
      del: dec_members.simps(2))

lemma dec_click_event:
  assumes "time_exact (ce_clicked_at e)"
  shows "dec_struct U click_event_fields (click_event_json e) old
    = Some (e\<lparr>ce_event_id := to_utf8 (ce_event_id e), ce_link := to_utf8 (ce_link e)\<rparr>)"
  using assms
  by (simp add: click_event_json_def dec_members_Cons click_event_fields_def html_safe_def byte_eval fld_def
      del: dec_members.simps(2))

text \<open>The members of a record, by name.\<close>

lemma record_names_safe:
  "list_all html_safe ''group_id''" "list_all html_safe ''email_id''" "list_all html_safe ''to''"
  "list_all html_safe ''subject''" "list_all html_safe ''sent_at''" "list_all html_safe ''delivered''"
  "list_all html_safe ''delivered_at''" "list_all html_safe ''opened''" "list_all html_safe ''open_count''"
  "list_all html_safe ''opened_at_list''" "list_all html_safe ''last_opened_at''"
  "list_all html_safe ''clicked''" "list_all html_safe ''click_count''"
  "list_all html_safe ''click_event_ids''" "list_all html_safe ''click_list''"
  "list_all html_safe ''last_clicked_at''" "list_all html_safe ''failed''" "list_all html_safe ''failed_at''"
  by (simp_all add: html_safe_def byte_eval)

lemma record_fields_map:
  "map_of (record_fields U) ''group_id'' = Some (fld GroupID GroupID_update dec_string)"
  "map_of (record_fields U) ''email_id'' = Some (fld EmailID EmailID_update dec_string)"
  "map_of (record_fields U) ''to'' = Some (fld To To_update dec_string)"
  "map_of (record_fields U) ''subject'' = Some (fld Subject Subject_update dec_string)"
  "map_of (record_fields U) ''sent_at'' = Some (fld SentAt SentAt_update dec_time)"
  "map_of (record_fields U) ''delivered'' = Some (fld Delivered Delivered_update dec_bool)"
  "map_of (record_fields U) ''delivered_at'' = Some (fld DeliveredAt DeliveredAt_update (dec_ptr zero_time dec_time))"
  "map_of (record_fields U) ''opened'' = Some (fld Opened Opened_update dec_bool)"
  "map_of (record_fields U) ''open_count'' = Some (fld OpenCount OpenCount_update dec_int)"
  "map_of (record_fields U) ''opened_at_list'' = Some (fld OpenedAtList OpenedAtList_update
     (dec_list zero_open_event (dec_struct U open_event_fields)))"
  "map_of (record_fields U) ''last_opened_at'' = Some (fld LastOpenedAt LastOpenedAt_update (dec_ptr zero_time dec_time))"
  "map_of (record_fields U) ''clicked'' = Some (fld Clicked Clicked_update dec_bool)"
  "map_of (record_fields U) ''click_count'' = Some (fld ClickCount ClickCount_update dec_int)"
  "map_of (record_fields U) ''click_event_ids'' = Some (fld ClickEventIDs ClickEventIDs_update (dec_list [] dec_string))"
  "map_of (record_fields U) ''click_list'' = Some (fld ClickList ClickList_update
     (dec_list zero_click_event (dec_struct U click_event_fields)))"
  "map_of (record_fields U) ''last_clicked_at'' = Some (fld LastClickedAt LastClickedAt_update (dec_ptr zero_time dec_time))"
  "map_of (record_fields U) ''failed'' = Some (fld Failed Failed_update dec_bool)"
  "map_of (record_fields U) ''failed_at'' = Some (fld FailedAt FailedAt_update (dec_ptr zero_time dec_time))"
  by (simp_all add: record_fields_def)

text \<open>A record with all its strings coerced, and its strings.\<close>

definition record_utf8 :: "rcpt \<Rightarrow> rcpt" where
  "record_utf8 r = r\<lparr>GroupID := to_utf8 (GroupID r), EmailID := to_utf8 (EmailID r), To := to_utf8 (To r),
     Subject := to_utf8 (Subject r),
     OpenedAtList := map (\<lambda>e. e\<lparr>oe_event_id := to_utf8 (oe_event_id e)\<rparr>) (OpenedAtList r),
     ClickEventIDs := map to_utf8 (ClickEventIDs r),
     ClickList := map (\<lambda>e. e\<lparr>ce_event_id := to_utf8 (ce_event_id e), ce_link := to_utf8 (ce_link e)\<rparr>) (ClickList r)\<rparr>"

definition record_strings :: "rcpt \<Rightarrow> string list" where
  "record_strings r = [GroupID r, EmailID r, To r, Subject r] @ map oe_event_id (OpenedAtList r)
     @ ClickEventIDs r @ map ce_event_id (ClickList r) @ map ce_link (ClickList r)"

lemma record_utf8_valid:
  assumes "list_all valid_utf8 (record_strings r)"
  shows "record_utf8 r = r"
proof -
  have "map (\<lambda>e. e\<lparr>oe_event_id := to_utf8 (oe_event_id e)\<rparr>) (OpenedAtList r) = OpenedAtList r"
    "map to_utf8 (ClickEventIDs r) = ClickEventIDs r"
    "map (\<lambda>e. e\<lparr>ce_event_id := to_utf8 (ce_event_id e), ce_link := to_utf8 (ce_link e)\<rparr>) (ClickList r) = ClickList r"
    using assms by (auto simp: record_strings_def list_all_iff intro!: map_idI)
  with assms show ?thesis by (simp add: record_utf8_def record_strings_def)
qed

lemma dec_record_members:
  assumes "list_all time_exact (record_times r)"
  shows "dec_members U (record_fields U) (record_members r) zero_record = Some (record_utf8 r)"
proof -
  note cons = dec_members_Cons [OF record_names_safe(1) record_fields_map(1)]
    dec_members_Cons [OF record_names_safe(2) record_fields_map(2)]
    dec_members_Cons [OF record_names_safe(3) record_fields_map(3)]
    dec_members_Cons [OF record_names_safe(4) record_fields_map(4)]
    dec_members_Cons [OF record_names_safe(5) record_fields_map(5)]
    dec_members_Cons [OF record_names_safe(6) record_fields_map(6)]
    dec_members_Cons [OF record_names_safe(8) record_fields_map(8)]
    dec_members_Cons [OF record_names_safe(9) record_fields_map(9)]
    dec_members_Cons [OF record_names_safe(12) record_fields_map(12)]
    dec_members_Cons [OF record_names_safe(13) record_fields_map(13)]
    dec_members_Cons [OF record_names_safe(17) record_fields_map(17)]
  note opt = dec_opt_member [OF record_names_safe(7) record_fields_map(7)]
    dec_opt_member [OF record_names_safe(11) record_fields_map(11)]
    dec_opt_member [OF record_names_safe(16) record_fields_map(16)]
    dec_opt_member [OF record_names_safe(18) record_fields_map(18), where ms = "[]", simplified]
  note lst = dec_list_member [OF record_names_safe(10) record_fields_map(10),
      where f = open_event_json and g = "\<lambda>e. e\<lparr>oe_event_id := to_utf8 (oe_event_id e)\<rparr>"]
    dec_list_member [OF record_names_safe(14) record_fields_map(14), where f = json_string and g = to_utf8]
    dec_list_member [OF record_names_safe(15) record_fields_map(15), where f = click_event_json
      and g = "\<lambda>e. e\<lparr>ce_event_id := to_utf8 (ce_event_id e), ce_link := to_utf8 (ce_link e)\<rparr>"]
  have t: "time_exact (SentAt r)" "list_all time_exact (opt_list (DeliveredAt r))"
    "list_all time_exact (opt_list (LastOpenedAt r))" "list_all time_exact (opt_list (LastClickedAt r))"
    "list_all time_exact (opt_list (FailedAt r))"
    "\<And>e. e \<in> set (OpenedAtList r) \<Longrightarrow> time_exact (oe_opened_at e)"
    "\<And>e. e \<in> set (ClickList r) \<Longrightarrow> time_exact (ce_clicked_at e)"
    using assms by (auto simp: record_times_def list_all_iff)
  show ?thesis
    by (simp add: record_members_def zero_record_def cons opt lst t fld_def dec_open_event dec_click_event
        record_utf8_def del: dec_members.simps(2))
qed

abbreviation member_ok :: "nat \<Rightarrow> string \<times> json \<Rightarrow> bool" where
  "member_ok d \<equiv> (\<lambda>(k, v). raw_text k \<and> json_ok d v)"

lemma member_ok_opt: "list_all html_safe k \<Longrightarrow> list_all (member_ok d) (opt_member k ot)"
  by (simp add: opt_member_def raw_text_safe split: option.split)

lemma member_ok_list:
  "list_all html_safe k \<Longrightarrow> 0 < d \<Longrightarrow> (\<And>x. json_ok (d - 1) (f x)) \<Longrightarrow> list_all (member_ok d) (list_member k (map f xs))"
  by (simp add: list_member_def raw_text_safe list_all_iff)

lemma event_json_ok:
  "0 < d \<Longrightarrow> json_ok d (open_event_json e)" "0 < d \<Longrightarrow> json_ok d (click_event_json c)"
  by (simp_all add: open_event_json_def click_event_json_def raw_text_safe html_safe_def byte_eval)

lemma record_json_ok: "json_ok maxNestingDepth (record_json r)"
  by (simp add: record_json_def record_members_def maxNestingDepth_def event_json_ok
      record_names_safe [THEN raw_text_safe] record_names_safe [THEN member_ok_opt]
      record_names_safe [THEN member_ok_list])

lemma unmarshal_marshal_record:
  assumes "list_all time_exact (record_times r)" and "marshal_record r = Some v"
  shows "unmarshal_record L v = Some (record_utf8 r)"
proof -
  have "v = json_print (record_json r)" using assms(2) by (simp add: marshal_record_def split: if_splits)
  then show ?thesis
    using json_parse_print [OF record_json_ok] dec_record_members [OF assms(1)]
    by (simp add: unmarshal_record_def unmarshal_def record_json_def)
qed

lemma unmarshal_marshal_ids: "unmarshal_ids L (marshal_ids ids) = Some (map to_utf8 ids)"
proof -
  have "json_ok maxNestingDepth (JArr (map json_string ids))"
    by (simp add: maxNestingDepth_def list_all_iff)
  from json_parse_print [OF this] show ?thesis
    using dec_elems_map [of ids dec_string json_string to_utf8 "[]" "[]"]
    by (simp add: unmarshal_ids_def unmarshal_def marshal_ids_def)
qed

lemma unmarshal_ids_valid: "list_all valid_utf8 ids \<Longrightarrow> unmarshal_ids L (marshal_ids ids) = Some ids"
  by (simp add: unmarshal_marshal_ids list_all_iff map_idI)

lemma unmarshal_record_valid:
  assumes "list_all time_exact (record_times r)" and "list_all valid_utf8 (record_strings r)"
  shows "unmarshal_record L (json_print (record_json r)) = Some r"
proof -
  have "marshal_record r = Some (json_print (record_json r))"
    using assms(1) by (simp add: marshal_record_def encodable_def list_all_iff time_exact_def)
  from unmarshal_marshal_record [OF assms(1) this] show ?thesis
    using record_utf8_valid [OF assms(2)] by simp
qed

lemma record_roundtrip_valid:
  assumes "list_all time_exact (record_times r)" and "list_all valid_utf8 (record_strings r)"
  shows "marshal_record r = Some (json_print (record_json r))"
    and "unmarshal_record L (json_print (record_json r)) = Some r"
  using unmarshal_record_valid [OF assms] assms(1)
  by (simp_all add: marshal_record_def encodable_def list_all_iff time_exact_def)

section \<open>Records\<close>

lemma to_utf8_idem [simp]: "to_utf8 (to_utf8 s) = to_utf8 s"
  by (simp add: to_utf8_def runes_from_runes [OF runes_valid])

lemma record_utf8_idem: "record_utf8 (record_utf8 r) = record_utf8 r"
  by (simp add: record_utf8_def o_def)

lemma record_utf8_times: "record_times (record_utf8 r) = record_times r"
  by (simp add: record_utf8_def record_times_def o_def)

text \<open>
  C23: what the store holds is what was written. A recipient record whose times have whole minutes as
  offsets is encoded, and decoding the text gives the record back, field by field: lists in their
  order, absent times absent, and every string as it was if it is UTF-8, its ill-formed bytes
  replaced otherwise. What was read once is written and read unchanged from then on.
\<close>

theorem record_roundtrip:
  assumes "list_all time_exact (record_times r)"
  shows "(\<exists>v. marshal_record r = Some v \<and> unmarshal_record L v = Some (record_utf8 r))
     \<and> (list_all valid_utf8 (record_strings r) \<longrightarrow> record_utf8 r = r)
     \<and> (\<exists>v. marshal_record (record_utf8 r) = Some v \<and> unmarshal_record L v = Some (record_utf8 r))"
proof -
  have enc: "\<exists>v. marshal_record x = Some v" if "list_all time_exact (record_times x)" for x
    using that by (simp add: marshal_record_def encodable_def list_all_iff time_exact_def)
  have t: "list_all time_exact (record_times (record_utf8 r))" using assms by (simp add: record_utf8_times)
  obtain v w where "marshal_record r = Some v" "marshal_record (record_utf8 r) = Some w"
    using enc [OF assms] enc [OF t] by blast
  with unmarshal_marshal_record [OF assms] unmarshal_marshal_record [OF t] record_utf8_valid [of r]
  show ?thesis by (simp add: record_utf8_idem)
qed

definition rt_record :: rcpt where
  "rt_record = zero_record\<lparr>Subject := ''1 < 2'', Delivered := True, DeliveredAt := Some zero_time,
     ClickList := [\<lparr>ce_event_id = ''e'', ce_link = ''https://x/'', ce_clicked_at = zero_time\<rparr>]\<rparr>"

lemma zero_time_exact: "time_exact zero_time"
  by (simp add: time_exact_def time_encodable_def time_year_def zone_minutes_def local_secs_def zero_time_def
      civil_date_def year_yday_def Let_def split: prod.split)

theorem record_roundtrip_witness:
  "\<exists>v. marshal_record rt_record = Some v
     \<and> unmarshal_record example_lib v = Some rt_record"
proof -
  have t: "list_all time_exact (record_times rt_record)"
    by (simp add: rt_record_def zero_record_def record_times_def opt_list_def zero_time_exact)
  have "list_all valid_utf8 (record_strings rt_record)"
    by (simp add: rt_record_def zero_record_def record_strings_def valid_utf8_ascii byte_eval)
  with record_roundtrip [OF t] show ?thesis by metis
qed

end
