(* ===== verification/Tracking.thy ===== *)
theory Tracking
  imports World JsonRoundtrip
begin

text \<open>
  \<open>internal/domain/tracking.go\<close> and \<open>internal/service/validate.go\<close>: group handles and the
  identifiers that become bucket keys, and \<open>NullTrackingStore\<close>.
\<close>

section \<open>Identifiers\<close>

text \<open>The regular expression \<open>^grp_[0-9a-f]{32}$\<close>.\<close>

definition IsGroupHandle :: "string \<Rightarrow> bool" where
  "IsGroupHandle s \<longleftrightarrow>
     take 4 s = ''grp_'' \<and> length s = 36 \<and> list_all is_hex_lower (drop 4 s)"

definition isValidGroupID :: "string \<Rightarrow> bool" where
  "isValidGroupID s = IsGroupHandle s"

text \<open>\<open>hex.EncodeToString\<close>.\<close>

definition hex_byte :: "8 word \<Rightarrow> string" where
  "hex_byte b = [hex_digit (unat b div 16), hex_digit (unat b mod 16)]"

definition hex_encode :: "8 word list \<Rightarrow> string" where
  "hex_encode bs = concat (map hex_byte bs)"

definition NewGroupHandle :: "world \<Rightarrow> string \<times> world" where
  "NewGroupHandle w = (case rand_bytes 16 w of (bs, w) \<Rightarrow> (''grp_'' @ hex_encode bs, w))"

text \<open>
  The regular expression of \<open>uuidRe\<close> and of \<open>emailIDRe\<close>: groups of 8, 4, 4, 4 and 12
  hexadecimal digits of either case, separated by hyphens.
\<close>

definition isValidUUID :: "string \<Rightarrow> bool" where
  "isValidUUID s \<longleftrightarrow>
     length s = 36
     \<and> list_all (\<lambda>i. if i \<in> {8, 13, 18, 23} then s ! i = CHR ''-'' else is_hex (s ! i)) [0..<36]"

section \<open>Lemmas on identifiers\<close>

lemma hex_digit_inj: "m < 16 \<Longrightarrow> n < 16 \<Longrightarrow> hex_digit m = hex_digit n \<Longrightarrow> m = n"
proof -
  have "distinct (map hex_digit [0..<16])"
    by (simp add: upt_rec hex_digit_def)
  then show "m < 16 \<Longrightarrow> n < 16 \<Longrightarrow> hex_digit m = hex_digit n \<Longrightarrow> m = n"
    by (simp add: distinct_map inj_on_def)
qed

lemma unat8_lt: "unat (b :: 8 word) < 256"
  using unsigned_less [of b] by simp

lemma length_hex_encode [simp]: "length (hex_encode bs) = 2 * length bs"
  by (induction bs) (simp_all add: hex_encode_def hex_byte_def)

lemma hex_encode_hex: "list_all is_hex_lower (hex_encode bs)"
proof (induction bs)
  case (Cons b bs)
  have "unat b div 16 < 16" using unat8_lt [of b] by simp
  with Cons show ?case by (simp add: hex_encode_def hex_byte_def hex_digit_lower)
qed (simp add: hex_encode_def)

lemma hex_byte_inj: "hex_byte a = hex_byte b \<Longrightarrow> a = b"
proof -
  assume "hex_byte a = hex_byte b"
  then have "hex_digit (unat a div 16) = hex_digit (unat b div 16)"
    "hex_digit (unat a mod 16) = hex_digit (unat b mod 16)"
    by (simp_all add: hex_byte_def)
  moreover have "unat a div 16 < 16" "unat b div 16 < 16" using unat8_lt [of a] unat8_lt [of b] by simp_all
  ultimately have "unat a div 16 = unat b div 16" "unat a mod 16 = unat b mod 16"
    by (simp_all add: hex_digit_inj)
  then have "unat a = unat b" by (metis div_mult_mod_eq)
  then show "a = b" by (simp add: word_unat_eq_iff)
qed

lemma hex_encode_inj: "length as = length bs \<Longrightarrow> hex_encode as = hex_encode bs \<Longrightarrow> as = bs"
proof (induction as bs rule: list_induct2)
  case (Cons a as b bs)
  then have "hex_byte a = hex_byte b" "hex_encode as = hex_encode bs"
    by (simp_all add: hex_encode_def hex_byte_def)
  with Cons show ?case using hex_byte_inj by simp
qed simp

lemma NewGroupHandle_handle: "NewGroupHandle w = (h, w') \<Longrightarrow> IsGroupHandle h"
  by (auto simp: NewGroupHandle_def rand_bytes_def IsGroupHandle_def hex_encode_hex split: prod.splits)

lemma NewGroupHandle_frame:
  "NewGroupHandle w = (h, w') \<Longrightarrow> w' = w\<lparr>w_draws := w_draws w + 16\<rparr>"
  by (auto simp: NewGroupHandle_def rand_bytes_def)

lemma is_hex_lower_byte: "is_hex c \<Longrightarrow> is_hex_lower (chr (lower_byte (byte c)))"
  by (auto simp: is_hex_def is_hex_lower_def is_digit_def lower_byte_def is_upper_byte_def)

lemma isValidUUID_nth:
  "isValidUUID s \<longleftrightarrow> length s = 36 \<and>
     (\<forall>i < 36. if i \<in> {8, 13, 18, 23} then s ! i = CHR ''-'' else is_hex (s ! i))"
  by (simp only: isValidUUID_def list_all_iff set_upt atLeastLessThan_iff Ball_def) simp

lemma isValidUUID_bytes: "isValidUUID s \<Longrightarrow> c \<in> set s \<Longrightarrow> is_hex c \<or> c = CHR ''-''"
  by (auto simp: isValidUUID_nth in_set_conv_nth split: if_splits)

lemma IsGroupHandle_bytes:
  assumes "IsGroupHandle s" and "c \<in> set s"
  shows "is_hex_lower c \<or> c \<in> set ''grp_''"
proof -
  from assms(1) have "take 4 s = ''grp_''" "list_all is_hex_lower (drop 4 s)"
    by (simp_all add: IsGroupHandle_def)
  moreover have "c \<in> set (take 4 s) \<union> set (drop 4 s)"
    using assms(2) by (simp only: set_append [symmetric] append_take_drop_id)
  ultimately show ?thesis by (auto simp only: list_all_iff)
qed

lemma isValidUUID_ascii: "isValidUUID s \<Longrightarrow> ascii s"
  using isValidUUID_bytes [of s]
  by (fastforce simp: ascii_def list_all_iff is_hex_def is_hex_lower_def is_digit_def byte_eval)

lemma IsGroupHandle_ascii: "IsGroupHandle s \<Longrightarrow> ascii s"
  using IsGroupHandle_bytes [of s]
  by (fastforce simp: ascii_def list_all_iff is_hex_lower_def is_digit_def byte_eval)

lemma isValidUUID_lower: "isValidUUID s \<Longrightarrow> isValidUUID (ascii_lower s)"
proof -
  assume u: "isValidUUID s"
  have "chr (lower_byte (byte CHR ''-'')) = CHR ''-''" by (simp add: lower_byte_def is_upper_byte_def byte_eval chr_eval)
  moreover have "is_hex c \<Longrightarrow> is_hex (chr (lower_byte (byte c)))" for c
    using is_hex_lower_byte [of c] by (simp add: is_hex_def)
  ultimately show ?thesis using u by (auto simp: isValidUUID_nth ascii_lower_def)
qed

lemma isValidUUID_len [simp]: "isValidUUID s \<Longrightarrow> length s = 36"
  by (simp add: isValidUUID_def)

lemma IsGroupHandle_len [simp]: "IsGroupHandle s \<Longrightarrow> length s = 36"
  by (simp add: IsGroupHandle_def)

lemma not_handle_Nil [simp]: "\<not> IsGroupHandle []" "\<not> isValidUUID []" "\<not> isValidGroupID []"
  by (simp_all add: IsGroupHandle_def isValidUUID_def isValidGroupID_def)

text \<open>An index of UUIDs takes 39 bytes per entry.\<close>

lemma isValidUUID_html_safe: "isValidUUID s \<Longrightarrow> list_all html_safe s"
  using isValidUUID_bytes [of s]
  by (fastforce simp: list_all_iff html_safe_def is_hex_def is_hex_lower_def is_digit_def byte_eval)

lemma length_marshal_ids:
  assumes "ids \<noteq> []" and "list_all isValidUUID ids"
  shows "length (marshal_ids ids) = 39 * length ids + 1"
proof -
  have "elem_size (map json_string ids) = 39 * length ids"
    using assms(2)
    by (induction ids) (simp_all add: json_string_def json_len_def json_escape_safe isValidUUID_html_safe)
  then show ?thesis
    using assms(1) json_len_JArr [of "map json_string ids"] by (simp add: marshal_ids_def json_len_def)
qed

section \<open>The tracking store\<close>

text \<open>
  The interface \<open>domain.TrackingStore\<close>, a value of which is its six operations. \<open>'a\<close> is the
  state of the callback of \<open>ScanGroupRecords\<close>, which returns \<open>False\<close> to stop the scan, and
  \<open>'c\<close> what the callback of \<open>UpdateRecord\<close> leaves in the variables of its caller besides the
  record it changes; that callback may use the clock.
\<close>

type_synonym 'a scan_fn = "rcpt \<Rightarrow> 'a \<Rightarrow> bool \<times> 'a"
type_synonym 'c update_fn = "rcpt \<Rightarrow> 'c \<Rightarrow> world \<Rightarrow> rcpt \<times> 'c \<times> world"

record ('a, 'c) TrackingStore =
  WriteRecord :: "string \<Rightarrow> rcpt \<Rightarrow> world \<Rightarrow> goerr option \<times> world"
  AppendToGroup :: "string \<Rightarrow> string \<Rightarrow> world \<Rightarrow> goerr option \<times> world"
  GroupExists :: "string \<Rightarrow> world \<Rightarrow> (bool \<times> goerr option) \<times> world"
  GetRecord :: "string \<Rightarrow> world \<Rightarrow> (goerr + rcpt) \<times> world"
  ScanGroupRecords :: "string \<Rightarrow> int64 \<Rightarrow> int64 \<Rightarrow> 'a scan_fn \<Rightarrow> 'a \<Rightarrow> world
       \<Rightarrow> (nat \<times> goerr option) \<times> 'a \<times> world"
  UpdateRecord :: "string \<Rightarrow> 'c update_fn \<Rightarrow> 'c \<Rightarrow> world \<Rightarrow> goerr option \<times> 'c \<times> world"

text \<open>
  The store used without NATS KV: writes succeed, reads find nothing, a group cannot be
  appended to; its callbacks are not called.
\<close>

definition NullTrackingStore :: "('a, 'c) TrackingStore" where
  "NullTrackingStore = \<lparr>
     WriteRecord = \<lambda>emailID r w. (None, w),
     AppendToGroup = \<lambda>groupID emailID w. (Some [ErrTrackingUnavailable], w),
     GroupExists = \<lambda>groupID w. ((True, None), w),
     GetRecord = \<lambda>emailID w. (Inl [ErrNotFound], w),
     ScanGroupRecords = \<lambda>groupID offset limit fn acc w. ((0, Some [ErrNotFound]), acc, w),
     UpdateRecord = \<lambda>emailID fn c w. (None, c, w)\<rparr>"

section \<open>The contract of a tracking store\<close>

text \<open>The write of a record, of an extended index, of a changed record.\<close>

definition writes_record :: "string \<Rightarrow> rcpt \<Rightarrow> kv_log \<Rightarrow> bool" where
  "writes_record emailID r = (\<lambda>(b, k, old, v).
     b = Recipients \<and> k = emailID \<and> marshal_record r = Some v)"

definition index_ids :: "golib \<Rightarrow> kv_entry option \<Rightarrow> string list" where
  "index_ids L old =
     (case old of None \<Rightarrow> [] | Some en \<Rightarrow>
        (case unmarshal_ids L (ent_value en) of None \<Rightarrow> [] | Some ids \<Rightarrow> ids))"

definition extends_index :: "golib \<Rightarrow> string \<Rightarrow> string \<Rightarrow> kv_log \<Rightarrow> bool" where
  "extends_index L groupID emailID = (\<lambda>(b, k, old, v).
     b = GroupIndex \<and> k = groupID \<and> v = marshal_ids (index_ids L old @ [emailID])
     \<and> length (index_ids L old) < MaxGroupEmails)"

definition changes_record :: "golib \<Rightarrow> string \<Rightarrow> 'c update_fn \<Rightarrow> nat \<Rightarrow> kv_log \<Rightarrow> bool" where
  "changes_record L emailID fn m = (\<lambda>(b, k, old, v).
     b = Recipients \<and> k = emailID \<and> length v \<le> m
     \<and> (\<exists>en r c w. old = Some en \<and> unmarshal_record L (ent_value en) = Some r
          \<and> marshal_record (fst (fn r c w)) = Some v))"

text \<open>The callback of an update only uses the clock.\<close>

definition only_clock :: "'c update_fn \<Rightarrow> bool" where
  "only_clock fn \<longleftrightarrow> (\<forall>r c w. runs (\<lambda>_. False) no_write w (snd (snd (fn r c w))))"

text \<open>The callback fed with records until it stops the scan.\<close>

fun feed :: "'a scan_fn \<Rightarrow> rcpt list \<Rightarrow> 'a \<Rightarrow> bool \<times> 'a" where
  "feed fn [] acc = (True, acc)"
| "feed fn (r # rs) acc = (case fn r acc of (True, acc) \<Rightarrow> feed fn rs acc | (False, acc) \<Rightarrow> (False, acc))"

lemma feed_append:
  "feed fn (xs @ ys) acc = (case feed fn xs acc of (True, a) \<Rightarrow> feed fn ys a | (False, a) \<Rightarrow> (False, a))"
  by (induction fn xs acc rule: feed.induct) (auto split: prod.splits bool.splits)

text \<open>
  What every tracking store promises its callers, for all of its calls, failed ones included:
  which writes it may do, that it neither sends nor replies, that a scan delivers at most
  \<open>limit\<close> records and only of the group asked for, and that an update keeps every invariant of the
  caller's variables that its callback keeps.
\<close>

locale tracking_store =
  fixes T :: "('a, 'c) TrackingStore" and L :: golib and K :: "bucket \<times> string \<Rightarrow> bool"
  assumes write_runs: "WriteRecord T emailID r w = (x, w') \<Longrightarrow> runs K (writes_record emailID r) w w'"
    and append_runs: "AppendToGroup T groupID emailID w = (x, w') \<Longrightarrow> revisions_ok w
          \<Longrightarrow> runs K (extends_index L groupID emailID) w w'"
    and exists_runs: "GroupExists T groupID w = (y, w') \<Longrightarrow> runs K no_write w w'"
    and get_runs: "GetRecord T emailID w = (z, w') \<Longrightarrow> runs K no_write w w'"
    and scan_runs: "ScanGroupRecords T groupID offset limit fn acc w = (s, acc', w') \<Longrightarrow> runs K no_write w w'"
    and scan_feeds: "ScanGroupRecords T groupID offset limit fn acc w = (s, acc', w') \<Longrightarrow>
          \<exists>rs. acc' = snd (feed fn rs acc) \<and> (\<forall>r \<in> set rs. GroupID r = groupID)
             \<and> length rs \<le> MaxGroupEmails \<and> int (length rs) \<le> max 0 (sint limit)"
    and update_runs: "UpdateRecord T emailID f c w = (x, c', w') \<Longrightarrow> revisions_ok w \<Longrightarrow> only_clock f
          \<Longrightarrow> runs K (changes_record L emailID f (w_max_value w Recipients)) w w'"
    and update_invar: "UpdateRecord T emailID f c w = (x, c', w') \<Longrightarrow> I c
          \<Longrightarrow> (\<And>r c w. I c \<Longrightarrow> I (fst (snd (f r c w)))) \<Longrightarrow> I c'"
begin

lemma exists_any: "GroupExists T groupID w = (y, w') \<Longrightarrow> runs K P w w'"
  by (rule runs_no_write, rule exists_runs)

lemma get_any: "GetRecord T emailID w = (z, w') \<Longrightarrow> runs K P w w'"
  by (rule runs_no_write, rule get_runs)

lemma scan_any: "ScanGroupRecords T groupID offset limit fn acc w = (s, acc', w') \<Longrightarrow> runs K P w w'"
  by (rule runs_no_write, rule scan_runs)

text \<open>An invariant of the callback's state under records of the group holds after the scan.\<close>

lemma scan_invar:
  assumes "ScanGroupRecords T groupID offset limit fn acc w = (s, acc', w')" and "I acc"
    and "\<And>r acc. I acc \<Longrightarrow> GroupID r = groupID \<Longrightarrow> I (snd (fn r acc))"
  shows "I acc'"
proof -
  obtain rs where "acc' = snd (feed fn rs acc)" "\<forall>r \<in> set rs. GroupID r = groupID"
    using scan_feeds [OF assms(1)] by blast
  moreover have "I (snd (feed fn rs acc))" if "I acc" "\<forall>r \<in> set rs. GroupID r = groupID" for rs acc
    using that
  proof (induction rs arbitrary: acc)
    case (Cons r rs)
    then have "I (snd (fn r acc))" by (intro assms(3)) simp_all
    with Cons show ?case by (auto split: prod.split bool.split)
  qed simp
  ultimately show ?thesis using assms(2) by blast
qed

end

interpretation null: tracking_store NullTrackingStore L K for L :: golib and K
  by standard (auto simp: NullTrackingStore_def intro: exI [of _ "[]"])

section \<open>Values of the examples\<close>

definition uuid0 :: string where
  "uuid0 = ''550e8400-e29b-41d4-a716-446655440000''"

lemma uuid0: "isValidUUID uuid0"
  by (simp add: uuid0_def isValidUUID_def upt_rec is_hex_def is_hex_lower_def is_digit_def byte_eval)

lemma revisions_empty: "revisions_ok empty_world"
  by (simp add: revisions_ok_def empty_world_def)

lemmas kv_eval = kv_get_def kv_begin_def next_move_def quiet_def kv_create_def kv_update_def kv_put_def
  kv_write_def errors_is_def Let_def

end
