(* ===== verification/GoMime.thy ===== *)
theory GoMime
  imports GoTime
begin

text \<open>
  The encoded words of the Go package \<open>mime\<close> for the charset utf-8 (\<open>WordEncoder.Encode\<close>, with
  \<open>QEncoding\<close> and \<open>BEncoding\<close>), base64 as in \<open>encoding/base64\<close>, and the fact that none of them
  lets a line break through.
\<close>

section \<open>Text without line breaks\<close>

definition one_line :: "string \<Rightarrow> bool" where
  "one_line s \<longleftrightarrow> list_all (\<lambda>c. byte c \<noteq> 13 \<and> byte c \<noteq> 10) s"

lemma one_line_simps [simp]:
  "one_line []" "one_line (c # s) \<longleftrightarrow> byte c \<noteq> 13 \<and> byte c \<noteq> 10 \<and> one_line s"
  "one_line (s @ t) \<longleftrightarrow> one_line s \<and> one_line t"
  by (simp_all add: one_line_def)

lemma one_line_concat: "one_line (concat ss) \<longleftrightarrow> list_all one_line ss"
  by (induction ss) simp_all

lemma one_line_take: "one_line s \<Longrightarrow> one_line (take n s)"
  and one_line_drop: "one_line s \<Longrightarrow> one_line (drop n s)"
  by (auto simp: one_line_def list_all_iff dest: in_set_takeD in_set_dropD)

section \<open>Base64\<close>

definition base64_alphabet :: string where
  "base64_alphabet =
     ''ABCDEFGHIJKLMNOPQRSTUVWXYZabcdefghijklmnopqrstuvwxyz0123456789+/''"

definition base64_char :: "nat \<Rightarrow> char" where
  "base64_char n = base64_alphabet ! (n mod 64)"

fun base64 :: "string \<Rightarrow> string" where
  "base64 [] = []"
| "base64 [a] = [base64_char (byte a div 4), base64_char (byte a * 16), CHR ''='', CHR ''='']"
| "base64 [a, b] =
     [base64_char (byte a div 4), base64_char (byte a * 16 + byte b div 16), base64_char (byte b * 4), CHR ''='']"
| "base64 (a # b # c # cs) =
     base64_char (byte a div 4) # base64_char (byte a * 16 + byte b div 16)
       # base64_char (byte b * 4 + byte c div 64) # base64_char (byte c) # base64 cs"

lemma base64_char_line: "byte (base64_char n) \<noteq> 13 \<and> byte (base64_char n) \<noteq> 10"
proof -
  have "base64_char n \<in> set base64_alphabet"
    unfolding base64_char_def by (rule nth_mem) (simp add: base64_alphabet_def)
  moreover have "one_line base64_alphabet" by (simp add: base64_alphabet_def byte_eval)
  ultimately show ?thesis by (auto simp: one_line_def list_all_iff)
qed

lemma one_line_base64: "one_line (base64 s)"
  by (induction s rule: base64.induct) (simp_all add: base64_char_line byte_eval)

section \<open>Encoded words\<close>

definition mime_plain :: "nat \<Rightarrow> bool" where
  "mime_plain r \<longleftrightarrow> (0x20 \<le> r \<and> r \<le> 0x7E) \<or> r = 9"

definition needs_encoding :: "string \<Rightarrow> bool" where
  "needs_encoding s \<longleftrightarrow> \<not> list_all mime_plain (runes s)"

text \<open>The content of an encoded word has at most 63 bytes, the source of a base64 one 45.\<close>

definition max_content :: nat where
  "max_content = 63"

definition max_base64 :: nat where
  "max_base64 = 45"

definition split_word :: "char \<Rightarrow> string" where
  "split_word e = ''?= =?utf-8?'' @ [e, CHR ''?'']"

definition upper_hex :: "nat \<Rightarrow> char" where
  "upper_hex n = (if n < 10 then chr (48 + n) else chr (55 + n))"

definition q_safe :: "nat \<Rightarrow> bool" where
  "q_safe b \<longleftrightarrow> 0x20 \<le> b \<and> b \<le> 0x7E \<and> b \<noteq> 61 \<and> b \<noteq> 63 \<and> b \<noteq> 95"

definition q_byte :: "char \<Rightarrow> string" where
  "q_byte c =
     (if byte c = 0x20 then ''_'' else if q_safe (byte c) then [c]
      else [CHR ''='', upper_hex (byte c div 16), upper_hex (byte c mod 16)])"

function q_words :: "nat \<Rightarrow> string \<Rightarrow> string" where
  "q_words cur s =
     (if s = [] then []
      else
        let rune_len = (if q_safe (byte (hd s)) then 1 else snd (decode_rune s));
            enc_len = (if q_safe (byte (hd s)) then 1 else 3 * rune_len);
            here = concat (map q_byte (take rune_len s)) in
        if max_content < cur + enc_len
        then split_word CHR ''q'' @ here @ q_words enc_len (drop rune_len s)
        else here @ q_words (cur + enc_len) (drop rune_len s))"
  by pat_completeness auto
termination
  by (relation "measure (\<lambda>(cur, s). length s)") (auto simp: decode_rune_width)

declare q_words.simps [simp del]

text \<open>The runs of runes that go into one base64 word each.\<close>

function b_chunks :: "nat \<Rightarrow> string \<Rightarrow> string \<Rightarrow> string list" where
  "b_chunks cur acc s =
     (if s = [] then [acc]
      else
        let n = snd (decode_rune s) in
        if cur + n \<le> max_base64 then b_chunks (cur + n) (acc @ take n s) (drop n s)
        else acc # b_chunks n (take n s) (drop n s))"
  by pat_completeness auto
termination
  by (relation "measure (\<lambda>(cur, acc, s). length s)") (auto simp: decode_rune_width)

declare b_chunks.simps [simp del]

fun b_words :: "string list \<Rightarrow> string" where
  "b_words [] = []"
| "b_words [x] = base64 x"
| "b_words (x # xs) = base64 x @ split_word CHR ''b'' @ b_words xs"

definition q_encode :: "string \<Rightarrow> string" where
  "q_encode s =
     (if needs_encoding s then ''=?utf-8?q?'' @ q_words 0 s @ ''?='' else s)"

definition b_encode :: "string \<Rightarrow> string" where
  "b_encode s =
     (if needs_encoding s
      then ''=?utf-8?b?''
        @ (if (length s + 2) div 3 * 4 \<le> max_content then base64 s else b_words (b_chunks 0 [] s)) @ ''?=''
      else s)"

section \<open>Encoding keeps the text on one line\<close>

lemma decode_rune_high: "0x80 \<le> byte c \<Longrightarrow> 0x80 \<le> fst (decode_rune (c # cs))"
  by (auto simp: decode_rune.simps(2) Let_def rune_error_def accept_lo_def accept_hi_def is_cont_def not_less
      split: list.splits if_splits)

lemma runes_one_line: "list_all mime_plain (runes s) \<Longrightarrow> one_line s"
proof (induction s)
  case (Cons c cs)
  have "byte c < 0x80"
  proof (rule ccontr)
    assume "\<not> byte c < 0x80"
    then have "0x80 \<le> fst (decode_rune (c # cs))" by (intro decode_rune_high) simp
    with Cons.prems show False by (simp add: runes_def rune_segs_not_Nil mime_plain_def)
  qed
  with Cons show ?case by (auto simp: mime_plain_def)
qed simp

lemma encode_valid_high:
  assumes r: "0x80 \<le> r" "valid_rune r"
  shows "list_all (\<lambda>c. 0x80 \<le> byte c) (encode_valid r)"
proof -
  have "byte (chr (0xC0 + r div 64)) = 0xC0 + r div 64" if "r < 0x800"
    using that by (intro byte_chr) linarith
  moreover have "byte (chr (0xE0 + r div 4096)) = 0xE0 + r div 4096" if "r < 0x10000"
    using that by (intro byte_chr) linarith
  moreover have "byte (chr (0xF0 + r div 262144)) = 0xF0 + r div 262144" if "r < 0x110000"
    using that by (intro byte_chr) linarith
  moreover have "r < 0x110000" using r(2) by (auto simp: valid_rune_def)
  ultimately show ?thesis using r(1) by (simp add: encode_valid_def)
qed

lemma one_line_from_runes: "list_all (\<lambda>r. r \<noteq> 13 \<and> r \<noteq> 10) rs \<Longrightarrow> one_line (from_runes rs)"
proof (induction rs)
  case (Cons r rs)
  let ?r = "if valid_rune r then r else rune_error"
  have "valid_rune ?r" "?r \<noteq> 13" "?r \<noteq> 10" using Cons.prems by (simp_all add: valid_rune_def rune_error_def)
  then have "one_line (encode_valid ?r)"
    using encode_valid_high [of ?r]
    by (cases "?r < 0x80") (auto simp: encode_valid_def one_line_def list_all_iff)
  with Cons show ?case by (simp add: encode_rune_def)
qed simp

lemma upper_hex_line: "n < 16 \<Longrightarrow> byte (upper_hex n) \<noteq> 13 \<and> byte (upper_hex n) \<noteq> 10"
  by (simp add: upper_hex_def)

lemma one_line_q_byte: "one_line (q_byte c)"
proof -
  have "byte c div 16 < 16" using byte_lt [of c] by linarith
  then show ?thesis by (simp add: q_byte_def q_safe_def upper_hex_line byte_eval)
qed

lemma one_line_split_word: "e = CHR ''q'' \<or> e = CHR ''b'' \<Longrightarrow> one_line (split_word e)"
  by (auto simp: split_word_def byte_eval)

lemma one_line_q_words: "one_line (q_words cur s)"
proof (induction cur s rule: q_words.induct)
  case (1 cur s)
  have "one_line (concat (map q_byte t))" for t
    by (simp add: one_line_concat list_all_iff one_line_q_byte)
  with 1 show ?case
    by (subst q_words.simps) (simp add: Let_def one_line_split_word)
qed

lemma one_line_b_words: "one_line (b_words xs)"
  by (induction xs rule: b_words.induct) (simp_all add: one_line_base64 one_line_split_word)

lemma one_line_encode: "one_line (q_encode s)" "one_line (b_encode s)"
  by (auto simp: q_encode_def b_encode_def needs_encoding_def one_line_q_words one_line_base64
      one_line_b_words runes_one_line byte_eval)

lemma q_encode_plain: "\<not> needs_encoding s \<Longrightarrow> q_encode s = s"
  by (simp add: q_encode_def)

end
