(* ===== verification/SmtpMessage.thy ===== *)
theory SmtpMessage
  imports Tracking GoMime
begin

text \<open>
  \<open>internal/infrastructure/smtp/message.go\<close>, the first part: the MIME message of a send, built
  from its fields, the clock and the random source.
\<close>

section \<open>Rendering\<close>

definition CRLF :: string where
  "CRLF = [chr 13, chr 10]"

text \<open>\<open>mail.Address.String\<close> with a display name.\<close>

definition name_printable :: "string \<Rightarrow> bool" where
  "name_printable n = list_all (\<lambda>r. (0x21 \<le> r \<and> r \<le> 0x7E) \<or> r = 0x20 \<or> r = 9) (runes n)"

definition base64_chars :: string where
  "base64_chars = CHR 0x22 # ''#$%&'' @ [CHR 0x27] @ ''(),.:;<>@[]^'' @ [CHR 0x60] @ ''{|}~''"

definition named_address_string :: "string \<Rightarrow> string \<Rightarrow> string" where
  "named_address_string name address =
     (if name = [] then address_string address
      else if name_printable name then quote_string name @ '' '' @ address_string address
      else if list_ex (\<lambda>c. c \<in> set base64_chars) name
      then b_encode name @ '' '' @ address_string address
      else q_encode name @ '' '' @ address_string address)"

text \<open>\<open>Time.Format(time.RFC1123Z)\<close>; January 1 of year 1 was a Monday.\<close>

definition day_names :: "string list" where
  "day_names = [''Mon'', ''Tue'', ''Wed'', ''Thu'', ''Fri'', ''Sat'', ''Sun'']"

definition month_names :: "string list" where
  "month_names = [''Jan'', ''Feb'', ''Mar'', ''Apr'', ''May'', ''Jun'', ''Jul'', ''Aug'', ''Sep'',
     ''Oct'', ''Nov'', ''Dec'']"

definition rfc1123z :: "gtime \<Rightarrow> string" where
  "rfc1123z t =
     (let day = local_secs t div 86400; z = zone_minutes t; n = nat \<bar>z\<bar>
      in case civil_date day of (y, m, d) \<Rightarrow>
           day_names ! nat (day mod 7) @ '', '' @ pad_str 2 (nat d) @ '' '' @ month_names ! (m - 1) @ '' ''
             @ (if y < 0 then CHR ''-'' # pad_str 4 (nat (- y)) else pad_str 4 (nat y)) @ '' '' @ clock_str t @ '' ''
             @ (if z < 0 then CHR ''-'' else CHR ''+'') # pad_str 2 (n div 60) @ pad_str 2 (n mod 60))"

text \<open>\<open>UnixNano\<close>, an \<open>int64\<close>.\<close>

definition unix_nano :: "gtime \<Rightarrow> int64" where
  "unix_nano t = int64 ((t_sec t - 62135596800) * 1000000000 + int (t_nsec t))"

definition time_now :: "world \<Rightarrow> gtime \<times> world" where
  "time_now w = (w_now w (w_ticks w), w\<lparr>w_ticks := Suc (w_ticks w)\<rparr>)"

definition generateBoundary :: "world \<Rightarrow> string \<times> world" where
  "generateBoundary w =
     (case rand_bytes 16 w of (b, w) \<Rightarrow> (''==============='' @ hex_encode b @ ''=='', w))"

definition generateMessageID :: "golib \<Rightarrow> string \<Rightarrow> world \<Rightarrow> string \<times> world" where
  "generateMessageID L from w =
     (case rand_bytes 8 w of (b, w) \<Rightarrow>
        let dmn = (case lib_parse_address L from of
                     None \<Rightarrow> ''localhost''
                   | Some a \<Rightarrow> if contains a ''@'' then split_on CHR ''@'' a ! 1 else ''localhost'')
        in (case time_now w of (t, w) \<Rightarrow>
              (CHR ''<'' # hex_encode b @ ''.'' @ int_str (sint (unix_nano t)) @ CHR ''@'' # dmn @ ''>'', w)))"

definition sanitizeHeaderValue :: "string \<Rightarrow> string" where
  "sanitizeHeaderValue v = filter (\<lambda>c. c \<noteq> chr 10) (filter (\<lambda>c. c \<noteq> chr 13) v)"

definition header :: "string \<Rightarrow> string \<Rightarrow> string" where
  "header name v = name @ '': '' @ v @ CRLF"

definition bare_address :: "golib \<Rightarrow> string \<Rightarrow> string" where
  "bare_address L s = (case lib_parse_address L s of Some a \<Rightarrow> a | None \<Rightarrow> s)"

definition mime_part :: "string \<Rightarrow> string \<Rightarrow> string \<Rightarrow> string" where
  "mime_part boundary content_type content =
     ''--'' @ boundary @ CRLF @ header ''Content-Type'' (content_type @ ''; charset=UTF-8'')
     @ header ''Content-Transfer-Encoding'' ''8bit'' @ CRLF @ content @ CRLF"

text \<open>The fields of a message that \<open>buildEmailMessage\<close> takes as arguments, in its order.\<close>

record message_fields =
  mf_to :: string
  mf_subject :: string
  mf_html :: string
  mf_text :: string
  mf_from :: string
  mf_from_name :: string
  mf_reply_to :: string
  mf_configuration_set :: string
  mf_tracking_id :: string

definition message_headers :: "golib \<Rightarrow> message_fields \<Rightarrow> string \<Rightarrow> string \<Rightarrow> gtime \<Rightarrow> (string \<times> string) list" where
  "message_headers L f messageID boundary now =
     [(''From'', named_address_string (sanitizeHeaderValue (mf_from_name f))
                   (sanitizeHeaderValue (bare_address L (mf_from f)))),
      (''To'', sanitizeHeaderValue (mf_to f))]
     @ (if mf_reply_to f \<noteq> []
        then [(''Reply-To'', address_string (sanitizeHeaderValue (bare_address L (mf_reply_to f))))] else [])
     @ [(''Subject'', q_encode (sanitizeHeaderValue (mf_subject f))),
        (''Date'', rfc1123z now), (''Message-ID'', messageID)]
     @ (if mf_configuration_set f \<noteq> []
        then [(''X-SES-CONFIGURATION-SET'', sanitizeHeaderValue (mf_configuration_set f))] else [])
     @ (if mf_tracking_id f \<noteq> []
        then [(''X-LFX-TRACKING-ID'', sanitizeHeaderValue (mf_tracking_id f))] else [])
     @ [(''MIME-Version'', ''1.0''),
        (''Content-Type'', ''multipart/alternative; boundary='' @ CHR 0x22 # boundary @ [CHR 0x22])]"

definition buildEmailMessage :: "golib \<Rightarrow> message_fields \<Rightarrow> world \<Rightarrow> string \<times> world" where
  "buildEmailMessage L f w =
     (case generateMessageID L (mf_from f) w of (messageID, w) \<Rightarrow>
       (case generateBoundary w of (boundary, w) \<Rightarrow>
         (case time_now w of (now, w) \<Rightarrow>
           (concat (map (\<lambda>(n, v). header n v) (message_headers L f messageID boundary now)) @ CRLF
              @ mime_part boundary ''text/plain'' (mf_text f)
              @ mime_part boundary ''text/html'' (mf_html f)
              @ ''--'' @ boundary @ ''--'' @ CRLF, w))))"

section \<open>Every header is one line\<close>

text \<open>
  What is relied on from \<open>mail.ParseAddress\<close>: the mailbox it returns holds no line break. (It
  accepts a line break as folding white space only, and drops it.)
\<close>

definition addresses_one_line :: "golib \<Rightarrow> bool" where
  "addresses_one_line L \<longleftrightarrow> (\<forall>s a. lib_parse_address L s = Some a \<longrightarrow> one_line a)"

lemma one_line_sanitize [simp]: "one_line (sanitizeHeaderValue v)"
proof -
  have "byte c = 13 \<longleftrightarrow> c = chr 13" "byte c = 10 \<longleftrightarrow> c = chr 10" for c
    using byte_eq_iff [of c "chr 13"] byte_eq_iff [of c "chr 10"] by simp_all
  then show ?thesis by (simp add: sanitizeHeaderValue_def one_line_def list_all_iff)
qed

lemma one_line_nat_str [simp]: "one_line (nat_str n)"
proof (induction n rule: nat_str.induct)
  case (1 n)
  have "byte (chr (48 + m)) = 48 + m" if "m < 10" for m
    using that by (intro byte_chr) simp
  with 1 show ?case by (subst nat_str.simps) simp
qed

lemma one_line_numbers [simp]: "one_line (int_str i)" "one_line (pad_str k n)"
proof -
  have "one_line (replicate k CHR ''0'')" for k by (simp add: one_line_def list_all_iff byte_eval)
  then show "one_line (int_str i)" "one_line (pad_str k n)"
    by (simp_all add: int_str_def pad_str_def byte_eval)
qed

lemma one_line_hex [simp]: "one_line (hex_encode bs)"
  using hex_encode_hex [of bs]
  by (auto simp: one_line_def list_all_iff is_hex_lower_def is_digit_def)

lemma one_line_split: "one_line s \<Longrightarrow> p \<in> set (split_on c s) \<Longrightarrow> one_line p"
proof (induction s arbitrary: p)
  case (Cons x s)
  obtain q qs where "split_on c s = q # qs" by (cases "split_on c s") simp_all
  with Cons show ?case by (auto split: if_splits)
qed simp

lemma one_line_quote_string [simp]: "one_line (quote_string s)"
proof -
  have "list_all (\<lambda>r. r \<noteq> 13 \<and> r \<noteq> 10) (quote_rune r)" for r
    by (simp add: quote_rune_def is_qtext_or_wsp_def)
  then have "list_all (\<lambda>r. r \<noteq> 13 \<and> r \<noteq> 10) (concat (map quote_rune rs))" for rs
    by (induction rs) simp_all
  then show ?thesis unfolding quote_string_def by (intro one_line_from_runes) simp
qed

lemma one_line_address_string: "one_line a \<Longrightarrow> one_line (address_string a)"
  by (auto simp: address_string_def Let_def one_line_take one_line_drop byte_eval split: option.splits)

lemma one_line_named_address: "one_line a \<Longrightarrow> one_line (named_address_string n a)"
  by (simp add: named_address_string_def one_line_address_string one_line_encode byte_eval)

lemma one_line_rfc1123z: "one_line (rfc1123z t)"
proof -
  obtain y m d where c: "civil_date (local_secs t div 86400) = (y, m, d)" by (metis prod_cases3)
  have "list_all one_line day_names" "list_all one_line month_names"
    by (simp_all add: day_names_def month_names_def byte_eval)
  moreover have "day_names ! nat (local_secs t div 86400 mod 7) \<in> set day_names"
    by (rule nth_mem) (simp add: day_names_def nat_less_iff)
  moreover have "month_names ! (m - 1) \<in> set month_names"
    using civil_date [OF c] by (intro nth_mem) (simp add: month_names_def)
  ultimately show ?thesis
    by (simp add: rfc1123z_def clock_str_def Let_def c list_all_iff byte_eval)
qed

lemma one_line_message_id:
  assumes "addresses_one_line L" and "generateMessageID L from w = (s, w')"
  shows "one_line s"
proof -
  have "one_line (split_on CHR ''@'' a ! 1)" if p: "lib_parse_address L from = Some a" "contains a ''@''" for a
  proof -
    have "CHR ''@'' \<in> set a" using p(2) by (rule contains_char)
    then obtain l r where "a = l @ CHR ''@'' # r" by (meson split_list)
    then have "1 < length (split_on CHR ''@'' a)"
      using split_on_not_Nil [of "CHR ''@''" l] split_on_not_Nil [of "CHR ''@''" r]
      by (cases "split_on CHR ''@'' l"; cases "split_on CHR ''@'' r") (simp_all add: split_on_append_sep)
    then show ?thesis
      using assms(1) p(1) by (auto simp: addresses_one_line_def intro: one_line_split nth_mem)
  qed
  with assms(2) show ?thesis
    by (auto simp: generateMessageID_def Let_def byte_eval split: prod.splits option.splits if_splits)
qed

lemma one_line_message_headers:
  assumes "one_line messageID" and "one_line boundary"
  shows "list_all (\<lambda>(n, v). one_line v) (message_headers L f messageID boundary now)"
  using assms
  by (simp add: message_headers_def one_line_named_address one_line_address_string one_line_encode
      one_line_rfc1123z byte_eval)

lemma buildEmailMessage_parts:
  assumes "buildEmailMessage L f w = (msg, w')"
  obtains messageID boundary now w1 w2 where
    "generateMessageID L (mf_from f) w = (messageID, w1)" "generateBoundary w1 = (boundary, w2)"
    "time_now w2 = (now, w')"
    "msg = concat (map (\<lambda>(n, v). header n v) (message_headers L f messageID boundary now)) @ CRLF
       @ mime_part boundary ''text/plain'' (mf_text f) @ mime_part boundary ''text/html'' (mf_html f)
       @ ''--'' @ boundary @ ''--'' @ CRLF"
  using assms by (auto simp: buildEmailMessage_def split: prod.splits)

definition header_names :: "string list" where
  "header_names = [''From'', ''To'', ''Reply-To'', ''Subject'', ''Date'', ''Message-ID'',
     ''X-SES-CONFIGURATION-SET'', ''X-LFX-TRACKING-ID'', ''MIME-Version'', ''Content-Type'']"

text \<open>
  C20: no field of a request or of the configuration can add a header to the mail or end the
  header block early: the message starts with the headers of the code, each at most once and in its
  order, each of them on one line, and the blank line follows.
\<close>

theorem message_headers_one_line:
  assumes "addresses_one_line L" and "buildEmailMessage L f w = (msg, w')"
  shows "\<exists>hs body. msg = concat (map (\<lambda>(n, v). header n v) hs) @ CRLF @ body
     \<and> list_all (\<lambda>(n, v). one_line v) hs \<and> subseq (map fst hs) header_names
     \<and> (''To'', sanitizeHeaderValue (mf_to f)) \<in> set hs"
proof -
  obtain messageID boundary now w1 w2 where p: "generateMessageID L (mf_from f) w = (messageID, w1)"
      "generateBoundary w1 = (boundary, w2)"
      "msg = concat (map (\<lambda>(n, v). header n v) (message_headers L f messageID boundary now)) @ CRLF
         @ mime_part boundary ''text/plain'' (mf_text f) @ mime_part boundary ''text/html'' (mf_html f)
         @ ''--'' @ boundary @ ''--'' @ CRLF"
    using buildEmailMessage_parts [OF assms(2)] by metis
  have "one_line boundary"
    using p(2) by (auto simp: generateBoundary_def byte_eval split: prod.splits)
  then have "list_all (\<lambda>(n, v). one_line v) (message_headers L f messageID boundary now)"
    by (rule one_line_message_headers [OF one_line_message_id [OF assms(1) p(1)]])
  moreover have "subseq (map fst (message_headers L f messageID boundary now)) header_names"
    by (simp add: message_headers_def header_names_def)
  moreover have "(''To'', sanitizeHeaderValue (mf_to f)) \<in> set (message_headers L f messageID boundary now)"
    by (simp add: message_headers_def)
  ultimately show ?thesis using p(3) by blast
qed

definition strict_lib :: golib where
  "strict_lib = example_lib\<lparr>lib_parse_address := \<lambda>s. if one_line s then Some s else None\<rparr>"

definition ex_fields :: message_fields where
  "ex_fields = \<lparr>mf_to = ''a@b.org'' @ CRLF @ ''Bcc: x@y.org'', mf_subject = ''s'' @ CRLF @ CRLF, mf_html = ''<p/>'',
     mf_text = ''t'', mf_from = ''no-reply@b.org'', mf_from_name = ''LFX'', mf_reply_to = [],
     mf_configuration_set = [], mf_tracking_id = uuid0\<rparr>"

lemma message_headers_one_line_witness:
  "\<exists>hs body. fst (buildEmailMessage strict_lib ex_fields empty_world)
       = concat (map (\<lambda>(n, v). header n v) hs) @ CRLF @ body
     \<and> list_all (\<lambda>(n, v). one_line v) hs \<and> subseq (map fst hs) header_names
     \<and> (''To'', ''a@b.orgBcc: x@y.org'') \<in> set hs"
proof -
  have "addresses_one_line strict_lib" by (simp add: addresses_one_line_def strict_lib_def)
  from message_headers_one_line [OF this surjective_pairing, of ex_fields empty_world]
  show ?thesis by (simp add: ex_fields_def sanitizeHeaderValue_def CRLF_def chr_eval)
qed

section \<open>What a message depends on\<close>

text \<open>Building a message only reads the clock and draws random bytes.\<close>

lemma build_frame:
  assumes "buildEmailMessage L f w = (msg, w')"
  shows "w' = w\<lparr>w_ticks := w_ticks w', w_draws := w_draws w'\<rparr>"
proof -
  obtain messageID boundary now w1 w2 where "generateMessageID L (mf_from f) w = (messageID, w1)"
      "generateBoundary w1 = (boundary, w2)" "time_now w2 = (now, w')"
    using buildEmailMessage_parts [OF assms] by metis
  then have "w1 = w\<lparr>w_draws := w_draws w + 8, w_ticks := Suc (w_ticks w)\<rparr>"
    "w2 = w1\<lparr>w_draws := w_draws w1 + 16\<rparr>" "w' = w2\<lparr>w_ticks := Suc (w_ticks w2)\<rparr>"
    by (auto simp: generateMessageID_def generateBoundary_def rand_bytes_def time_now_def Let_def)
  then show ?thesis by simp
qed

text \<open>Nor does it look at random bytes that were drawn before.\<close>

definition same_draws :: "(world \<Rightarrow> 'a \<times> world) \<Rightarrow> bool" where
  "same_draws f \<longleftrightarrow>
     (\<forall>w r x w'. (\<forall>i \<ge> w_draws w. r i = w_rand w i) \<longrightarrow> f w = (x, w') \<longrightarrow>
        f (w\<lparr>w_rand := r\<rparr>) = (x, w'\<lparr>w_rand := r\<rparr>) \<and> w_draws w \<le> w_draws w' \<and> w_rand w' = w_rand w)"

lemma same_drawsD:
  assumes "same_draws f" and "f w = (x, w')" and "\<forall>i \<ge> w_draws w. r i = w_rand w i"
  shows "f (w\<lparr>w_rand := r\<rparr>) = (x, w'\<lparr>w_rand := r\<rparr>)" and "\<forall>i \<ge> w_draws w'. r i = w_rand w' i"
  using assms(1) [unfolded same_draws_def, THEN spec, of w, THEN spec, of r, THEN spec, of x, THEN spec, of w']
    assms(2,3) by auto

lemma same_draws_steps:
  "same_draws (rand_bytes n)" "same_draws time_now" "same_draws generateBoundary" "same_draws (generateMessageID L s)"
  by (auto simp: same_draws_def rand_bytes_def time_now_def generateBoundary_def generateMessageID_def Let_def
      intro!: arg_cong [of _ _ hex_encode])

lemma build_same:
  assumes "buildEmailMessage L f w = (msg, w')" and r: "\<forall>i \<ge> w_draws w. r i = w_rand w i"
  shows "buildEmailMessage L f (w\<lparr>w_rand := r\<rparr>) = (msg, w'\<lparr>w_rand := r\<rparr>)"
proof -
  obtain messageID boundary now w1 w2 where p: "generateMessageID L (mf_from f) w = (messageID, w1)"
      "generateBoundary w1 = (boundary, w2)" "time_now w2 = (now, w')"
      "msg = concat (map (\<lambda>(n, v). header n v) (message_headers L f messageID boundary now)) @ CRLF
         @ mime_part boundary ''text/plain'' (mf_text f) @ mime_part boundary ''text/html'' (mf_html f)
         @ ''--'' @ boundary @ ''--'' @ CRLF"
    using buildEmailMessage_parts [OF assms(1)] by metis
  note m = same_drawsD [OF same_draws_steps(4) p(1) r]
  note b = same_drawsD [OF same_draws_steps(3) p(2) m(2)]
  note t = same_drawsD [OF same_draws_steps(2) p(3) b(2)]
  show ?thesis unfolding buildEmailMessage_def m(1) b(1) t(1) prod.case p(4) by simp
qed

end
