(* ===== verification/Redaction.thy ===== *)
theory Redaction
  imports GoStrings
begin

text \<open>
  \<open>pkg/redaction/redaction.go\<close>: what is shown of a sensitive string in the logs, and the
  bound on how much of it a redacted form depends on.
\<close>

section \<open>The functions\<close>

definition Redact :: "string \<Rightarrow> string" where
  "Redact sensitive =
     (if length sensitive = 0 then []
      else let rs = runes sensitive; n = length rs in
        if n \<le> 2 then ''**''
        else if n \<le> 5 then from_runes [rs ! 0] @ ''****''
        else from_runes (take 3 rs) @ ''****'')"

definition RedactGroupHandle :: "string \<Rightarrow> string" where
  "RedactGroupHandle handle =
     (if length handle \<le> 12 then Redact handle else take 12 handle @ ''****'')"

definition RedactEmail :: "string \<Rightarrow> string" where
  "RedactEmail email =
     (if email = [] then []
      else (case split_on CHR ''@'' email of
              [p, d] \<Rightarrow> Redact p @ CHR ''@'' # d
            | _ \<Rightarrow> Redact email))"

section \<open>What a redacted string reveals\<close>

lemma Redact_Nil [simp]: "Redact [] = []"
  by (simp add: Redact_def)

lemma Redact_not_Nil: "s \<noteq> [] \<Longrightarrow> Redact s \<noteq> []"
  by (simp add: Redact_def Let_def)

text \<open>
  The abstract form: the runes that are kept, at most three and never more than half of the
  string, and a mask.
\<close>

definition kept_runes :: "string \<Rightarrow> nat" where
  "kept_runes s = (if rune_count s \<le> 2 then 0 else if rune_count s \<le> 5 then 1 else 3)"

definition redact_mask :: "string \<Rightarrow> string" where
  "redact_mask s =
     (if rune_count s = 0 then [] else if rune_count s \<le> 2 then ''**'' else ''****'')"

lemma rune_count_0 [simp]: "rune_count s = 0 \<longleftrightarrow> s = []"
  by (simp add: rune_count_def)

lemma Redact_kept: "Redact s = from_runes (take (kept_runes s) (runes s)) @ redact_mask s"
proof (cases "s = []")
  case False
  then have "runes s \<noteq> []" by simp
  then show ?thesis using False
    by (cases "runes s")
      (auto simp: Redact_def kept_runes_def redact_mask_def rune_count_def Let_def)
qed (simp add: kept_runes_def redact_mask_def)

lemma kept_runes_half: "2 * kept_runes s \<le> rune_count s"
  by (simp add: kept_runes_def)

lemma length_from_runes_le: "length (from_runes rs) \<le> 4 * length rs"
proof (induction rs)
  case (Cons r rs)
  then show ?case using length_encode_rune_le [of r] by simp
qed simp

lemma length_Redact_le: "length (Redact s) \<le> 16"
proof -
  have "length (from_runes (take (kept_runes s) (runes s))) \<le> 4 * kept_runes s"
    using length_from_runes_le [of "take (kept_runes s) (runes s)"] by simp
  moreover have "kept_runes s \<le> 3" by (simp add: kept_runes_def)
  ultimately show ?thesis by (simp add: Redact_kept redact_mask_def)
qed

text \<open>Two strings that agree on the first three runes cannot be told apart.\<close>

lemma Redact_indistinguishable:
  assumes "take 3 (runes s) = take 3 (runes t)" and "5 < rune_count s" and "5 < rune_count t"
  shows "Redact s = Redact t"
  using assms by (auto simp: Redact_kept kept_runes_def redact_mask_def)

lemma RedactGroupHandle_prefix:
  "12 < length h \<Longrightarrow> RedactGroupHandle h = take 12 h @ ''****''"
  by (simp add: RedactGroupHandle_def)

lemma RedactEmail_mailbox:
  "CHR ''@'' \<notin> set l \<Longrightarrow> CHR ''@'' \<notin> set d \<Longrightarrow>
     RedactEmail (l @ CHR ''@'' # d) = Redact l @ CHR ''@'' # d"
  by (simp add: RedactEmail_def split_on_append_sep split_on_no_sep)

lemma RedactEmail_other:
  assumes "\<nexists>l d. e = l @ CHR ''@'' # d \<and> CHR ''@'' \<notin> set l \<and> CHR ''@'' \<notin> set d"
  shows "RedactEmail e = Redact e"
proof -
  have "split_on CHR ''@'' e \<noteq> [p, d]" for p d
    using assms split_on_two_iff [of "CHR ''@''" e p d] by blast
  then show ?thesis by (auto simp: RedactEmail_def split: list.splits)
qed

lemma RedactEmail_test:
  "RedactEmail ''user@example.com'' = ''u****@example.com''"
  "Redact ''alice'' = ''a****''" "Redact ''secret-value'' = ''sec****''" "Redact ''ab'' = ''**''"
  by (simp_all add: RedactEmail_def Redact_def encode_rune_ascii go_defs)

section \<open>Properties\<close>


end
