(* ===== verification/SmtpRedact.thy ===== *)
theory SmtpRedact
  imports Redaction
begin

text \<open>
  \<open>internal/infrastructure/smtp/message.go\<close>, the last part: the redaction of envelope addresses
  in the error texts of the mail server, and its equivalence with a reference that reads the
  text once from left to right.
\<close>

section \<open>Redaction of server errors\<close>

text \<open>
  \<open>equalFoldRune\<close> follows \<open>unicode.SimpleFold\<close> from \<open>a\<close> until it is back at \<open>a\<close>. An orbit has
  at most as many members as there are runes, which is the fuel.
\<close>

definition rune_count_max :: nat where
  "rune_count_max = 0x110000"

function fold_reaches :: "(nat \<Rightarrow> nat) \<Rightarrow> nat \<Rightarrow> nat \<Rightarrow> nat \<Rightarrow> nat \<Rightarrow> bool" where
  "fold_reaches sfold n a r b =
     (if n = 0 \<or> r = a then False else if r = b then True
      else fold_reaches sfold (n - 1) a (sfold r) b)"
  by pat_completeness auto
termination by (relation "measure (\<lambda>(sfold, n, a, r, b). n)") auto

declare fold_reaches.simps [simp del]

definition simple_fold :: "unicode \<Rightarrow> nat \<Rightarrow> nat" where
  "simple_fold U = u_fold U"

definition equalFoldRune :: "unicode \<Rightarrow> nat \<Rightarrow> nat \<Rightarrow> bool" where
  "equalFoldRune U a b =
     (if a = b then True else fold_reaches (simple_fold U) rune_count_max a (simple_fold U a) b)"

fun fold_prefix :: "unicode \<Rightarrow> string \<Rightarrow> nat \<Rightarrow> nat list \<Rightarrow> nat" where
  "fold_prefix U s i [] = i"
| "fold_prefix U s i (pr # prs) =
     (if length s \<le> i then 0
      else (case decode_rune (drop i s) of (sr, width) \<Rightarrow>
        if \<not> equalFoldRune U sr pr then 0 else fold_prefix U s (i + width) prs))"

definition foldPrefixLen :: "unicode \<Rightarrow> string \<Rightarrow> string \<Rightarrow> nat" where
  "foldPrefixLen U s p = fold_prefix U s 0 (runes p)"

fun matchAddressAt :: "unicode \<Rightarrow> string \<Rightarrow> string list \<Rightarrow> string \<times> nat" where
  "matchAddressAt U s [] = ([], 0)"
| "matchAddressAt U s (a # as) =
     (let n = foldPrefixLen U s a in if 0 < n then (a, n) else matchAddressAt U s as)"

text \<open>The addresses that can occur, without case-insensitive duplicates, longest first.\<close>

fun unique_addresses :: "unicode \<Rightarrow> string \<Rightarrow> string list \<Rightarrow> string list \<Rightarrow> string list" where
  "unique_addresses U msg uniq [] = uniq"
| "unique_addresses U msg uniq (addr # addrs) =
     (if addr = [] \<or> length msg < rune_count addr then unique_addresses U msg uniq addrs
      else if list_ex (\<lambda>u. equal_fold U u addr) uniq then unique_addresses U msg uniq addrs
      else unique_addresses U msg (uniq @ [addr]) addrs)"

definition longest_first :: "string list \<Rightarrow> string list" where
  "longest_first = sort_key (\<lambda>a. - int (rune_count a))"

text \<open>The copying loop: \<open>b\<close> is the output so far, \<open>msg[last:i]\<close> is not copied yet.\<close>

function redact_loop ::
    "unicode \<Rightarrow> string \<Rightarrow> string list \<Rightarrow> string \<Rightarrow> bool \<Rightarrow> nat \<Rightarrow> nat \<Rightarrow> string \<times> bool \<times> nat" where
  "redact_loop U msg addrs b matched done_to i =
     (if length msg \<le> i then (b, matched, done_to)
      else
        (case matchAddressAt U (drop i msg) addrs of (addr, n) \<Rightarrow>
           if 0 < n
           then redact_loop U msg addrs (b @ take (i - done_to) (drop done_to msg) @ RedactEmail addr)
                  True (i + n) (i + n)
           else redact_loop U msg addrs b matched done_to (i + snd (decode_rune (drop i msg)))))"
  by pat_completeness auto
termination
  by (relation "measure (\<lambda>(U, msg, addrs, b, matched, d, i). length msg - i)")
    (auto simp: decode_rune_width not_le intro!: diff_less_mono2)

declare redact_loop.simps [simp del]

definition redactAddressesInError :: "unicode \<Rightarrow> string \<Rightarrow> string list \<Rightarrow> string" where
  "redactAddressesInError U msg addrs =
     (let uniq = unique_addresses U msg [] addrs in
      if uniq = [] then msg
      else (case redact_loop U msg (longest_first uniq) [] False 0 0 of (b, matched, d) \<Rightarrow>
              if matched then b @ drop d msg else msg))"

section \<open>The reference\<close>

text \<open>
  At each position: the redacted form of the first address that matches there, or the next
  rune as it is.
\<close>

function redacted :: "unicode \<Rightarrow> string list \<Rightarrow> string \<Rightarrow> string" where
  "redacted U addrs s =
     (if s = [] then []
      else
        let (addr, n) = matchAddressAt U s addrs; width = snd (decode_rune s) in
        if 0 < n then RedactEmail addr @ redacted U addrs (drop n s)
        else take width s @ redacted U addrs (drop width s))"
  by pat_completeness auto
termination
  by (relation "measure (\<lambda>(U, addrs, s). length s)") (auto simp: decode_rune_width)

declare redacted.simps [simp del]

lemma redacted_Nil [simp]: "redacted U addrs [] = []"
  by (simp add: redacted.simps)

lemma redact_loop_redacted:
  "redact_loop U msg addrs b m d i = (b', m', d') \<Longrightarrow> d \<le> i \<Longrightarrow>
     b' @ drop d' msg = b @ take (i - d) (drop d msg) @ redacted U addrs (drop i msg)
     \<and> (\<not> m' \<longrightarrow> \<not> m \<and> b' = b \<and> d' = d)"
proof (induction U msg addrs b m d i rule: redact_loop.induct)
  case (1 U msg addrs b m d i)
  note unf = redact_loop.simps [of U msg addrs b m d i]
  obtain addr n where a: "matchAddressAt U (drop i msg) addrs = (addr, n)"
    by (cases "matchAddressAt U (drop i msg) addrs")
  have cut: "drop d msg = take (i - d) (drop d msg) @ drop i msg"
    using "1.prems"(2) append_take_drop_id [of "i - d" "drop d msg"] by simp
  consider "length msg \<le> i" | (found) "i < length msg" "0 < n" | (none) "i < length msg" "n = 0" by linarith
  then show ?case
  proof cases
    case 1
    with "1.prems" cut show ?thesis by (simp add: unf)
  next
    case found
    let ?b = "b @ take (i - d) (drop d msg) @ RedactEmail addr"
    have r: "redact_loop U msg addrs ?b True (i + n) (i + n) = (b', m', d')"
      using "1.prems"(1) a found by (simp add: unf)
    have "redacted U addrs (drop i msg) = RedactEmail addr @ redacted U addrs (drop (i + n) msg)"
      using a found by (subst redacted.simps) (simp add: add.commute)
    then show ?thesis using "1.IH"(1) [OF _ a [symmetric] found(2) r] found by simp
  next
    case none
    let ?w = "snd (decode_rune (drop i msg))"
    have r: "redact_loop U msg addrs b m d (i + ?w) = (b', m', d')"
      using "1.prems"(1) a none by (simp add: unf)
    have "redacted U addrs (drop i msg) = take ?w (drop i msg) @ redacted U addrs (drop (i + ?w) msg)"
      using a none by (subst redacted.simps) (simp add: Let_def add.commute)
    moreover have "take (i + ?w - d) (drop d msg) = take (i - d) (drop d msg) @ take ?w (drop i msg)"
      using "1.prems"(2) take_add [of "i - d" ?w "drop d msg"] by simp
    ultimately show ?thesis using "1.IH"(2) [OF _ a [symmetric] _ r] none "1.prems"(2) by simp
  qed
qed

text \<open>
  C21: the single pass over the server's text, with its copy position and match flag, computes the
  reference: every position at which an address occurs, up to Unicode case folding, is replaced by
  the redacted form of the longest such address, and everything else is kept.
\<close>

theorem redactAddressesInError_reference:
  "redactAddressesInError U msg addrs =
     (let uniq = unique_addresses U msg [] addrs in
      if uniq = [] then msg else redacted U (longest_first uniq) msg)"
proof -
  obtain b m d where l: "redact_loop U msg (longest_first (unique_addresses U msg [] addrs)) [] False 0 0 = (b, m, d)"
    by (metis prod_cases3)
  show ?thesis using redact_loop_redacted [OF l] l
    by (auto simp: redactAddressesInError_def Let_def)
qed

lemma matchAddressAt_first:
  "matchAddressAt U s addrs = (a, n) \<Longrightarrow> 0 < n \<Longrightarrow>
     \<exists>xs ys. addrs = xs @ a # ys \<and> n = foldPrefixLen U s a \<and> (\<forall>x \<in> set xs. foldPrefixLen U s x = 0)"
proof (induction U s addrs rule: matchAddressAt.induct)
  case (2 U s a' as)
  show ?case
  proof (cases "0 < foldPrefixLen U s a'")
    case True
    with "2.prems" show ?thesis by (intro exI [of _ "[]"] exI [of _ as]) auto
  next
    case False
    with 2 obtain xs ys where "as = xs @ a # ys" "n = foldPrefixLen U s a" "\<forall>x \<in> set xs. foldPrefixLen U s x = 0"
      by (auto simp: Let_def)
    with False show ?thesis by (intro exI [of _ "a' # xs"] exI [of _ ys]) simp
  qed
qed simp

lemma matchAddressAt_some:
  "x \<in> set addrs \<Longrightarrow> 0 < foldPrefixLen U s x \<Longrightarrow> 0 < snd (matchAddressAt U s addrs)"
  by (induction U s addrs rule: matchAddressAt.induct) (auto simp: Let_def)

lemma longest_first_ranked:
  assumes "longest_first as = xs @ a # ys" and "y \<in> set ys"
  shows "rune_count y \<le> rune_count a"
proof -
  have "sorted (map (\<lambda>a. - int (rune_count a)) (xs @ a # ys))"
    using assms(1) unfolding longest_first_def by (metis sorted_sort_key)
  with assms(2) show ?thesis by (auto simp: sorted_append)
qed

text \<open>
  C22: where addresses occur, the longest one that occurs there is redacted as a whole, so an
  address that is part of another cannot leave the rest of the longer one readable.
\<close>

theorem longest_address_redacted:
  assumes "x \<in> set addrs" and "0 < foldPrefixLen U s x" and "s \<noteq> []"
  shows "\<exists>a n. redacted U (longest_first addrs) s = RedactEmail a @ redacted U (longest_first addrs) (drop n s)
     \<and> a \<in> set addrs \<and> n = foldPrefixLen U s a \<and> 0 < n
     \<and> (\<forall>y \<in> set addrs. 0 < foldPrefixLen U s y \<longrightarrow> rune_count y \<le> rune_count a)"
proof -
  have st: "set (longest_first addrs) = set addrs" by (simp add: longest_first_def)
  obtain a n where m: "matchAddressAt U s (longest_first addrs) = (a, n)"
    by (cases "matchAddressAt U s (longest_first addrs)")
  have n: "0 < n" using matchAddressAt_some [of x "longest_first addrs" U s] assms m st by simp
  obtain xs ys where xy: "longest_first addrs = xs @ a # ys" "n = foldPrefixLen U s a"
      "\<forall>x \<in> set xs. foldPrefixLen U s x = 0"
    using matchAddressAt_first [OF m n] by blast
  have "rune_count y \<le> rune_count a" if "y \<in> set addrs" "0 < foldPrefixLen U s y" for y
  proof -
    have "y = a \<or> y \<in> set ys" using that xy st by (metis Un_iff less_irrefl set_ConsD set_append)
    then show ?thesis using longest_first_ranked [OF xy(1)] by auto
  qed
  moreover have "redacted U (longest_first addrs) s = RedactEmail a @ redacted U (longest_first addrs) (drop n s)"
    using m n assms(3) by (subst redacted.simps) simp
  moreover have "a \<in> set addrs" using xy(1) st by (metis in_set_conv_decomp)
  ultimately show ?thesis using xy(2) n by blast
qed

section \<open>The walk around an orbit\<close>

lemma fold_reaches_iff:
  "fold_reaches f n a r b \<longleftrightarrow> (\<exists>j < n. (f ^^ j) r = b \<and> (\<forall>i \<le> j. (f ^^ i) r \<noteq> a))"
proof (induction n arbitrary: r)
  case 0
  then show ?case by (simp add: fold_reaches.simps)
next
  case (Suc n)
  show ?case
  proof (cases "r = a \<or> r = b")
    case True
    then show ?thesis
      by (subst fold_reaches.simps) (auto intro: exI [of _ 0] dest: spec [of _ 0])
  next
    case False
    have "(\<exists>j < n. (f ^^ j) (f r) = b \<and> (\<forall>i \<le> j. (f ^^ i) (f r) \<noteq> a))
        \<longleftrightarrow> (\<exists>j < Suc n. (f ^^ j) r = b \<and> (\<forall>i \<le> j. (f ^^ i) r \<noteq> a))" (is "?l \<longleftrightarrow> ?r")
    proof
      assume ?l
      then obtain j where j: "j < n" "(f ^^ j) (f r) = b" "\<forall>i \<le> j. (f ^^ i) (f r) \<noteq> a" by blast
      have "(f ^^ i) r \<noteq> a" if "i \<le> Suc j" for i
        using that j(3) False by (cases i) (simp_all add: funpow_swap1)
      with j show ?r by (intro exI [of _ "Suc j"]) (simp add: funpow_swap1)
    next
      assume ?r
      then obtain j where j: "j < Suc n" "(f ^^ j) r = b" "\<forall>i \<le> j. (f ^^ i) r \<noteq> a" by blast
      with False obtain j' where "j = Suc j'" by (cases j) auto
      moreover have "(f ^^ i) (f r) \<noteq> a" if "i \<le> j'" for i
        using j(3) that \<open>j = Suc j'\<close> by (metis Suc_le_mono funpow_swap1 funpow.simps(2) o_apply)
      ultimately show ?l using j by (intro exI [of _ j']) (simp add: funpow_swap1)
    qed
    with Suc False show ?thesis by (subst fold_reaches.simps) simp
  qed
qed

lemma least_period:
  assumes "(f ^^ k) a = a" and "0 < k"
  obtains p where "0 < p" "p \<le> k" "(f ^^ p) a = a" "\<And>i. 0 < i \<Longrightarrow> i < p \<Longrightarrow> (f ^^ i) a \<noteq> a"
proof -
  let ?P = "\<lambda>p. 0 < p \<and> (f ^^ p) a = a"
  have "?P (LEAST p. ?P p)" "(LEAST p. ?P p) \<le> k"
    using assms LeastI [of ?P k] Least_le [of ?P k] by auto
  then show thesis using that [of "LEAST p. ?P p"] not_less_Least [of _ ?P] by blast
qed

text \<open>
  The loop of \<open>equalFoldRune\<close> ends and is right whenever Unicode's folding returns to the rune
  it started from, as its orbits do: two runes are equal under case folding exactly when one lies
  on the orbit of the other.
\<close>

lemma equalFoldRune_orbit:
  assumes "((u_fold U) ^^ k) a = a" and "0 < k" and "k \<le> 0x110000"
  shows "equalFoldRune U a b \<longleftrightarrow> (\<exists>j. ((u_fold U) ^^ j) a = b)"
proof (cases "a = b")
  case True
  then show ?thesis by (auto simp: equalFoldRune_def intro: exI [of _ 0])
next
  case False
  obtain p where p: "0 < p" "p \<le> k" "((u_fold U) ^^ p) a = a"
    "\<And>i. 0 < i \<Longrightarrow> i < p \<Longrightarrow> ((u_fold U) ^^ i) a \<noteq> a"
    using least_period [OF assms(1,2)] by metis
  have eq: "equalFoldRune U a b \<longleftrightarrow> (\<exists>j < 0x110000. ((u_fold U) ^^ Suc j) a = b
      \<and> (\<forall>i \<le> j. ((u_fold U) ^^ Suc i) a \<noteq> a))"
    using False
    by (simp only: equalFoldRune_def simple_fold_def rune_count_max_def fold_reaches_iff if_False
        funpow_Suc_right o_apply)
  show ?thesis
  proof
    assume "\<exists>j. ((u_fold U) ^^ j) a = b"
    then obtain j where "((u_fold U) ^^ j) a = b" ..
    then have j: "((u_fold U) ^^ (j mod p)) a = b" using funpow_mod_eq [OF p(3), of j] by simp
    with False have "0 < j mod p" by (cases "j mod p") auto
    then obtain i where i: "j mod p = Suc i" by (cases "j mod p") auto
    have "Suc i < p" using i p(1) by (metis mod_less_divisor)
    have "((u_fold U) ^^ Suc m) a \<noteq> a" if "m \<le> i" for m
      using p(4) [of "Suc m"] that \<open>Suc i < p\<close> by (simp del: funpow.simps)
    then have "\<forall>m \<le> i. ((u_fold U) ^^ Suc m) a \<noteq> a" by blast
    moreover have "i < 0x110000" using \<open>Suc i < p\<close> p(2) assms(3) by linarith
    ultimately show "equalFoldRune U a b" unfolding eq using j i by metis
  next
    assume "equalFoldRune U a b"
    then show "\<exists>j. ((u_fold U) ^^ j) a = b" unfolding eq by metis
  qed
qed

text \<open>K, k and the Kelvin sign are one orbit.\<close>

definition kelvin :: unicode where
  "kelvin = \<lparr>u_lower = id, u_upper = id,
     u_fold = (\<lambda>r. if r = 75 then 107 else if r = 107 then 0x212A else if r = 0x212A then 75 else r)\<rparr>"

definition ex_addresses :: "string list" where
  "ex_addresses = [''a@x.co'', ''ba@x.co'']"

lemma longest_address_redacted_witness:
  "\<exists>a n. redacted kelvin (longest_first ex_addresses) ''ba@x.co rejected''
       = RedactEmail a @ redacted kelvin (longest_first ex_addresses) (drop n ''ba@x.co rejected'')
     \<and> a \<in> set ex_addresses \<and> n = foldPrefixLen kelvin ''ba@x.co rejected'' a \<and> 0 < n
     \<and> (\<forall>y \<in> set ex_addresses. 0 < foldPrefixLen kelvin ''ba@x.co rejected'' y \<longrightarrow> rune_count y \<le> rune_count a)"
proof -
  have "0 < foldPrefixLen kelvin ''ba@x.co rejected'' ''ba@x.co''"
    by (simp add: foldPrefixLen_def equalFoldRune_def byte_eval)
  then show ?thesis
    by (intro longest_address_redacted [of "''ba@x.co''"]) (simp_all add: ex_addresses_def)
qed

end
