(* ===== verification/SendHandler.thy ===== *)
theory SendHandler
  imports Tracking
begin

text \<open>
  \<open>internal/service/send_email_handler.go\<close> and the interface \<open>domain.Sender\<close>: the handling of a
  send request, from the decoded payload to the one reply. The mail sender and the tracking
  store are the two interfaces the handler is built on.
\<close>

section \<open>The sender interface\<close>

text \<open>\<open>Send\<close> returns the identifiers of the e-mail and of its group, or an error.\<close>

type_synonym sender = "SendEmailRequest \<Rightarrow> world \<Rightarrow> (string \<times> string \<times> goerr option) \<times> world"

section \<open>Checks and replies\<close>

definition replyError :: "string \<Rightarrow> world \<Rightarrow> world" where
  "replyError reason w = respond (marshal_error_response reason) w"

definition oversizedFieldReason :: "golib \<Rightarrow> SendEmailRequest \<Rightarrow> string" where
  "oversizedFieldReason L req =
     (if CheckAddressLength L (req_to req) \<noteq> None then ''to address too long''
      else if CheckAddressLength L (req_from req) \<noteq> None then ''from address too long''
      else if CheckAddressLength L (req_reply_to req) \<noteq> None then ''reply_to address too long''
      else if MaxSubjectLength < length (req_subject req) then ''subject too long''
      else if MaxFromDisplayNameLength < length (req_from_display_name req)
        then ''from_display_name too long''
      else [])"

text \<open>The domain written to the log for a refused address.\<close>

definition domainFromAddress :: "golib \<Rightarrow> string \<Rightarrow> string" where
  "domainFromAddress L addr =
     (case lib_parse_address L addr of
        None \<Rightarrow> addr
      | Some a \<Rightarrow>
          (case last_index CHR ''@'' a of
             None \<Rightarrow> addr
           | Some at \<Rightarrow> to_lower (lib_unicode L) (drop (at + 1) a)))"

section \<open>Recording a sent e-mail\<close>

definition write_record ::
    "('a, 'c) TrackingStore \<Rightarrow> string \<Rightarrow> string \<Rightarrow> SendEmailRequest \<Rightarrow> world \<Rightarrow> world" where
  "write_record T emailID groupID req w =
     (case now_utc w of (now, w) \<Rightarrow>
        snd (WriteRecord T emailID
          (zero_record\<lparr>GroupID := groupID, EmailID := emailID, To := req_to req,
             Subject := req_subject req, SentAt := now\<rparr>) w))"

definition writeTrackingRecords ::
    "('a, 'c) TrackingStore \<Rightarrow> string \<Rightarrow> string \<Rightarrow> bool \<Rightarrow> SendEmailRequest \<Rightarrow> world \<Rightarrow> bool \<times> world" where
  "writeTrackingRecords T emailID groupID newGroup req w =
     (if groupID \<noteq> []
      then
        (case AppendToGroup T groupID emailID w of
           (Some e, w) \<Rightarrow>
             if \<not> errors_is e ErrTrackingUnavailable \<and> errors_is e ErrGroupFull then (False, w)
             else if newGroup then (False, w)
             else (True, write_record T emailID groupID req w)
         | (None, w) \<Rightarrow> (True, write_record T emailID groupID req w))
      else (True, write_record T emailID groupID req w))"

section \<open>The handler\<close>

text \<open>The steps after the checks on the payload: the group, the send, the records, the reply.\<close>

definition deliver_request ::
    "('a, 'c) TrackingStore \<Rightarrow> sender \<Rightarrow> SendEmailRequest \<Rightarrow> world \<Rightarrow> world" where
  "deliver_request T send req w =
     (case send req w of
        ((_, _, Some e), w) \<Rightarrow>
          if errors_is e ErrSendThrottled then replyError ''sending throttled'' w
          else replyError ''email delivery failed'' w
      | ((emailID, groupID, None), w) \<Rightarrow>
          if emailID \<noteq> []
          then
            (case writeTrackingRecords T emailID groupID (req_group_id req = []) req w of
               (recorded, w) \<Rightarrow>
                 respond (marshal_send_response
                   \<lparr>resp_email_id = emailID, resp_group_id = (if recorded then groupID else [])\<rparr>) w)
          else
            respond (marshal_send_response \<lparr>resp_email_id = emailID, resp_group_id = groupID\<rparr>) w)"

definition check_group ::
    "('a, 'c) TrackingStore \<Rightarrow> SendEmailRequest \<Rightarrow> world \<Rightarrow> string option \<times> world" where
  "check_group T req w =
     (if req_group_id req \<noteq> []
      then
        (case GroupExists T (req_group_id req) w of
           ((exists, err), w) \<Rightarrow>
             (if (case err of None \<Rightarrow> False | Some e \<Rightarrow> errors_is e ErrGroupFull) then Some ''group is full''
              else if err \<noteq> None then Some ''internal error''
              else if \<not> exists then Some ''invalid group_id''
              else None, w))
      else (None, w))"

definition address_reply :: "string \<Rightarrow> string \<Rightarrow> goerr \<Rightarrow> string" where
  "address_reply malformed forbidden e =
     (if errors_is e ErrAddressMalformed then malformed else forbidden)"

definition SendHandleData ::
    "('a, 'c) TrackingStore \<Rightarrow> golib \<Rightarrow> sender \<Rightarrow> AddressPolicy \<Rightarrow> string \<Rightarrow> world \<Rightarrow> world" where
  "SendHandleData T L send policy data w =
     (case unmarshal_send L data of
        None \<Rightarrow> replyError ''invalid request payload'' w
      | Some req \<Rightarrow>
        if req_to req = [] \<or> req_subject req = [] \<or> req_html req = [] \<or> req_text req = []
        then replyError ''to, subject, html, and text are required'' w
        else if oversizedFieldReason L req \<noteq> [] then replyError (oversizedFieldReason L req) w
        else if req_group_id req \<noteq> [] \<and> \<not> isValidGroupID (req_group_id req)
        then replyError ''invalid group_id'' w
        else if 0 < length (AllowedRecipientDomains policy) \<and> \<not> fst (IsRecipientAllowed L policy (req_to req))
        then respond (marshal_send_response \<lparr>resp_email_id = [], resp_group_id = []\<rparr>) w
        else
          (case (if req_from req \<noteq> [] then ValidateFrom L policy (req_from req) else None) of
             Some e \<Rightarrow>
               replyError (address_reply ''invalid from address'' ''from address domain not allowed'' e) w
           | None \<Rightarrow>
             (case (if req_reply_to req \<noteq> [] then ValidateReplyTo L policy (req_reply_to req) else None) of
                Some e \<Rightarrow>
                  replyError (address_reply ''invalid reply_to address'' ''reply_to address domain not allowed'' e) w
              | None \<Rightarrow>
                (case check_group T req w of
                   (Some reason, w) \<Rightarrow> replyError reason w
                 | (None, w) \<Rightarrow> deliver_request T send req w))))"

section \<open>What a request leads to\<close>

text \<open>The payload passes every check that does not involve the store.\<close>

definition accepted :: "golib \<Rightarrow> AddressPolicy \<Rightarrow> string \<Rightarrow> SendEmailRequest \<Rightarrow> bool" where
  "accepted L policy data req \<longleftrightarrow>
     unmarshal_send L data = Some req
     \<and> req_to req \<noteq> [] \<and> req_subject req \<noteq> [] \<and> req_html req \<noteq> [] \<and> req_text req \<noteq> []
     \<and> oversizedFieldReason L req = []
     \<and> (req_group_id req \<noteq> [] \<longrightarrow> IsGroupHandle (req_group_id req))
     \<and> fst (IsRecipientAllowed L policy (req_to req))
     \<and> (req_from req \<noteq> [] \<longrightarrow> ValidateFrom L policy (req_from req) = None)
     \<and> (req_reply_to req \<noteq> [] \<longrightarrow> ValidateReplyTo L policy (req_reply_to req) = None)"

text \<open>A refusal is an error, or the empty response for a recipient that is not allowed.\<close>

definition refusal :: "string \<Rightarrow> bool" where
  "refusal d \<longleftrightarrow> (\<exists>reason. d = marshal_error_response reason)
     \<or> d = marshal_send_response \<lparr>resp_email_id = [], resp_group_id = []\<rparr>"

lemma refusal_simps [simp]:
  "refusal (marshal_error_response reason)"
  "refusal (marshal_send_response \<lparr>resp_email_id = [], resp_group_id = []\<rparr>)"
  by (auto simp: refusal_def)

lemma SendHandleData_refused:
  assumes "unmarshal_send L data = Some req" and "\<not> accepted L policy data req"
  shows "\<exists>d. refusal d \<and> SendHandleData T L send policy data w = respond d w"
proof -
  let ?from = "if req_from req \<noteq> [] then ValidateFrom L policy (req_from req) else None"
  let ?reply_to = "if req_reply_to req \<noteq> [] then ValidateReplyTo L policy (req_reply_to req) else None"
  note d = SendHandleData_def [of T L send policy data w] assms(1) replyError_def
  consider "req_to req = [] \<or> req_subject req = [] \<or> req_html req = [] \<or> req_text req = []"
    | "\<not> (req_to req = [] \<or> req_subject req = [] \<or> req_html req = [] \<or> req_text req = [])"
      "oversizedFieldReason L req \<noteq> []"
    | "\<not> (req_to req = [] \<or> req_subject req = [] \<or> req_html req = [] \<or> req_text req = [])"
      "oversizedFieldReason L req = []" "req_group_id req \<noteq> [] \<and> \<not> isValidGroupID (req_group_id req)"
    | (recipient) "\<not> (req_to req = [] \<or> req_subject req = [] \<or> req_html req = [] \<or> req_text req = [])"
      "oversizedFieldReason L req = []" "\<not> (req_group_id req \<noteq> [] \<and> \<not> isValidGroupID (req_group_id req))"
      "0 < length (AllowedRecipientDomains policy) \<and> \<not> fst (IsRecipientAllowed L policy (req_to req))"
    | (addresses) "\<not> (req_to req = [] \<or> req_subject req = [] \<or> req_html req = [] \<or> req_text req = [])"
      "oversizedFieldReason L req = []" "\<not> (req_group_id req \<noteq> [] \<and> \<not> isValidGroupID (req_group_id req))"
      "\<not> (0 < length (AllowedRecipientDomains policy) \<and> \<not> fst (IsRecipientAllowed L policy (req_to req)))"
    by argo
  then show ?thesis
  proof cases
    case addresses
    then have r: "fst (IsRecipientAllowed L policy (req_to req))"
      by (auto simp: IsRecipientAllowed_def)
    show ?thesis
    proof (cases ?from)
      case (Some e)
      with addresses show ?thesis by (simp only: d option.case if_False simp_thms; use refusal_simps in blast)
    next
      case None
      then obtain e where "?reply_to = Some e"
        using addresses r assms by (auto simp: accepted_def isValidGroupID_def split: if_splits)
      with None addresses show ?thesis by (simp only: d option.case if_False simp_thms; use refusal_simps in blast)
    qed
  next
    case recipient
    then show ?thesis by (simp only: d option.case if_False if_True simp_thms; use refusal_simps in blast)
  qed (simp only: d option.case if_False if_True simp_thms; use refusal_simps in blast)+
qed

lemma SendHandleData_cases:
  obtains (refused) d where "SendHandleData T L send policy data w = respond d w" "refusal d"
      "\<not> (\<exists>req. accepted L policy data req)"
  | (no_group) req reason w1 where "accepted L policy data req" "check_group T req w = (Some reason, w1)"
      "SendHandleData T L send policy data w = replyError reason w1"
  | (delivered) req w1 where "accepted L policy data req" "check_group T req w = (None, w1)"
      "SendHandleData T L send policy data w = deliver_request T send req w1"
proof (cases "unmarshal_send L data")
  case None
  then show thesis by (intro refused) (auto simp: SendHandleData_def replyError_def accepted_def)
next
  case (Some req)
  show thesis
  proof (cases "accepted L policy data req")
    case True
    obtain g w1 where g: "check_group T req w = (g, w1)" by (cases "check_group T req w")
    have "SendHandleData T L send policy data w =
        (case g of Some reason \<Rightarrow> replyError reason w1 | None \<Rightarrow> deliver_request T send req w1)"
      using True g by (auto simp: SendHandleData_def accepted_def isValidGroupID_def split: option.split)
    then show thesis using True g no_group delivered by (cases g) auto
  next
    case False
    with Some have "\<not> (\<exists>req. accepted L policy data req)" by (auto simp: accepted_def)
    then show thesis using refused SendHandleData_refused [OF Some False] by blast
  qed
qed

text \<open>The record of a new e-mail.\<close>

definition initial_record :: "SendEmailRequest \<Rightarrow> string \<Rightarrow> string \<Rightarrow> gtime \<Rightarrow> rcpt" where
  "initial_record req emailID groupID t =
     zero_record\<lparr>GroupID := groupID, EmailID := emailID, To := req_to req, Subject := req_subject req, SentAt := t\<rparr>"

definition send_write :: "golib \<Rightarrow> SendEmailRequest \<Rightarrow> string \<Rightarrow> string \<Rightarrow> (gtime \<Rightarrow> bool) \<Rightarrow> kv_log \<Rightarrow> bool" where
  "send_write L req emailID groupID now l \<longleftrightarrow>
     extends_index L groupID emailID l \<or> (\<exists>t. now t \<and> writes_record emailID (initial_record req emailID groupID t) l)"

section \<open>The sender's contract\<close>

definition uuids_ok :: "world \<Rightarrow> bool" where
  "uuids_ok w \<longleftrightarrow> (\<forall>n. isValidUUID (w_uuid w n))"

text \<open>
  A sender touches neither the buckets nor the replies, hands at most one mail over, with the
  mailboxes the addresses of the request parse to in its envelope, and identifies what it sent by a UUID and by the group of the request
  or a new handle. On an error it returns no identifiers.
\<close>

definition mailed_for :: "golib \<Rightarrow> SendEmailRequest \<Rightarrow> mail \<Rightarrow> bool" where
  "mailed_for L req m \<longleftrightarrow>
     lib_parse_address L (req_to req) = Some (mail_rcpt m)
     \<and> address_string (mail_rcpt m) = CHR ''<'' # mail_rcpt m @ ''>''
     \<and> (req_from req \<noteq> [] \<longrightarrow> lib_parse_address L (req_from req) = Some (mail_from m))"

definition sender_frame :: "world \<Rightarrow> world \<Rightarrow> bool" where
  "sender_frame w w' \<longleftrightarrow> w_kv w' = w_kv w \<and> w_seq w' = w_seq w \<and> w_max_value w' = w_max_value w
     \<and> w_calls w' = w_calls w \<and> w_writes w' = w_writes w \<and> w_published w' = w_published w
     \<and> w_replies w' = w_replies w \<and> w_now w' = w_now w \<and> w_uuid w' = w_uuid w"

locale email_sender =
  fixes send :: sender and L :: golib
  assumes send_frame: "send req w = (x, w') \<Longrightarrow> sender_frame w w'"
    and send_once: "send req w = (x, w') \<Longrightarrow>
          \<exists>ms. w_sent w' = w_sent w @ ms \<and> length ms \<le> 1 \<and> (\<forall>m \<in> set ms. mailed_for L req m)"
    and send_ids: "send req w = ((emailID, groupID, None), w') \<Longrightarrow> emailID \<noteq> [] \<Longrightarrow> uuids_ok w \<Longrightarrow>
          isValidUUID emailID
          \<and> (if req_group_id req = [] then IsGroupHandle groupID else groupID = req_group_id req)"
begin

lemma send_acts: "send req w = (x, w') \<Longrightarrow> acts K P w w'"
  using send_frame [of req w x w'] by (intro acts_frame) (simp_all add: sender_frame_def)

end

section \<open>The handler on any store and sender\<close>

lemma runs_replies: "runs K P w w' \<Longrightarrow> w_replies w' = w_replies w \<and> w_published w' = w_published w \<and> w_sent w' = w_sent w
    \<and> w_now w' = w_now w \<and> w_uuid w' = w_uuid w"
  by (simp add: runs_def outside_def)

lemma runs_no_write_writes: "runs K no_write w w' \<Longrightarrow> w_writes w' = w_writes w"
proof -
  assume "runs K no_write w w'"
  then obtain ws where "w_writes w' = w_writes w @ ws" "list_all no_write ws" by (auto simp: runs_def)
  then show "w_writes w' = w_writes w" by (cases ws) (simp_all add: no_write_def)
qed

locale send_service = tracking_store T L K + email_sender send L
  for T :: "('a, 'c) TrackingStore" and L and K and send :: sender
begin

lemma check_group_runs: "check_group T req w = (x, w') \<Longrightarrow> runs K no_write w w'"
  by (auto simp: check_group_def intro: exists_runs split: prod.splits if_splits)

lemma write_record_runs:
  assumes "now (time_utc (w_now w (w_ticks w)))"
  shows "runs K (send_write L req emailID groupID now) w (write_record T emailID groupID req w)"
proof -
  obtain t w0 where t: "now_utc w = (t, w0)" by (cases "now_utc w")
  obtain x w' where x: "WriteRecord T emailID (initial_record req emailID groupID t) w0 = (x, w')"
    by (cases "WriteRecord T emailID (initial_record req emailID groupID t) w0")
  have n: "now t" using assms now_utc_frame [OF t] by simp
  have "runs K (send_write L req emailID groupID now) w0 w'"
    by (rule runs_mono [OF write_runs [OF x]]) (use n in \<open>auto simp: send_write_def\<close>)
  moreover have "write_record T emailID groupID req w = w'"
    using t x by (simp add: write_record_def initial_record_def)
  ultimately show ?thesis using runs_trans [OF runs_now_utc [OF t]] by simp
qed

lemma writeTrackingRecords_runs:
  assumes "writeTrackingRecords T emailID groupID newGroup req w = (b, w')" and "revisions_ok w"
    and now: "\<And>n. now (time_utc (w_now w n))"
  shows "runs K (send_write L req emailID groupID now) w w'"
proof (cases "groupID = []")
  case True
  with assms(1) have "w' = write_record T emailID groupID req w" by (simp add: writeTrackingRecords_def)
  then show ?thesis using write_record_runs now by simp
next
  case False
  obtain x w1 where x: "AppendToGroup T groupID emailID w = (x, w1)" by (cases "AppendToGroup T groupID emailID w")
  have r: "runs K (send_write L req emailID groupID now) w w1"
    by (rule runs_mono [OF append_runs [OF x assms(2)]]) (auto simp: send_write_def)
  have "now (time_utc (w_now w1 (w_ticks w1)))" using now runs_replies [OF r] by simp
  then have "runs K (send_write L req emailID groupID now) w1 (write_record T emailID groupID req w1)"
    by (rule write_record_runs)
  note r2 = runs_trans [OF r this]
  have "w' = w1 \<or> w' = write_record T emailID groupID req w1"
    using assms(1) False x by (auto simp: writeTrackingRecords_def split: option.splits if_splits)
  with r r2 show ?thesis by blast
qed

text \<open>One request, one reply; at most one mail, and only for an accepted request.\<close>

lemma deliver_request_effects:
  assumes "deliver_request T send req w = w'" and "revisions_ok w" and "uuids_ok w"
    and now: "\<And>n. now (time_utc (w_now w n))"
  shows "\<exists>d ms emailID groupID. w_replies w' = w_replies w @ [d] \<and> w_published w' = w_published w
    \<and> w_sent w' = w_sent w @ ms \<and> length ms \<le> 1 \<and> (\<forall>m \<in> set ms. mailed_for L req m)
    \<and> acts K (send_write L req emailID groupID now) w w'
    \<and> (emailID = [] \<longrightarrow> w_writes w' = w_writes w)
    \<and> (emailID \<noteq> [] \<longrightarrow> isValidUUID emailID
         \<and> (if req_group_id req = [] then IsGroupHandle groupID else groupID = req_group_id req))"
proof -
  obtain emailID groupID err w1 where s: "send req w = ((emailID, groupID, err), w1)" by (metis prod.exhaust)
  note f = send_frame [OF s, unfolded sender_frame_def]
  obtain ms where ms: "w_sent w1 = w_sent w @ ms" "length ms \<le> 1" "\<forall>m \<in> set ms. mailed_for L req m"
    using send_once [OF s] by blast
  show ?thesis
  proof (cases "err = None \<and> emailID \<noteq> []")
    case False
    then obtain d where "w' = respond d w1"
      using assms(1) s by (auto simp: deliver_request_def replyError_def split: option.splits if_splits)
    then show ?thesis using f ms acts_trans [OF send_acts [OF s] acts_respond]
      by (intro exI [of _ d] exI [of _ ms] exI [of _ "[]"] exI [of _ "[]"]) simp
  next
    case True
    then have i: "isValidUUID emailID"
      "if req_group_id req = [] then IsGroupHandle groupID else groupID = req_group_id req"
      using send_ids [of req w emailID groupID w1] s assms(3) by auto
    obtain b w2 where t: "writeTrackingRecords T emailID groupID (req_group_id req = []) req w1 = (b, w2)"
      by (cases "writeTrackingRecords T emailID groupID (req_group_id req = []) req w1")
    have "revisions_ok w1" by (rule acts_revisions [OF send_acts [OF s] assms(2)])
    moreover have "now (time_utc (w_now w1 n))" for n using now f by simp
    ultimately have r: "runs K (send_write L req emailID groupID now) w1 w2"
      by (rule writeTrackingRecords_runs [OF t])
    obtain d where d: "w' = respond d w2"
      using assms(1) s t True by (auto simp: deliver_request_def)
    have "acts K (send_write L req emailID groupID now) w w'"
      unfolding d by (rule acts_trans [OF acts_trans [OF send_acts [OF s] runs_acts [OF r]] acts_respond])
    then show ?thesis using f ms i runs_replies [OF r] d True
      by - (rule exI [of _ d], rule exI [of _ ms], rule exI [of _ emailID], rule exI [of _ groupID], simp)
  qed
qed

lemma SendHandleData_effects:
  assumes "SendHandleData T L send policy data w = w'" and "revisions_ok w" and "uuids_ok w"
    and now: "\<And>n. now (time_utc (w_now w n))"
  shows "\<exists>d ms. w_replies w' = w_replies w @ [d] \<and> w_published w' = w_published w
    \<and> w_sent w' = w_sent w @ ms \<and> length ms \<le> 1
    \<and> (\<exists>req emailID groupID. acts K (send_write L req emailID groupID now) w w'
         \<and> (if accepted L policy data req
             then (\<forall>m \<in> set ms. mailed_for L req m)
                  \<and> (emailID = [] \<longrightarrow> w_writes w' = w_writes w)
                  \<and> (emailID \<noteq> [] \<longrightarrow> isValidUUID emailID
                     \<and> (if req_group_id req = [] then IsGroupHandle groupID else groupID = req_group_id req))
             else ms = [] \<and> w_writes w' = w_writes w \<and> w_calls w' = w_calls w))"
proof (cases rule: SendHandleData_cases [of T L send policy data w])
  case (refused d)
  then show ?thesis using assms(1) acts_respond by fastforce
next
  case (no_group req reason w1)
  note r = check_group_runs [OF no_group(2)]
  have w': "w' = respond (marshal_error_response reason) w1"
    using assms(1) no_group(3) by (simp add: replyError_def)
  have "acts K P w w'" for P
    unfolding w' by (rule acts_trans [OF runs_acts [OF runs_no_write [OF r]] acts_respond])
  then show ?thesis using assms(1) no_group runs_replies [OF r]
      runs_no_write_writes [OF r]
    by (intro exI [of _ "marshal_error_response reason"] exI [of _ "[]"] conjI exI [of _ req] exI [of _ "[]"])
      (auto simp: w')
next
  case (delivered req w1)
  note r = check_group_runs [OF delivered(2)]
  note c = runs_replies [OF r]
  have "revisions_ok w1" "uuids_ok w1" "\<And>n. now (time_utc (w_now w1 n))"
    using runs_revisions [OF r assms(2)] assms(3) now c by (simp_all add: uuids_ok_def)
  from deliver_request_effects [where now = now and req = req and w' = w', OF _ this] delivered(3) assms(1)
  obtain d ms emailID groupID where e: "w_replies w' = w_replies w1 @ [d]" "w_published w' = w_published w1"
      "w_sent w' = w_sent w1 @ ms" "length ms \<le> 1" "\<forall>m \<in> set ms. mailed_for L req m"
      "acts K (send_write L req emailID groupID now) w1 w'" "emailID = [] \<longrightarrow> w_writes w' = w_writes w1"
      "emailID \<noteq> [] \<longrightarrow> isValidUUID emailID
         \<and> (if req_group_id req = [] then IsGroupHandle groupID else groupID = req_group_id req)"
    by metis
  have "acts K (send_write L req emailID groupID now) w w'"
    by (rule acts_trans [OF runs_acts [OF runs_no_write [OF r]] e(6)])
  then show ?thesis using e c delivered(1) runs_no_write_writes [OF r]
    by (intro exI [of _ d] exI [of _ ms] conjI exI [of _ req] exI [of _ emailID] exI [of _ groupID]) auto
qed

end

end
