(* ===== verification/KvStore.thy ===== *)
theory KvStore
  imports Tracking
begin

text \<open>
  \<open>internal/infrastructure/kv/store.go\<close>: the tracking store on two key-value buckets. Each
  operation is a function on the world; \<open>for attempt := range 2\<close> is two calls of the attempt,
  which either returns or leaves the write error for the next one. The lemmas hold for every
  environment: any writes of others before any call, any failing calls.
\<close>

section \<open>Keys and errors\<close>

fun is_api_error :: "sentinel \<Rightarrow> bool" where
  "is_api_error (APIError c) = True"
| "is_api_error _ = False"

definition isValueTooLarge :: "goerr \<Rightarrow> bool" where
  "isValueTooLarge e \<longleftrightarrow>
     errors_is e ErrMaxPayload
     \<or> List.find is_api_error e = Some (APIError jsErrCodeMessageTooLarge)"

definition maxKeyLen :: nat where
  "maxKeyLen = 256"

definition is_key_char :: "char \<Rightarrow> bool" where
  "is_key_char c \<longleftrightarrow> is_digit c \<or> (65 \<le> byte c \<and> byte c \<le> 90) \<or> (97 \<le> byte c \<and> byte c \<le> 122)
     \<or> c \<in> set ''-/_=.''"

definition checkKey :: "string \<Rightarrow> goerr option" where
  "checkKey key =
     (if length key = 0 \<or> maxKeyLen < length key \<or> \<not> list_all is_key_char key
         \<or> hd key = CHR ''.'' \<or> last key = CHR ''.'' \<or> contains key ''..''
      then Some [ErrInvalidKey] else None)"

section \<open>Writing and reading one record\<close>

definition kv_WriteRecord :: "string \<Rightarrow> rcpt \<Rightarrow> world \<Rightarrow> goerr option \<times> world" where
  "kv_WriteRecord emailID r w =
     (case marshal_record r of
        None \<Rightarrow> (Some [ErrText ''marshal recipient record''], w)
      | Some b \<Rightarrow>
          (case checkKey emailID of
             Some e \<Rightarrow> (Some e, w)
           | None \<Rightarrow>
               (case kv_put Recipients emailID b w of
                  (Inl e, w) \<Rightarrow> (Some (ErrText ''kv put recipient record'' # e), w)
                | (Inr _, w) \<Rightarrow> (None, w))))"

definition kv_GetRecord :: "golib \<Rightarrow> string \<Rightarrow> world \<Rightarrow> (goerr + rcpt) \<times> world" where
  "kv_GetRecord L emailID w =
     (case checkKey emailID of
        Some e \<Rightarrow> (Inl e, w)
      | None \<Rightarrow>
          (case kv_get Recipients emailID w of
             (Inl e, w) \<Rightarrow>
               (Inl (if errors_is e ErrKeyNotFound then [ErrNotFound]
                     else ErrText ''kv get recipient record'' # e), w)
           | (Inr en, w) \<Rightarrow>
               (case unmarshal_record L (ent_value en) of
                  None \<Rightarrow> (Inl [ErrText ''unmarshal recipient record''], w)
                | Some r \<Rightarrow> (Inr r, w))))"

section \<open>The group index\<close>

text \<open>The outcome of one attempt of a retried operation.\<close>

datatype attempt =
    Return "goerr option"
  | Retry goerr

definition append_write ::
    "bool \<Rightarrow> string \<Rightarrow> string \<Rightarrow> nat option \<Rightarrow> string list \<Rightarrow> world \<Rightarrow> attempt \<times> world" where
  "append_write retrying groupID emailID revision ids w =
     (if retrying \<and> emailID \<in> set ids then (Return None, w)
      else if MaxGroupEmails \<le> length ids
        then (Return (Some [ErrText ''append to group index'', ErrGroupFull]), w)
      else
        let b = marshal_ids (ids @ [emailID]) in
        (case revision of
           None \<Rightarrow>
             (case kv_create GroupIndex groupID b w of
                (Inl e, w) \<Rightarrow>
                  (if \<not> errors_is e ErrKeyExists
                   then Return (Some (ErrText ''kv create group index'' # e)) else Retry e, w)
              | (Inr _, w) \<Rightarrow> (Return None, w))
         | Some rv \<Rightarrow>
             (case kv_update GroupIndex groupID b rv w of
                (Inl e, w) \<Rightarrow> (Retry e, w)
              | (Inr _, w) \<Rightarrow> (Return None, w))))"

definition append_attempt ::
    "golib \<Rightarrow> bool \<Rightarrow> string \<Rightarrow> string \<Rightarrow> world \<Rightarrow> attempt \<times> world" where
  "append_attempt L retrying groupID emailID w =
     (case kv_get GroupIndex groupID w of
        (Inr en, w) \<Rightarrow>
          append_write retrying groupID emailID (Some (ent_revision en))
            (case unmarshal_ids L (ent_value en) of None \<Rightarrow> [] | Some ids \<Rightarrow> ids) w
      | (Inl e, w) \<Rightarrow>
          if errors_is e ErrKeyNotFound then append_write retrying groupID emailID None [] w
          else (Return (Some (ErrText ''kv get group index'' # e)), w))"

text \<open>The last read, after the retry lost its write too.\<close>

definition append_reread ::
    "golib \<Rightarrow> string \<Rightarrow> string \<Rightarrow> goerr \<Rightarrow> world \<Rightarrow> goerr option \<times> world" where
  "append_reread L groupID emailID writeErr w =
     (let failed = Some (ErrText ''kv update group index after retry'' # writeErr) in
      (case kv_get GroupIndex groupID w of
         (Inl _, w) \<Rightarrow> (failed, w)
       | (Inr en, w) \<Rightarrow>
           (case unmarshal_ids L (ent_value en) of
              None \<Rightarrow> (failed, w)
            | Some ids \<Rightarrow>
                if emailID \<in> set ids then (None, w)
                else if MaxGroupEmails \<le> length ids
                  then (Some [ErrText ''append to group index'', ErrGroupFull], w)
                else (failed, w))))"

definition kv_AppendToGroup ::
    "golib \<Rightarrow> string \<Rightarrow> string \<Rightarrow> world \<Rightarrow> goerr option \<times> world" where
  "kv_AppendToGroup L groupID emailID w =
     (case checkKey groupID of
        Some e \<Rightarrow> (Some e, w)
      | None \<Rightarrow>
          if \<not> isValidUUID emailID then (Some [ErrInvalidKey], w)
          else
            (case append_attempt L False groupID emailID w of
               (Return r, w) \<Rightarrow> (r, w)
             | (Retry _, w) \<Rightarrow>
                 (case append_attempt L True groupID emailID w of
                    (Return r, w) \<Rightarrow> (r, w)
                  | (Retry e, w) \<Rightarrow> append_reread L groupID emailID e w)))"

definition kv_GroupExists :: "golib \<Rightarrow> string \<Rightarrow> world \<Rightarrow> (bool \<times> goerr option) \<times> world" where
  "kv_GroupExists L groupID w =
     (case checkKey groupID of
        Some e \<Rightarrow> ((False, Some e), w)
      | None \<Rightarrow>
          (case kv_get GroupIndex groupID w of
             (Inl e, w) \<Rightarrow>
               (if errors_is e ErrKeyNotFound then ((False, None), w)
                else ((False, Some (ErrText ''kv get group index'' # e)), w))
           | (Inr en, w) \<Rightarrow>
               (case unmarshal_ids L (ent_value en) of
                  Some ids \<Rightarrow>
                    if MaxGroupEmails \<le> length ids then ((True, Some [ErrGroupFull]), w)
                    else ((True, None), w)
                | None \<Rightarrow> ((True, None), w))))"

section \<open>Scanning a group\<close>

definition groupReadConcurrency :: nat where
  "groupReadConcurrency = 16"

text \<open>
  The reads of one chunk. They run concurrently in the code; each is one bucket call, the
  results are stored by position, and other writers may act before each of them.
\<close>

fun read_chunk :: "golib \<Rightarrow> string list \<Rightarrow> world \<Rightarrow> (goerr + rcpt) option list \<times> world" where
  "read_chunk L [] w = ([], w)"
| "read_chunk L (emailID # ids) w =
     (if \<not> isValidUUID emailID
      then (case read_chunk L ids w of (rs, w) \<Rightarrow> (None # rs, w))
      else (case kv_GetRecord L emailID w of (r, w) \<Rightarrow>
             (case read_chunk L ids w of (rs, w) \<Rightarrow> (Some r # rs, w))))"

text \<open>The delivery of one chunk: the flag says that the callback stopped the scan.\<close>

fun deliver ::
    "string \<Rightarrow> 'a scan_fn \<Rightarrow> (goerr + rcpt) option list \<Rightarrow> 'a \<Rightarrow> bool \<times> 'a" where
  "deliver groupID fn [] acc = (False, acc)"
| "deliver groupID fn (None # rs) acc = deliver groupID fn rs acc"
| "deliver groupID fn (Some (Inl _) # rs) acc = deliver groupID fn rs acc"
| "deliver groupID fn (Some (Inr r) # rs) acc =
     (if GroupID r \<noteq> groupID then deliver groupID fn rs acc
      else (case fn r acc of
              (True, acc) \<Rightarrow> deliver groupID fn rs acc
            | (False, acc) \<Rightarrow> (True, acc)))"

definition scan_aborted :: "sentinel \<Rightarrow> goerr option" where
  "scan_aborted e = Some [ErrText ''scan group records'', e]"

function scan_chunks ::
    "golib \<Rightarrow> string \<Rightarrow> 'a scan_fn \<Rightarrow> string list \<Rightarrow> 'a \<Rightarrow> world
       \<Rightarrow> goerr option \<times> 'a \<times> world" where
  "scan_chunks L groupID fn window acc w =
     (if window = [] then (None, acc, w)
      else
        (case ctx_err w of
           (Some e, w) \<Rightarrow> (scan_aborted e, acc, w)
         | (None, w) \<Rightarrow>
             (case read_chunk L (take groupReadConcurrency window) w of (rs, w) \<Rightarrow>
               (case ctx_err w of
                  (Some e, w) \<Rightarrow> (scan_aborted e, acc, w)
                | (None, w) \<Rightarrow>
                    (case deliver groupID fn rs acc of
                       (True, acc) \<Rightarrow> (None, acc, w)
                     | (False, acc) \<Rightarrow>
                         scan_chunks L groupID fn (drop groupReadConcurrency window) acc w)))))"
  by pat_completeness auto
termination
  by (relation "measure (\<lambda>(L, g, fn, window, acc, w). length window)")
    (auto simp: groupReadConcurrency_def)

declare scan_chunks.simps [simp del]

text \<open>
  \<open>offset\<close> and \<open>limit\<close> are Go \<open>int\<close>s and \<open>offset+limit\<close> is computed at their width. The
  counts logged at the end have no effect.
\<close>

definition scan_window :: "string list \<Rightarrow> int64 \<Rightarrow> int64 \<Rightarrow> string list" where
  "scan_window ids offset limit =
     (let hi = min (int (length ids)) (sint (offset + limit))
      in drop (nat (sint offset)) (take (nat hi) ids))"

definition kv_ScanGroupRecords ::
    "golib \<Rightarrow> string \<Rightarrow> int64 \<Rightarrow> int64 \<Rightarrow> 'a scan_fn \<Rightarrow> 'a \<Rightarrow> world
       \<Rightarrow> (nat \<times> goerr option) \<times> 'a \<times> world" where
  "kv_ScanGroupRecords L groupID offset limit fn acc w =
     (case checkKey groupID of
        Some e \<Rightarrow> ((0, Some e), acc, w)
      | None \<Rightarrow>
        if sint offset < 0 \<or> sint limit \<le> 0
        then ((0, Some [ErrText ''invalid group scan range'']), acc, w)
        else
          let limit = (if sint limit \<le> int MaxGroupEmails then limit else int64 (int MaxGroupEmails))
          in (case ctx_err w of
            (Some e, w) \<Rightarrow> ((0, scan_aborted e), acc, w)
          | (None, w) \<Rightarrow>
            (case kv_get GroupIndex groupID w of (entry, w) \<Rightarrow>
            (case ctx_err w of
              (Some e, w) \<Rightarrow> ((0, scan_aborted e), acc, w)
            | (None, w) \<Rightarrow>
              (case entry of
                Inl e \<Rightarrow>
                  ((0, Some (if errors_is e ErrKeyNotFound then [ErrNotFound]
                             else ErrText ''kv get group index'' # e)), acc, w)
              | Inr en \<Rightarrow>
                (case unmarshal_ids L (ent_value en) of
                  None \<Rightarrow> ((0, Some [ErrText ''unmarshal group index'']), acc, w)
                | Some ids \<Rightarrow>
                  (case ctx_err w of
                    (Some e, w) \<Rightarrow> ((length ids, scan_aborted e), acc, w)
                  | (None, w) \<Rightarrow>
                    if int (length ids) \<le> sint offset then ((length ids, None), acc, w)
                    else
                      (case scan_chunks L groupID fn (scan_window ids offset limit) acc w of
                        (Some e, acc, w) \<Rightarrow> ((length ids, Some e), acc, w)
                      | (None, acc, w) \<Rightarrow>
                        (case ctx_err w of
                          (Some e, w) \<Rightarrow> ((length ids, scan_aborted e), acc, w)
                        | (None, w) \<Rightarrow> ((length ids, None), acc, w))))))))))"

section \<open>Updating a record\<close>

text \<open>
  The callback changes the record in place and may use the clock; what it captures in the
  variables of its caller is the state \<open>'c\<close>.
\<close>

definition update_attempt ::
    "golib \<Rightarrow> string \<Rightarrow> 'c update_fn \<Rightarrow> 'c \<Rightarrow> world
       \<Rightarrow> attempt \<times> 'c \<times> world" where
  "update_attempt L emailID fn c w =
     (case kv_get Recipients emailID w of
        (Inl e, w) \<Rightarrow>
          (Return (if errors_is e ErrKeyNotFound then None
                   else Some (ErrText ''kv get recipient record for update'' # e)), c, w)
      | (Inr en, w) \<Rightarrow>
          (case unmarshal_record L (ent_value en) of
             None \<Rightarrow> (Return (Some [ErrText ''unmarshal recipient record for update'']), c, w)
           | Some record \<Rightarrow>
               (case fn record c w of (record, c, w) \<Rightarrow>
                 (case marshal_record record of
                    None \<Rightarrow>
                      (Return (Some [ErrText ''marshal updated recipient record'',
                                     ErrRecordUnencodable]), c, w)
                  | Some updated \<Rightarrow>
                      (case kv_update Recipients emailID updated (ent_revision en) w of
                         (Inr _, w) \<Rightarrow> (Return None, c, w)
                       | (Inl e, w) \<Rightarrow>
                           if isValueTooLarge e
                           then (Return (Some (ErrText ''kv update recipient record''
                                               # ErrRecordTooLarge # e)), c, w)
                           else (Retry e, c, w))))))"

definition kv_UpdateRecord ::
    "golib \<Rightarrow> string \<Rightarrow> 'c update_fn \<Rightarrow> 'c \<Rightarrow> world
       \<Rightarrow> goerr option \<times> 'c \<times> world" where
  "kv_UpdateRecord L emailID fn c w =
     (case checkKey emailID of
        Some e \<Rightarrow> (Some e, c, w)
      | None \<Rightarrow>
          (case update_attempt L emailID fn c w of
             (Return r, c, w) \<Rightarrow> (r, c, w)
           | (Retry _, c, w) \<Rightarrow>
               (case update_attempt L emailID fn c w of
                  (Return r, c, w) \<Rightarrow> (r, c, w)
                | (Retry e, c, w) \<Rightarrow>
                    (Some (ErrText ''kv update recipient record after retry'' # e), c, w))))"

text \<open>The store made by \<open>New\<close>.\<close>

definition kv_Store :: "golib \<Rightarrow> ('a, 'c) TrackingStore" where
  "kv_Store L = \<lparr>
     WriteRecord = kv_WriteRecord,
     AppendToGroup = kv_AppendToGroup L,
     GroupExists = kv_GroupExists L,
     GetRecord = kv_GetRecord L,
     ScanGroupRecords = kv_ScanGroupRecords L,
     UpdateRecord = kv_UpdateRecord L\<rparr>"

section \<open>What the operations call and write\<close>

text \<open>A key the store may put on the connection.\<close>

definition key_ok :: "bucket \<times> string \<Rightarrow> bool" where
  "key_ok c \<longleftrightarrow> checkKey (snd c) = None"

lemma runs_get: "kv_get b k w = (r, w') \<Longrightarrow> checkKey k = None \<Longrightarrow> runs key_ok P w w'"
  by (erule runs_kv_get) (simp add: key_ok_def)

lemmas store_splits = option.splits sum.splits prod.splits if_splits attempt.splits

lemma kv_WriteRecord_runs:
  "kv_WriteRecord emailID r w = (x, w') \<Longrightarrow> runs key_ok (writes_record emailID r) w w'"
  by (auto simp: kv_WriteRecord_def kv_put_def writes_record_def key_ok_def
      intro: runs_kv_write split: store_splits)

lemma kv_GetRecord_runs: "kv_GetRecord L emailID w = (x, w') \<Longrightarrow> runs key_ok P w w'"
  by (auto simp: kv_GetRecord_def intro: runs_get split: store_splits)

lemma kv_GroupExists_runs: "kv_GroupExists L groupID w = (x, w') \<Longrightarrow> runs key_ok P w w'"
  by (auto simp: kv_GroupExists_def intro: runs_get split: store_splits)


lemma slot_key_ok:
  "runs (\<lambda>c. c = (b, k)) P w w' \<Longrightarrow> checkKey k = None \<Longrightarrow> runs key_ok P w w'"
  by (erule runs_mono) (auto simp: key_ok_def)

lemma append_write_existing:
  assumes "kv_get GroupIndex groupID w = (Inr en, w1)" and "revisions_ok w"
    and "append_write retrying groupID emailID (Some (ent_revision en)) (index_ids L (Some en)) w1 = (a, w')"
    and "checkKey groupID = None"
  shows "runs key_ok (extends_index L groupID emailID) w w'"
proof (cases "(retrying \<and> emailID \<in> set (index_ids L (Some en))) \<or> MaxGroupEmails \<le> length (index_ids L (Some en))")
  case True
  with assms(3) have "w' = w1" by (auto simp: append_write_def split: if_splits)
  with runs_get [OF assms(1,4)] show ?thesis by simp
next
  case False
  with assms(3) obtain r where
    "kv_swap GroupIndex groupID (Some (ent_revision en)) (marshal_ids (index_ids L (Some en) @ [emailID])) w1 = (r, w')"
    by (auto simp: append_write_def kv_swap_def Let_def split: store_splits)
  moreover have "extends_index L groupID emailID
      (GroupIndex, groupID, Some en, marshal_ids (index_ids L (Some en) @ [emailID]))"
    using False by (simp add: extends_index_def)
  ultimately show ?thesis
    by (intro slot_key_ok [OF cell.read_modify_write [OF assms(1) runs_refl _ assms(2)] assms(4)]) simp_all
qed

lemma append_write_new:
  assumes "append_write retrying groupID emailID None [] w = (a, w')" and "checkKey groupID = None"
  shows "runs key_ok (extends_index L groupID emailID) w w'"
proof -
  obtain r where r: "kv_swap GroupIndex groupID None (marshal_ids [emailID]) w = (r, w')"
    using assms(1) by (auto simp: append_write_def kv_swap_def Let_def MaxGroupEmails_def split: store_splits)
  have "extends_index L groupID emailID (GroupIndex, groupID, None, marshal_ids [emailID])"
    by (simp add: extends_index_def index_ids_def MaxGroupEmails_def)
  then show ?thesis by (intro slot_key_ok [OF cell.create_only_new [OF r] assms(2)]) simp
qed

lemma append_attempt_runs:
  assumes "append_attempt L retrying groupID emailID w = (a, w')" and "revisions_ok w"
    and "checkKey groupID = None"
  shows "runs key_ok (extends_index L groupID emailID) w w'"
proof -
  obtain x w1 where g: "kv_get GroupIndex groupID w = (x, w1)" by (cases "kv_get GroupIndex groupID w")
  note g1 = runs_get [OF g assms(3)]
  show ?thesis
  proof (cases x)
    case (Inr en)
    with g assms(1) show ?thesis
      by (intro append_write_existing [OF _ assms(2) _ assms(3)])
        (auto simp: append_attempt_def index_ids_def)
  next
    case (Inl e)
    with g assms(1) have "w' = w1 \<or> append_write retrying groupID emailID None [] w1 = (a, w')"
      by (auto simp: append_attempt_def split: if_splits)
    then show ?thesis using g1 append_write_new [OF _ assms(3)] runs_trans by metis
  qed
qed

lemma append_reread_runs:
  "append_reread L groupID emailID e w = (x, w') \<Longrightarrow> checkKey groupID = None \<Longrightarrow> runs key_ok P w w'"
  by (auto simp: append_reread_def Let_def intro: runs_get split: store_splits)

lemma kv_AppendToGroup_runs:
  assumes "kv_AppendToGroup L groupID emailID w = (x, w')" and "revisions_ok w"
  shows "runs key_ok (extends_index L groupID emailID) w w'"
proof (cases "checkKey groupID = None \<and> isValidUUID emailID")
  case True
  note a = append_attempt_runs [OF _ _ conjunct1 [OF True]]
  show ?thesis using assms True
    by (auto simp: kv_AppendToGroup_def split: store_splits
        intro: a runs_trans [OF a a] runs_trans [OF runs_trans [OF a a] append_reread_runs]
          runs_revisions [OF a])
qed (use assms in \<open>auto simp: kv_AppendToGroup_def split: store_splits\<close>)

lemma update_attempt_runs:
  assumes "update_attempt L emailID fn c w = (a, c', w')" and "revisions_ok w" and "only_clock fn"
    and "checkKey emailID = None"
  shows "runs key_ok (changes_record L emailID fn (w_max_value w Recipients)) w w'"
proof -
  obtain x w1 where g: "kv_get Recipients emailID w = (x, w1)" by (cases "kv_get Recipients emailID w")
  note g1 = runs_get [OF g assms(4)]
  show ?thesis
  proof (cases "\<exists>en r. x = Inr en \<and> unmarshal_record L (ent_value en) = Some r")
    case False
    with assms(1) g have "w' = w1" by (auto simp: update_attempt_def split: store_splits)
    with g1 show ?thesis by simp
  next
    case True
    then obtain en r where x: "x = Inr en" and r: "unmarshal_record L (ent_value en) = Some r" by blast
    obtain r2 c2 w2 where f: "fn r c w1 = (r2, c2, w2)" by (metis prod_cases3)
    with assms(3) have w2: "runs (\<lambda>_. False) no_write w1 w2"
      unfolding only_clock_def by (metis snd_conv)
    then have w2': "runs K P w1 w2" for K P
      by (rule runs_mono) (simp_all add: no_write_def)
    show ?thesis
    proof (cases "marshal_record r2")
      case None
      with assms(1) g x r f have "w' = w2" by (simp add: update_attempt_def)
      then show ?thesis using runs_trans [OF g1 w2'] by simp
    next
      case (Some v)
      with assms(1) g x r f obtain y where y: "kv_swap Recipients emailID (Some (ent_revision en)) v w2 = (y, w')"
        by (auto simp: update_attempt_def kv_swap_def split: store_splits)
      have "changes_record L emailID fn (w_max_value w Recipients) (Recipients, emailID, Some en, v)"
        if "length v \<le> w_max_value w Recipients"
        using that r f Some unfolding changes_record_def by (auto intro!: exI [of _ r] exI [of _ c] exI [of _ w1])
      then show ?thesis
        by (intro slot_key_ok [OF cell.read_modify_write [OF g [unfolded x] w2' y assms(2)] assms(4)]) simp
    qed
  qed
qed

lemma kv_UpdateRecord_runs:
  assumes "kv_UpdateRecord L emailID fn c w = (x, c', w')" and "revisions_ok w" and "only_clock fn"
  shows "runs key_ok (changes_record L emailID fn (w_max_value w Recipients)) w w'"
proof (cases "checkKey emailID = None")
  case True
  obtain a c1 w1 where a: "update_attempt L emailID fn c w = (a, c1, w1)" by (metis prod_cases3)
  note r1 = update_attempt_runs [OF a assms(2,3) True]
  obtain a2 c2 w2 where a2: "update_attempt L emailID fn c1 w1 = (a2, c2, w2)" by (metis prod_cases3)
  have m: "w_max_value w1 = w_max_value w" using r1 by (simp add: runs_def)
  note r2 = update_attempt_runs [OF a2 runs_revisions [OF r1 assms(2)] assms(3) True, unfolded m]
  have "w' = w1 \<or> w' = w2"
    using assms(1) a a2 True by (auto simp: kv_UpdateRecord_def split: store_splits)
  with r1 runs_trans [OF r1 r2] show ?thesis by blast
qed (use assms in \<open>auto simp: kv_UpdateRecord_def\<close>)

section \<open>What a scan delivers\<close>

text \<open>\<open>r\<close> is what the entry of \<open>emailID\<close> decodes to at some moment from \<open>w\<close> on, and is of the group.\<close>

definition served :: "golib \<Rightarrow> string \<Rightarrow> world \<Rightarrow> string \<Rightarrow> rcpt \<Rightarrow> bool" where
  "served L groupID w emailID r \<longleftrightarrow>
     isValidUUID emailID \<and> GroupID r = groupID
     \<and> (\<exists>w' en. later w w' \<and> w_kv w' Recipients emailID = Some en
              \<and> unmarshal_record L (ent_value en) = Some r)"

lemma served_later: "later w w' \<Longrightarrow> served L g w' i r \<Longrightarrow> served L g w i r"
  unfolding served_def using later_trans by blast

lemma kv_GetRecord_served:
  assumes "kv_GetRecord L emailID w = (Inr r, w')" and "isValidUUID emailID"
  shows "served L (GroupID r) w emailID r"
proof -
  obtain en where "kv_get Recipients emailID w = (Inr en, w')" "unmarshal_record L (ent_value en) = Some r"
    using assms(1) by (auto simp: kv_GetRecord_def split: store_splits)
  with assms(2) show ?thesis
    using kv_get_effect(1,7) unfolding served_def by (metis (no_types))
qed

lemma read_chunk_runs: "read_chunk L ids w = (rs, w') \<Longrightarrow> runs key_ok P w w'"
proof (induction L ids w arbitrary: rs w' rule: read_chunk.induct)
  case (2 L i ids w)
  show ?case
  proof (cases "isValidUUID i")
    case True
    obtain x w1 where "kv_GetRecord L i w = (x, w1)" by (cases "kv_GetRecord L i w")
    moreover obtain xs w2 where "read_chunk L ids w1 = (xs, w2)" by (cases "read_chunk L ids w1")
    ultimately show ?thesis
      using "2.prems" "2.IH"(2) True kv_GetRecord_runs [of L i w x w1 P] runs_trans by fastforce
  next
    case False
    with "2.prems" "2.IH"(1) show ?thesis by (auto split: prod.splits)
  qed
qed simp

text \<open>The records of a chunk that belong to the group, with their identifiers.\<close>

fun members_read :: "string \<Rightarrow> string list \<Rightarrow> (goerr + rcpt) option list \<Rightarrow> (string \<times> rcpt) list" where
  "members_read g (i # ids) (x # xs) =
     (case x of Some (Inr r) \<Rightarrow> if GroupID r = g then (i, r) # members_read g ids xs
                               else members_read g ids xs
      | _ \<Rightarrow> members_read g ids xs)"
| "members_read g _ _ = []"

lemma deliver_feed:
  "length ids = length xs \<Longrightarrow> deliver g fn xs acc = (st, acc')
     \<Longrightarrow> feed fn (map snd (members_read g ids xs)) acc = (\<not> st, acc')"
  by (induction g fn xs acc arbitrary: ids rule: deliver.induct)
    (auto simp: length_Suc_conv split: prod.splits bool.splits if_splits)

lemma members_read_ids: "subseq (map fst (members_read g ids xs)) ids"
proof (induction g ids xs rule: members_read.induct)
  case (1 g i ids x xs)
  then show ?case by (auto split: option.splits sum.splits)
qed simp_all

lemma read_chunk_members:
  "read_chunk L ids w = (xs, w') \<Longrightarrow> length xs = length ids
     \<and> (\<forall>(i, r) \<in> set (members_read g ids xs). served L g w i r)"
proof (induction L ids w arbitrary: xs w' rule: read_chunk.induct)
  case (2 L i ids w)
  show ?case
  proof (cases "isValidUUID i")
    case True
    obtain x w1 where x: "kv_GetRecord L i w = (x, w1)" by (cases "kv_GetRecord L i w")
    obtain ys w2 where ys: "read_chunk L ids w1 = (ys, w2)" by (cases "read_chunk L ids w1")
    have xs: "xs = Some x # ys" using "2.prems" True x ys by simp
    have IH: "length ys = length ids \<and> (\<forall>(i, r) \<in> set (members_read g ids ys). served L g w1 i r)"
      using "2.IH"(2) True x ys by simp
    have l: "later w w1" using kv_GetRecord_runs [OF x] runs_later by blast
    have "served L g w i r" if "x = Inr r" "GroupID r = g" for r
      using kv_GetRecord_served [of L i w r w1] x that True by simp
    then show ?thesis using IH served_later [OF l] xs by (auto split: sum.splits)
  next
    case False
    with "2.prems" "2.IH"(1) show ?thesis by (auto split: prod.splits)
  qed
qed simp

text \<open>
  A scan, from its start to its end: what was delivered, to which identifiers of the window,
  and that it only read.
\<close>

definition scanned :: "golib \<Rightarrow> string \<Rightarrow> 'a scan_fn \<Rightarrow> string list \<Rightarrow> 'a \<Rightarrow> world \<Rightarrow> 'a \<Rightarrow> world \<Rightarrow> bool" where
  "scanned L g fn window acc w acc' w' \<longleftrightarrow>
     runs key_ok no_write w w'
     \<and> (\<exists>ps. subseq (map fst ps) window \<and> (\<forall>(i, r) \<in> set ps. served L g w i r)
             \<and> snd (feed fn (map snd ps) acc) = acc')"

lemma scanned_none: "runs key_ok no_write w w' \<Longrightarrow> scanned L g fn window acc w acc w'"
  unfolding scanned_def by (auto intro: exI [of _ "[]"])

lemma scanned_runs: "scanned L g fn window acc w acc' w' \<Longrightarrow> runs key_ok no_write w' w''
    \<Longrightarrow> scanned L g fn window acc w acc' w''"
  unfolding scanned_def using runs_trans by blast

lemma scan_chunks_step:
  assumes ps: "subseq (map fst ps) xs" "\<forall>(i, r) \<in> set ps. served L g w i r"
      "feed fn (map snd ps) acc = (True, acc1)"
    and r: "runs key_ok no_write w w1" and s: "scanned L g fn ys acc1 w1 acc' w'"
  shows "scanned L g fn (xs @ ys) acc w acc' w'"
proof -
  from s obtain qs where qs: "subseq (map fst qs) ys" "\<forall>(i, r) \<in> set qs. served L g w1 i r"
      "snd (feed fn (map snd qs) acc1) = acc'" "runs key_ok no_write w1 w'"
    unfolding scanned_def by blast
  have "\<forall>(i, r) \<in> set qs. served L g w i r"
    using qs(2) served_later [OF runs_later [OF r]] by blast
  moreover have "subseq (map fst (ps @ qs)) (xs @ ys)"
    using ps(1) qs(1) by (simp add: list_emb_append_mono)
  moreover have "snd (feed fn (map snd (ps @ qs)) acc) = acc'"
    using ps(3) qs(3) by (simp add: feed_append)
  ultimately show ?thesis using ps(2) runs_trans [OF r qs(4)]
    unfolding scanned_def by (intro conjI exI [of _ "ps @ qs"]) auto
qed

lemma scan_chunks_scanned:
  "scan_chunks L g fn window acc w = (e, acc', w') \<Longrightarrow> scanned L g fn window acc w acc' w'"
proof (induction L g fn window acc w arbitrary: e acc' w' rule: scan_chunks.induct)
  case (1 L g fn window acc w)
  let ?xs = "take groupReadConcurrency window"
  obtain c w1 where c: "ctx_err w = (c, w1)" by (cases "ctx_err w")
  obtain rs w2 where rs: "read_chunk L ?xs w1 = (rs, w2)" by (cases "read_chunk L ?xs w1")
  obtain c' w3 where c': "ctx_err w2 = (c', w3)" by (cases "ctx_err w2")
  obtain st acc1 where d: "deliver g fn rs acc = (st, acc1)" by (cases "deliver g fn rs acc")
  note r1 = runs_ctx_err [OF c, of key_ok no_write]
  note r12 = runs_trans [OF r1 read_chunk_runs [OF rs]]
  note r13 = runs_trans [OF r12 runs_ctx_err [OF c']]
  define ps where "ps = members_read g ?xs rs"
  have m: "length rs = length ?xs" "\<forall>(i, r) \<in> set ps. served L g w i r"
    using read_chunk_members [OF rs, of g] served_later [OF runs_later [OF r1]]
    by (auto simp: ps_def)
  have f: "feed fn (map snd ps) acc = (\<not> st, acc1)"
    unfolding ps_def by (rule deliver_feed [OF _ d]) (simp add: m)
  have sub: "subseq (map fst ps) ?xs" unfolding ps_def by (rule members_read_ids)
  note unf = scan_chunks.simps [of L g fn window acc w]
  show ?case
  proof (cases "window = [] \<or> c \<noteq> None \<or> c' \<noteq> None")
    case True
    then have "acc' = acc" "w' \<in> {w, w1, w3}"
      using "1.prems" c rs c' by (auto simp: unf split: option.splits if_splits)
    then show ?thesis using r1 r13 by (auto intro: scanned_none)
  next
    case False
    show ?thesis
    proof (cases st)
      case True
      with False "1.prems" c rs c' d have "acc' = acc1" "w' = w3" by (simp_all add: unf)
      moreover have "subseq (map fst ps) window" by (rule subseq_take [OF sub])
      ultimately show ?thesis using m(2) f r13 unfolding scanned_def by (metis snd_conv)
    next
      case st: False
      from False st "1.prems" c rs c' d
      have "scan_chunks L g fn (drop groupReadConcurrency window) acc1 w3 = (e, acc', w')"
        by (simp add: unf)
      moreover have "scan_chunks L g fn (drop groupReadConcurrency window) acc1 w3 = (e, acc', w')
          \<Longrightarrow> scanned L g fn (drop groupReadConcurrency window) acc1 w3 acc' w'"
        using "1.IH" False c rs c' d st by simp
      ultimately have "scanned L g fn (drop groupReadConcurrency window) acc1 w3 acc' w'" by blast
      moreover have "feed fn (map snd ps) acc = (True, acc1)" using f st by simp
      ultimately have "scanned L g fn (?xs @ drop groupReadConcurrency window) acc w acc' w'"
        by (intro scan_chunks_step [OF sub m(2) _ r13])
      then show ?thesis by simp
    qed
  qed
qed

text \<open>The bounds of the window are computed without overflow.\<close>

lemma scan_window_take:
  assumes "length ids < 2 ^ 62" and "0 \<le> sint offset" and "sint offset < int (length ids)"
    and "0 < sint limit" and "sint limit \<le> int MaxGroupEmails"
  shows "scan_window ids offset limit = take (nat (sint limit)) (drop (nat (sint offset)) ids)"
proof -
  have "int (length ids) < 2 ^ 62" using assms(1) by (metis of_nat_less_iff of_nat_numeral of_nat_power)
  then have "sint (offset + limit) = sint offset + sint limit"
    using assms by (intro sint_int64_add) (simp_all add: MaxGroupEmails_def)
  moreover have "nat (sint offset + sint limit) = nat (sint offset) + nat (sint limit)"
    using assms(2,4) by (simp add: nat_add_distrib)
  ultimately show ?thesis
    by (simp add: scan_window_def Let_def take_drop min_def nat_add_distrib)
      (auto simp: take_drop add.commute intro!: arg_cong [of _ _ "drop (nat (sint offset))"])
qed

lemma scan_end_le:
  assumes "0 \<le> sint (offset :: int64)" and "0 < sint limit"
  shows "sint (offset + limit) \<le> sint offset + sint limit"
proof (cases "sint offset + sint limit < 2 ^ 63")
  case True
  then show ?thesis using assms by (subst sint_int64_add) simp_all
next
  case False
  then show ?thesis using sint_int64_bounds [of "offset + limit"] by linarith
qed

lemma scan_window_length:
  "0 \<le> sint offset \<Longrightarrow> 0 < sint limit \<Longrightarrow> length (scan_window ids offset limit) \<le> nat (sint limit)"
  using scan_end_le [of offset limit] by (simp add: scan_window_def Let_def)

lemma scan_window_sub:
  assumes "0 \<le> sint offset" and "0 < sint limit"
  shows "subseq (scan_window ids offset limit) (take (nat (sint limit)) (drop (nat (sint offset)) ids))"
proof -
  define hi where "hi = nat (min (int (length ids)) (sint (offset + limit)))"
  have "hi \<le> nat (sint offset) + nat (sint limit)"
    using scan_end_le [OF assms] assms by (simp add: hi_def)
  then have "min (nat (sint limit)) (hi - nat (sint offset)) = hi - nat (sint offset)" by simp
  then have "scan_window ids offset limit
      = take (hi - nat (sint offset)) (take (nat (sint limit)) (drop (nat (sint offset)) ids))"
    by (simp add: scan_window_def Let_def hi_def [symmetric] drop_take min.commute)
  then show ?thesis using subseq_take [OF subseq_order.order_refl] by metis
qed

lemma ctx_err_kv: "ctx_err w = (c, w') \<Longrightarrow> w_kv w' = w_kv w"
  by (auto simp: ctx_err_def split: list.splits option.splits)

text \<open>A scan of the group index: what was delivered comes from a part of one index entry.\<close>

lemma kv_ScanGroupRecords_scanned:
  assumes "kv_ScanGroupRecords L g offset limit fn acc w = (s, acc', w')"
  shows "\<exists>window ids w1. scanned L g fn window acc w1 acc' w' \<and> runs key_ok no_write w w1
    \<and> (window = [] \<or> 0 \<le> sint offset \<and> 0 < sint limit
        \<and> window = scan_window ids offset (if sint limit \<le> int MaxGroupEmails then limit else int64 (int MaxGroupEmails))
        \<and> (\<exists>en. w_kv w1 GroupIndex g = Some en \<and> unmarshal_ids L (ent_value en) = Some ids))"
proof -
  have none: ?thesis if "acc' = acc" "runs key_ok no_write w w'"
    using that by (intro exI [of _ "[]"] exI [of _ w']) (auto intro: scanned_none)
  show ?thesis
  proof (cases "checkKey g = None \<and> \<not> (sint offset < 0 \<or> sint limit \<le> 0)")
    case False
    then have "w' = w" "acc' = acc"
      using assms by (simp_all add: kv_ScanGroupRecords_def split: option.splits if_splits)
    then show ?thesis by (intro none) simp_all
  next
    case True
    obtain c1 w1 where c1: "ctx_err w = (c1, w1)" by (cases "ctx_err w")
    obtain x w2 where x: "kv_get GroupIndex g w1 = (x, w2)" by (cases "kv_get GroupIndex g w1")
    obtain c2 w3 where c2: "ctx_err w2 = (c2, w3)" by (cases "ctx_err w2")
    obtain c3 w4 where c3: "ctx_err w3 = (c3, w4)" by (cases "ctx_err w3")
    note r1 = runs_ctx_err [OF c1, of key_ok no_write]
    note r2 = runs_trans [OF r1 runs_get [OF x conjunct1 [OF True]]]
    note r3 = runs_trans [OF r2 runs_ctx_err [OF c2]]
    note r4 = runs_trans [OF r3 runs_ctx_err [OF c3]]
    note sc = kv_ScanGroupRecords_def [of L g offset limit fn acc w]
    show ?thesis
    proof (cases "\<exists>en ids. c1 = None \<and> c2 = None \<and> c3 = None \<and> x = Inr en
        \<and> unmarshal_ids L (ent_value en) = Some ids \<and> sint offset < int (length ids)")
      case False
      then have "acc' = acc" "w' \<in> {w1, w3, w4}"
        using assms True c1 x c2 c3 by (auto simp: sc split: option.splits sum.splits if_splits)
      then show ?thesis using r1 r3 r4 by (intro none) auto
    next
      case run: True
      then obtain en ids where en: "x = Inr en" "unmarshal_ids L (ent_value en) = Some ids"
        "c1 = None" "c2 = None" "c3 = None" "sint offset < int (length ids)" by blast
      let ?window = "scan_window ids offset (if sint limit \<le> int MaxGroupEmails then limit else int64 (int MaxGroupEmails))"
      obtain e acc1 w5 where k: "scan_chunks L g fn ?window acc w4 = (e, acc1, w5)" by (metis prod_cases3)
      obtain c6 w6 where c6: "ctx_err w5 = (c6, w6)" by (cases "ctx_err w5")
      have "acc' = acc1 \<and> w' \<in> {w5, w6}"
        using assms True c1 x c2 c3 en k c6
        by (auto simp: sc Let_def split: option.splits)
      moreover note sd = scan_chunks_scanned [OF k]
      moreover note scanned_runs [OF sd runs_ctx_err [OF c6]]
      ultimately have "scanned L g fn ?window acc w4 acc' w'" by auto
      moreover have "w_kv w4 GroupIndex g = Some en"
        using kv_get_effect(7) [OF x en(1)] ctx_err_kv [OF c2] ctx_err_kv [OF c3] by simp
      ultimately show ?thesis using True en(2) r4
        by (intro exI [of _ ?window] exI [of _ ids] exI [of _ w4]) auto
    qed
  qed
qed

text \<open>The invariant of the variables an update's callback captures.\<close>

lemma update_attempt_invar:
  assumes "update_attempt L e fn c w = (a, c', w')" and "I c"
    and step: "\<And>r c w. I c \<Longrightarrow> I (fst (snd (fn r c w)))"
  shows "I c'"
proof -
  have "c' = c \<or> (\<exists>r w. c' = fst (snd (fn r c w)))"
    using assms(1) unfolding update_attempt_def
    by (auto split: sum.splits option.splits prod.splits if_splits) (metis fst_conv snd_conv)+
  with assms(2) step show ?thesis by metis
qed

lemma kv_UpdateRecord_invar:
  assumes "kv_UpdateRecord L e fn c w = (x, c', w')" and "I c"
    and step: "\<And>r c w. I c \<Longrightarrow> I (fst (snd (fn r c w)))"
  shows "I c'"
proof -
  obtain a c1 w1 where a: "update_attempt L e fn c w = (a, c1, w1)" by (metis prod_cases3)
  obtain a2 c2 w2 where a2: "update_attempt L e fn c1 w1 = (a2, c2, w2)" by (metis prod_cases3)
  have c1: "I c1" by (rule update_attempt_invar [of _ _ _ _ _ _ _ _ I, OF a assms(2) step])
  have c2: "I c2" by (rule update_attempt_invar [of _ _ _ _ _ _ _ _ I, OF a2 c1 step])
  have "c' = c \<or> c' = c1 \<or> c' = c2"
    using assms(1) a a2 by (auto simp: kv_UpdateRecord_def split: attempt.splits option.splits)
  with assms(2) c1 c2 show ?thesis by blast
qed

interpretation kv: tracking_store "kv_Store L" L key_ok for L
proof
  fix emailID r w x w' groupID y z offset limit c c'
  fix fn :: "'a scan_fn" and acc acc' s and f :: "'c update_fn" and I
  let ?T = "kv_Store L :: ('a, 'c) TrackingStore"
  show "WriteRecord ?T emailID r w = (x, w') \<Longrightarrow> runs key_ok (writes_record emailID r) w w'"
    by (simp add: kv_Store_def kv_WriteRecord_runs)
  show "AppendToGroup ?T groupID emailID w = (x, w') \<Longrightarrow> revisions_ok w
      \<Longrightarrow> runs key_ok (extends_index L groupID emailID) w w'"
    by (simp add: kv_Store_def kv_AppendToGroup_runs)
  show "GroupExists ?T groupID w = (y, w') \<Longrightarrow> runs key_ok no_write w w'"
    by (simp add: kv_Store_def kv_GroupExists_runs)
  show "GetRecord ?T emailID w = (z, w') \<Longrightarrow> runs key_ok no_write w w'"
    by (simp add: kv_Store_def kv_GetRecord_runs)
  show "UpdateRecord ?T emailID f c w = (x, c', w') \<Longrightarrow> revisions_ok w \<Longrightarrow> only_clock f
      \<Longrightarrow> runs key_ok (changes_record L emailID f (w_max_value w Recipients)) w w'"
    by (simp add: kv_Store_def kv_UpdateRecord_runs)
  show "UpdateRecord ?T emailID f c w = (x, c', w') \<Longrightarrow> I c
          \<Longrightarrow> (\<And>r c w. I c \<Longrightarrow> I (fst (snd (f r c w)))) \<Longrightarrow> I c'"
    using kv_UpdateRecord_invar [of L emailID f c w x c' w' I] by (simp add: kv_Store_def)
  {
    assume "ScanGroupRecords ?T groupID offset limit fn acc w = (s, acc', w')"
    then have sc: "kv_ScanGroupRecords L groupID offset limit fn acc w = (s, acc', w')" by (simp add: kv_Store_def)
    obtain window ids w1 where sd: "scanned L groupID fn window acc w1 acc' w'" "runs key_ok no_write w w1"
      and win: "window = [] \<or> 0 \<le> sint offset \<and> 0 < sint limit
        \<and> window = scan_window ids offset (if sint limit \<le> int MaxGroupEmails then limit else int64 (int MaxGroupEmails))"
      using kv_ScanGroupRecords_scanned [OF sc] by blast
    show "runs key_ok no_write w w'" using sd runs_trans unfolding scanned_def by blast
    obtain ps where ps: "subseq (map fst ps) window" "\<forall>(i, r) \<in> set ps. served L groupID w1 i r"
      "snd (feed fn (map snd ps) acc) = acc'"
      using sd(1) unfolding scanned_def by blast
    have M: "sint (int64 (int MaxGroupEmails)) = int MaxGroupEmails"
      by (rule sint_int64_small) (simp_all add: MaxGroupEmails_def)
    have "length window \<le> MaxGroupEmails \<and> int (length window) \<le> max 0 (sint limit)"
    proof (cases "window = []")
      case False
      with win have o: "0 \<le> sint offset" and l: "0 < sint limit"
        and w: "window = scan_window ids offset
            (if sint limit \<le> int MaxGroupEmails then limit else int64 (int MaxGroupEmails))" by auto
      show ?thesis
      proof (cases "sint limit \<le> int MaxGroupEmails")
        case True
        with w have "length window \<le> nat (sint limit)" using scan_window_length [OF o l, of ids] by simp
        with True l show ?thesis by linarith
      next
        case False
        then have "length window \<le> nat (int MaxGroupEmails)"
          using w scan_window_length [OF o, of "int64 (int MaxGroupEmails)" ids] M by (simp add: MaxGroupEmails_def)
        with False show ?thesis by linarith
      qed
    qed simp
    moreover have "length ps \<le> length window" using list_emb_length [OF ps(1)] by simp
    moreover have "\<forall>r \<in> set (map snd ps). GroupID r = groupID" using ps(2) by (auto simp: served_def)
    ultimately show "\<exists>rs. acc' = snd (feed fn rs acc) \<and> (\<forall>r \<in> set rs. GroupID r = groupID)
             \<and> length rs \<le> MaxGroupEmails \<and> int (length rs) \<le> max 0 (sint limit)"
      using ps(3) by (intro exI [of _ "map snd ps"]) auto
  }
qed

section \<open>Properties\<close>

text \<open>Any sequence of operations of a tracking store.\<close>

inductive store_trace :: "('a, 'c) TrackingStore \<Rightarrow> world \<Rightarrow> world \<Rightarrow> bool" for T where
  tr_start: "store_trace T w w"
| tr_write: "store_trace T w w1 \<Longrightarrow> WriteRecord T emailID r w1 = (x, w') \<Longrightarrow> store_trace T w w'"
| tr_append: "store_trace T w w1 \<Longrightarrow> AppendToGroup T groupID emailID w1 = (x, w') \<Longrightarrow> store_trace T w w'"
| tr_exists: "store_trace T w w1 \<Longrightarrow> GroupExists T groupID w1 = (y, w') \<Longrightarrow> store_trace T w w'"
| tr_get: "store_trace T w w1 \<Longrightarrow> GetRecord T emailID w1 = (z, w') \<Longrightarrow> store_trace T w w'"
| tr_scan: "store_trace T w w1 \<Longrightarrow> ScanGroupRecords T groupID offset limit fn acc w1 = (s, acc', w')
          \<Longrightarrow> store_trace T w w'"
| tr_update: "store_trace T w w1 \<Longrightarrow> UpdateRecord T emailID f c w1 = (x, c', w') \<Longrightarrow> only_clock f
          \<Longrightarrow> store_trace T w w'"

inductive_cases store_traceE: "store_trace T w w'"

text \<open>A write of one of the three kinds the store does.\<close>

definition store_write :: "golib \<Rightarrow> kv_log \<Rightarrow> bool" where
  "store_write L = (\<lambda>(b, k, old, v).
     (case b of
        GroupIndex \<Rightarrow> (\<exists>emailID. v = marshal_ids (index_ids L old @ [emailID]))
                       \<and> length (index_ids L old) < MaxGroupEmails
      | Recipients \<Rightarrow> (\<exists>r. marshal_record r = Some v)))"

lemma store_write_kinds:
  "writes_record e r l \<Longrightarrow> store_write L l"
  "extends_index L g e l \<Longrightarrow> store_write L l"
  "changes_record L e f m l \<Longrightarrow> store_write L l"
  by (cases l; auto simp: writes_record_def extends_index_def changes_record_def store_write_def)+

lemma runs_extend: "runs K P w w1 \<Longrightarrow> runs K Q w1 w' \<Longrightarrow> (\<And>l. Q l \<Longrightarrow> P l) \<Longrightarrow> runs K P w w'"
  using runs_trans runs_mono by metis

lemma store_trace_runs:
  assumes "store_trace (kv_Store L) w w'" and "revisions_ok w"
  shows "runs key_ok (store_write L) w w'"
  using assms
proof (induction rule: store_trace.induct)
  case (tr_write w w1 e r x w')
  show ?case
    by (rule runs_extend [OF tr_write.IH [OF tr_write.prems] kv.write_runs [OF tr_write.hyps(2)] store_write_kinds(1)])
next
  case (tr_append w w1 g e x w')
  note IH = tr_append.IH [OF tr_append.prems]
  note ok = runs_revisions [OF IH tr_append.prems]
  show ?case
    by (rule runs_extend [OF IH kv.append_runs [OF tr_append.hyps(2) ok] store_write_kinds(2)])
next
  case (tr_update w w1 e f c x c' w')
  note IH = tr_update.IH [OF tr_update.prems]
  note ok = runs_revisions [OF IH tr_update.prems]
  show ?case
    by (rule runs_extend [OF IH kv.update_runs [OF tr_update.hyps(2) ok tr_update.hyps(3)] store_write_kinds(3)])
next
  case (tr_exists w w1 g y w')
  show ?case by (rule runs_trans [OF tr_exists.IH [OF tr_exists.prems] kv.exists_any [OF tr_exists.hyps(2)]])
next
  case (tr_get w w1 e z w')
  show ?case by (rule runs_trans [OF tr_get.IH [OF tr_get.prems] kv.get_any [OF tr_get.hyps(2)]])
next
  case (tr_scan w w1 g offset limit fn acc s acc' w')
  show ?case by (rule runs_trans [OF tr_scan.IH [OF tr_scan.prems] kv.scan_any [OF tr_scan.hyps(2)]])
qed simp

text \<open>
  C1: whatever sequence of store operations runs, against whatever other writers and failures,
  every key placed on the connection is non-empty, at most 256 bytes long and made of key
  characters only; every index write of the store replaces an entry by its own list of
  identifiers with one more at the end, never beyond 10000 entries, so no identifier another
  sender appended is lost; every record write is an encoded record.
\<close>

theorem store_trace_safe:
  assumes "store_trace (kv_Store L) w w'" and "revisions_ok w"
  shows "\<exists>cs ws. w_calls w' = w_calls w @ cs \<and> w_writes w' = w_writes w @ ws
     \<and> (\<forall>(b, k) \<in> set cs. 0 < length k \<and> length k \<le> 256 \<and> list_all is_key_char k)
     \<and> (\<forall>(b, k, old, v) \<in> set ws.
          case b of
            GroupIndex \<Rightarrow> (\<exists>emailID. v = marshal_ids (index_ids L old @ [emailID]))
                           \<and> length (index_ids L old) < 10000
          | Recipients \<Rightarrow> (\<exists>r. marshal_record r = Some v))"
proof -
  obtain cs ws where "w_calls w' = w_calls w @ cs" "w_writes w' = w_writes w @ ws"
    and cs: "list_all key_ok cs" and ws: "list_all (store_write L) ws"
    using store_trace_runs [OF assms] unfolding runs_def by blast
  moreover have "\<forall>(b, k) \<in> set cs. 0 < length k \<and> length k \<le> 256 \<and> list_all is_key_char k"
    using cs by (auto simp: list_all_iff key_ok_def checkKey_def maxKeyLen_def split: if_splits)
  moreover have "\<forall>(b, k, old, v) \<in> set ws.
          case b of
            GroupIndex \<Rightarrow> (\<exists>emailID. v = marshal_ids (index_ids L old @ [emailID]))
                           \<and> length (index_ids L old) < 10000
          | Recipients \<Rightarrow> (\<exists>r. marshal_record r = Some v)"
    using ws by (auto simp: list_all_iff store_write_def MaxGroupEmails_def split: bucket.splits)
  ultimately show ?thesis by blast
qed

lemma append_write_success:
  assumes "append_write retrying groupID emailID rv ids w = (Return None, w')"
  shows "(retrying \<and> emailID \<in> set ids \<and> w' = w)
    \<or> (\<exists>old. w_writes w' = w_writes w @ [(GroupIndex, groupID, old, marshal_ids (ids @ [emailID]))])"
proof (cases rv)
  case None
  with assms show ?thesis
    by (auto simp: append_write_def Let_def kv_create_def MaxGroupEmails_def split: store_splits
        dest!: kv_write_effect(7) [OF _ refl])
next
  case (Some n)
  with assms show ?thesis
    by (auto simp: append_write_def Let_def kv_update_def split: if_splits sum.splits prod.splits
        dest!: kv_write_effect(7) [OF _ refl])
qed

text \<open>How an append that returned no error is known to have reached the index.\<close>

definition index_written :: "string \<Rightarrow> string \<Rightarrow> world \<Rightarrow> world \<Rightarrow> bool" where
  "index_written g e w w' \<longleftrightarrow>
     (\<exists>ws old ids. w_writes w' = w_writes w @ ws \<and> (GroupIndex, g, old, marshal_ids (ids @ [e])) \<in> set ws)"

definition index_seen :: "golib \<Rightarrow> string \<Rightarrow> string \<Rightarrow> world \<Rightarrow> bool" where
  "index_seen L g e w \<longleftrightarrow>
     (\<exists>w' en ids. later w w' \<and> w_kv w' GroupIndex g = Some en
        \<and> unmarshal_ids L (ent_value en) = Some ids \<and> e \<in> set ids)"

lemma index_written_runs:
  "runs K P w w1 \<Longrightarrow> index_written g e w1 w' \<Longrightarrow> index_written g e w w'"
  unfolding runs_def index_written_def by fastforce

lemma index_seen_later: "later w w' \<Longrightarrow> index_seen L g e w' \<Longrightarrow> index_seen L g e w"
  unfolding index_seen_def using later_trans by blast

lemma kv_get_seen:
  "kv_get GroupIndex g w = (Inr en, w') \<Longrightarrow> unmarshal_ids L (ent_value en) = Some ids \<Longrightarrow> e \<in> set ids
     \<Longrightarrow> index_seen L g e w"
  unfolding index_seen_def using kv_get_effect(1,7) by blast

lemma append_attempt_success:
  assumes "append_attempt L retrying g e w = (Return None, w')" and "checkKey g = None"
  shows "index_written g e w w' \<or> index_seen L g e w"
proof -
  obtain x w1 where x: "kv_get GroupIndex g w = (x, w1)" by (cases "kv_get GroupIndex g w")
  define rv where "rv = (case x of Inl _ \<Rightarrow> None | Inr en \<Rightarrow> Some (ent_revision en))"
  define ids where "ids = (case x of Inl _ \<Rightarrow> [] | Inr en \<Rightarrow> index_ids L (Some en))"
  have a: "append_write retrying g e rv ids w1 = (Return None, w')"
    using assms(1) x by (auto simp: append_attempt_def rv_def ids_def index_ids_def split: sum.splits if_splits)
  from append_write_success [OF a] show ?thesis
  proof (elim disjE exE conjE)
    assume "e \<in> set ids"
    then obtain en where "x = Inr en" "e \<in> set (index_ids L (Some en))"
      by (cases x) (simp_all add: ids_def)
    moreover from this obtain ids' where "unmarshal_ids L (ent_value en) = Some ids'" "e \<in> set ids'"
      by (cases "unmarshal_ids L (ent_value en)") (simp_all add: index_ids_def)
    ultimately show ?thesis using kv_get_seen x by blast
  next
    fix old assume "w_writes w' = w_writes w1 @ [(GroupIndex, g, old, marshal_ids (ids @ [e]))]"
    then have "index_written g e w1 w'" by (auto simp: index_written_def)
    then show ?thesis using index_written_runs [OF runs_get [OF x assms(2)]] by blast
  qed
qed

lemma append_recorded:
  assumes "kv_AppendToGroup L g e w = (None, w')" and "revisions_ok w"
  shows "index_written g e w w' \<or> index_seen L g e w"
proof -
  have k: "checkKey g = None" and u: "isValidUUID e"
    using assms(1) by (auto simp: kv_AppendToGroup_def split: store_splits)
  obtain a w1 where a: "append_attempt L False g e w = (a, w1)" by (cases "append_attempt L False g e w")
  note r1 = append_attempt_runs [OF a assms(2) k]
  show ?thesis
  proof (cases a)
    case (Return r)
    with assms(1) a k u have "append_attempt L False g e w = (Return None, w')"
      by (simp add: kv_AppendToGroup_def)
    then show ?thesis by (rule append_attempt_success [OF _ k])
  next
    case (Retry e1)
    obtain b w2 where b: "append_attempt L True g e w1 = (b, w2)" by (cases "append_attempt L True g e w1")
    note r2 = append_attempt_runs [OF b runs_revisions [OF r1 assms(2)] k]
    show ?thesis
    proof (cases b)
      case (Return r)
      with Retry assms(1) a b k u have "append_attempt L True g e w1 = (Return None, w')"
        by (simp add: kv_AppendToGroup_def)
      from append_attempt_success [OF this k] show ?thesis
        using index_written_runs [OF r1] index_seen_later [OF runs_later [OF r1]] by blast
    next
      case (Retry e2)
      with \<open>a = Retry e1\<close> assms(1) a b k u have "append_reread L g e e2 w2 = (None, w')"
        by (simp add: kv_AppendToGroup_def)
      then have "index_seen L g e w2"
        by (auto simp: append_reread_def Let_def intro: kv_get_seen split: store_splits)
      then show ?thesis using index_seen_later [OF runs_later [OF runs_trans [OF r1 r2]]] by blast
    qed
  qed
qed


lemma scan_delivered:
  assumes "kv_ScanGroupRecords L g offset limit fn acc w = (res, acc', w')"
  shows "w_writes w' = w_writes w
    \<and> (\<exists>ps. acc' = snd (feed fn (map snd ps) acc)
        \<and> (\<forall>(i, r) \<in> set ps. served L g w i r)
        \<and> (ps = [] \<or> (\<exists>w1 en ids. later w w1 \<and> w_kv w1 GroupIndex g = Some en
             \<and> unmarshal_ids L (ent_value en) = Some ids
             \<and> subseq (map fst ps) (take (nat (min (sint limit) 10000)) (drop (nat (sint offset)) ids)))))"
proof -
  let ?lim = "if sint limit \<le> int MaxGroupEmails then limit else int64 (int MaxGroupEmails)"
  have M: "sint ?lim = min (sint limit) 10000"
    by (simp add: MaxGroupEmails_def sint_int64_small)
  obtain window ids w1 where sd: "scanned L g fn window acc w1 acc' w'" and r: "runs key_ok no_write w w1"
    and win: "window = [] \<or> 0 \<le> sint offset \<and> 0 < sint limit \<and> window = scan_window ids offset ?lim
        \<and> (\<exists>en. w_kv w1 GroupIndex g = Some en \<and> unmarshal_ids L (ent_value en) = Some ids)"
    using kv_ScanGroupRecords_scanned [OF assms] by blast
  from sd obtain ps where r2: "runs key_ok no_write w1 w'" and ps: "subseq (map fst ps) window"
    "\<forall>(i, r) \<in> set ps. served L g w1 i r" "snd (feed fn (map snd ps) acc) = acc'"
    unfolding scanned_def by blast
  have wr: "w_writes w' = w_writes w"
    by (rule runs_writes [OF runs_trans [OF r r2]])
  have sv: "\<forall>(i, r) \<in> set ps. served L g w i r"
    using ps(2) served_later [OF runs_later [OF r]] by blast
  have "ps = [] \<or> (\<exists>w1 en ids. later w w1 \<and> w_kv w1 GroupIndex g = Some en
             \<and> unmarshal_ids L (ent_value en) = Some ids
             \<and> subseq (map fst ps) (take (nat (min (sint limit) 10000)) (drop (nat (sint offset)) ids)))"
  proof (cases "window = []")
    case False
    with win obtain en where o: "0 \<le> sint offset" "0 < sint limit" and w: "window = scan_window ids offset ?lim"
      and en: "w_kv w1 GroupIndex g = Some en" "unmarshal_ids L (ent_value en) = Some ids" by blast
    have "0 < sint ?lim" using o(2) M by simp
    then have "subseq window (take (nat (sint ?lim)) (drop (nat (sint offset)) ids))"
      unfolding w by (rule scan_window_sub [OF o(1)])
    with ps(1) have "subseq (map fst ps) (take (nat (sint ?lim)) (drop (nat (sint offset)) ids))"
      by (rule subseq_order.order_trans)
    then show ?thesis using en runs_later [OF r] unfolding M by blast
  qed (use list_emb_length [OF ps(1)] in simp)
  with wr sv ps(3) show ?thesis by blast
qed


section \<open>Examples\<close>

lemma key_g: "checkKey ''g'' = None"
  by (simp add: checkKey_def maxKeyLen_def is_key_char_def is_digit_def byte_eval contains_def)

lemma checkKey_uuid0: "checkKey uuid0 = None"
  by (simp add: uuid0_def checkKey_def maxKeyLen_def is_key_char_def is_digit_def byte_eval contains_def)

definition append_end :: world where
  "append_end = snd (kv_AppendToGroup example_lib ''g'' uuid0 empty_world)"

lemma marshal_uuid0: "length (marshal_ids [uuid0]) = 40"
  using length_marshal_ids [of "[uuid0]"] uuid0 by simp

lemma append_end: "kv_AppendToGroup example_lib ''g'' uuid0 empty_world = (None, append_end)"
  and append_end_writes: "w_writes append_end = [(GroupIndex, ''g'', None, marshal_ids [uuid0])]"
  unfolding append_end_def
  by (simp_all add: kv_AppendToGroup_def uuid0 key_g append_attempt_def empty_world_def
     append_write_def MaxGroupEmails_def kv_eval marshal_uuid0)


theorem store_trace_safe_witness:
  "\<exists>cs ws. w_calls append_end = w_calls empty_world @ cs \<and> w_writes append_end = w_writes empty_world @ ws
     \<and> (\<forall>(b, k) \<in> set cs. 0 < length k \<and> length k \<le> 256 \<and> list_all is_key_char k)
     \<and> (\<forall>(b, k, old, v) \<in> set ws.
          case b of
            GroupIndex \<Rightarrow> (\<exists>emailID. v = marshal_ids (index_ids example_lib old @ [emailID]))
                           \<and> length (index_ids example_lib old) < 10000
          | Recipients \<Rightarrow> (\<exists>r. marshal_record r = Some v))"
proof -
  have "AppendToGroup (kv_Store example_lib :: (unit, unit) TrackingStore) ''g'' uuid0 empty_world = (None, append_end)"
    by (simp add: kv_Store_def append_end)
  then show ?thesis by (rule store_trace_safe [OF tr_append [OF tr_start] revisions_empty])
qed

definition scan_record :: rcpt where
  "scan_record = zero_record\<lparr>GroupID := ''g''\<rparr>"

definition scan_world :: world where
  "scan_world = put_entry Recipients uuid0 (json_print (record_json scan_record))
     (put_entry GroupIndex ''g'' (marshal_ids [uuid0, ''x'']) empty_world)"

lemma scan_record_read: "unmarshal_record L (json_print (record_json scan_record)) = Some scan_record"
  by (rule unmarshal_record_valid)
    (simp_all add: scan_record_def zero_record_def record_times_def record_strings_def opt_list_def
      zero_time_exact valid_utf8_ascii byte_eval)

lemma scan_index_read: "unmarshal_ids L (marshal_ids [uuid0, ''x'']) = Some [uuid0, ''x'']"
  by (rule unmarshal_ids_valid) (simp add: valid_utf8_ascii isValidUUID_ascii uuid0 byte_eval)

lemma isValidUUID_x: "\<not> isValidUUID ''x''"
  by (simp add: isValidUUID_def)

lemma scan_window_example: "scan_window [uuid0, ''x''] 0 10 = [uuid0, ''x'']"
  by (simp add: scan_window_def)

lemma scan_example:
  "\<exists>w'. kv_ScanGroupRecords example_lib ''g'' 0 10 (\<lambda>r n. (True, Suc n)) (0 :: nat) scan_world = ((2, None), 1, w')"
  by (simp add: kv_ScanGroupRecords_def key_g ctx_err_def kv_eval scan_world_def empty_world_def put_entry_def
    scan_index_read scan_record_read scan_window_example scan_chunks.simps groupReadConcurrency_def uuid0
    kv_GetRecord_def checkKey_uuid0 MaxGroupEmails_def isValidUUID_x)
    (simp add: scan_record_def)


end
