(* ===== verification/SmtpSender.thy ===== *)
theory SmtpSender
  imports SmtpMessage SmtpRedact SendHandler KvStore
begin

text \<open>
  The delivery of a message (\<open>sendMessage\<close> of \<open>smtp/message.go\<close>) and the two senders
  (\<open>smtp/sender.go\<close>, \<open>smtp/noop.go\<close>), with the contract of \<open>domain.Sender\<close>.
\<close>

section \<open>Delivery\<close>

record SmtpConfig =
  Host :: string
  Port :: int64
  FromAddress :: string
  FromDisplayName :: string
  Username :: string
  Password :: string
  ConfigurationSet :: string

definition needsQuoting :: "string \<Rightarrow> bool" where
  "needsQuoting addr \<longleftrightarrow> address_string addr \<noteq> CHR ''<'' # addr @ ''>''"

definition isThrottled :: "(nat \<times> string) option \<Rightarrow> bool" where
  "isThrottled reply =
     (case reply of None \<Rightarrow> False | Some (code, msg) \<Rightarrow> code = 454 \<and> prefix ''Throttling failure'' msg)"

definition sendMessage ::
    "golib \<Rightarrow> string \<Rightarrow> string \<Rightarrow> string \<Rightarrow> SmtpConfig \<Rightarrow> world \<Rightarrow> goerr option \<times> world" where
  "sendMessage L to from message cfg w =
     (let addr = Host cfg @ '':'' @ int_str (sint (Port cfg));
          auth = (if Username cfg \<noteq> [] \<and> Password cfg \<noteq> []
                  then Some (Username cfg, Password cfg) else None)
      in
      if CheckAddressLength L from \<noteq> None then (Some [ErrInvalidFromAddress], w)
      else
        (case lib_parse_address L from of
           None \<Rightarrow> (Some [ErrInvalidFromAddress], w)
         | Some fromAddr \<Rightarrow>
           if needsQuoting fromAddr then (Some [ErrInvalidFromAddress], w)
           else if CheckAddressLength L to \<noteq> None then (Some [ErrInvalidRecipientAddress], w)
           else
             (case lib_parse_address L to of
                None \<Rightarrow> (Some [ErrInvalidRecipientAddress], w)
              | Some toAddr \<Rightarrow>
                if needsQuoting toAddr then (Some [ErrInvalidRecipientAddress], w)
                else
                  (case smtp_send \<lparr>mail_server = addr, mail_auth = auth, mail_from = fromAddr,
                          mail_rcpt = toAddr, mail_data = message\<rparr> w of
                     (SmtpDone, w) \<Rightarrow> (None, w)
                   | (SmtpCtx e _, w) \<Rightarrow> (Some [e], w)
                   | (SmtpError text reply _, w) \<Rightarrow>
                       let err = redactAddressesInError (lib_unicode L) text [toAddr, fromAddr] in
                       (Some (if isThrottled reply then [ErrText err, ErrSendThrottled] else [ErrText err]), w)))))"

section \<open>The senders\<close>

text \<open>\<open>smtp/sender.go\<close> and \<open>smtp/noop.go\<close>.\<close>

definition defaultFromDisplayName :: string where
  "defaultFromDisplayName = ''LFX Self Serve''"

text \<open>The fields of the mail: those of the request first, the defaults of the service otherwise.\<close>

definition send_fields :: "SmtpConfig \<Rightarrow> SendEmailRequest \<Rightarrow> string \<Rightarrow> message_fields" where
  "send_fields cfg req emailID =
     (let fromAddr = (if req_from req = [] then FromAddress cfg else req_from req);
          fromDisplayName =
            (if req_from_display_name req = []
             then (if FromDisplayName cfg = [] then defaultFromDisplayName else FromDisplayName cfg)
             else req_from_display_name req)
      in \<lparr>mf_to = req_to req, mf_subject = req_subject req, mf_html = req_html req, mf_text = req_text req,
          mf_from = fromAddr, mf_from_name = fromDisplayName, mf_reply_to = req_reply_to req,
          mf_configuration_set = ConfigurationSet cfg, mf_tracking_id = emailID\<rparr>)"

definition SmtpSend :: "golib \<Rightarrow> SmtpConfig \<Rightarrow> sender" where
  "SmtpSend L cfg req w =
     (case uuid_new w of (emailID, w) \<Rightarrow>
       (case (if req_group_id req = [] then NewGroupHandle w else (req_group_id req, w)) of (groupID, w) \<Rightarrow>
         let f = send_fields cfg req emailID in
         (case buildEmailMessage L f w of (msg, w) \<Rightarrow>
           (case sendMessage L (req_to req) (mf_from f) msg cfg w of
              (Some e, w) \<Rightarrow> (([], [], Some (ErrText ''smtp send'' # e)), w)
            | (None, w) \<Rightarrow> ((emailID, groupID, None), w)))))"

definition NoOpSend :: sender where
  "NoOpSend req w = (([], [], None), w)"

section \<open>What a sender does\<close>

text \<open>The mail of a delivery: the addresses of its envelope are dot-atom mailboxes.\<close>

lemma sender_frame_trans: "sender_frame w w1 \<Longrightarrow> sender_frame w1 w2 \<Longrightarrow> sender_frame w w2"
  by (simp add: sender_frame_def)

definition mail_ok :: "golib \<Rightarrow> string \<Rightarrow> string \<Rightarrow> string \<Rightarrow> SmtpConfig \<Rightarrow> mail \<Rightarrow> bool" where
  "mail_ok L to from message cfg m \<longleftrightarrow>
     lib_parse_address L to = Some (mail_rcpt m) \<and> \<not> needsQuoting (mail_rcpt m) \<and> length (mail_rcpt m) \<le> 254
     \<and> lib_parse_address L from = Some (mail_from m) \<and> \<not> needsQuoting (mail_from m) \<and> length (mail_from m) \<le> 254
     \<and> mail_data m = message \<and> mail_server m = Host cfg @ '':'' @ int_str (sint (Port cfg))
     \<and> mail_auth m = (if Username cfg \<noteq> [] \<and> Password cfg \<noteq> [] then Some (Username cfg, Password cfg) else None)"

lemma smtp_send_frame:
  assumes "smtp_send m w = (out, w')"
  shows "\<exists>ms. w_sent w' = w_sent w @ ms \<and> ms \<in> {[], [m]} \<and> (out = SmtpDone \<longrightarrow> ms = [m]) \<and> sender_frame w w'
     \<and> w' = w\<lparr>w_smtp := w_smtp w', w_sent := w_sent w'\<rparr>"
  using assms by (auto simp: smtp_send_def Let_def sender_frame_def split: list.splits smtp_outcome.splits)

lemma sendMessage_cases:
  assumes "sendMessage L to from message cfg w = (err, w')"
  obtains (refused) "err \<noteq> None" "w' = w"
  | (handed) m out where "mail_ok L to from message cfg m" "smtp_send m w = (out, w')" "err = None \<longleftrightarrow> out = SmtpDone"
proof (cases "\<exists>a b. CheckAddressLength L from = None \<and> CheckAddressLength L to = None
    \<and> lib_parse_address L from = Some a \<and> \<not> needsQuoting a \<and> lib_parse_address L to = Some b \<and> \<not> needsQuoting b")
  case True
  then obtain a b where ab: "CheckAddressLength L from = None" "CheckAddressLength L to = None"
      "lib_parse_address L from = Some a" "\<not> needsQuoting a" "lib_parse_address L to = Some b" "\<not> needsQuoting b"
    by blast
  let ?m = "\<lparr>mail_server = Host cfg @ '':'' @ int_str (sint (Port cfg)),
    mail_auth = (if Username cfg \<noteq> [] \<and> Password cfg \<noteq> [] then Some (Username cfg, Password cfg) else None),
    mail_from = a, mail_rcpt = b, mail_data = message\<rparr>"
  obtain out w1 where s: "smtp_send ?m w = (out, w1)" by (cases "smtp_send ?m w")
  have "w' = w1 \<and> (err = None \<longleftrightarrow> out = SmtpDone)"
    using assms ab s by (cases out) (auto simp: sendMessage_def Let_def)
  moreover have "mail_ok L to from message cfg ?m"
    using ab CheckAddressLength_bounds(2) by (simp add: mail_ok_def)
  ultimately show thesis using s by (intro handed [of ?m out]) simp_all
next
  case False
  with assms show thesis
    by (intro refused) (auto simp: sendMessage_def Let_def split: if_splits option.splits)
qed

lemma sendMessage_effects:
  assumes "sendMessage L to from message cfg w = (err, w')"
  shows "\<exists>ms. w_sent w' = w_sent w @ ms \<and> length ms \<le> 1 \<and> (\<forall>m \<in> set ms. mail_ok L to from message cfg m)
     \<and> (err = None \<longrightarrow> ms \<noteq> []) \<and> sender_frame w w'"
  using assms
proof (cases rule: sendMessage_cases)
  case refused
  then show ?thesis by (simp add: sender_frame_def)
next
  case (handed m out)
  then show ?thesis using smtp_send_frame [OF handed(2)] by fastforce
qed

lemma SmtpSend_parts:
  assumes "SmtpSend L cfg req w = ((emailID, groupID, err), w')"
  obtains id w1 g w2 f msg w3 err' where "uuid_new w = (id, w1)"
    "(if req_group_id req = [] then NewGroupHandle w1 else (req_group_id req, w1)) = (g, w2)"
    "mf_tracking_id f = id" "mf_to f = req_to req" "mf_html f = req_html req" "mf_text f = req_text req"
    "mf_from f = (if req_from req = [] then FromAddress cfg else req_from req)"
    "buildEmailMessage L f w2 = (msg, w3)"
    "sendMessage L (req_to req) (mf_from f) msg cfg w3 = (err', w')"
    "err = None \<longleftrightarrow> err' = None" "err = None \<longrightarrow> emailID = id \<and> groupID = g"
proof -
  let ?f = "send_fields cfg req"
  obtain id w1 where u: "uuid_new w = (id, w1)" by (cases "uuid_new w")
  obtain g w2 where g: "(if req_group_id req = [] then NewGroupHandle w1 else (req_group_id req, w1)) = (g, w2)"
    by (cases "if req_group_id req = [] then NewGroupHandle w1 else (req_group_id req, w1)")
  obtain msg w3 where b: "buildEmailMessage L (?f id) w2 = (msg, w3)" by (cases "buildEmailMessage L (?f id) w2")
  obtain err' w4 where s: "sendMessage L (req_to req) (mf_from (?f id)) msg cfg w3 = (err', w4)"
    by (cases "sendMessage L (req_to req) (mf_from (?f id)) msg cfg w3")
  have "w4 = w' \<and> (err = None \<longleftrightarrow> err' = None) \<and> (err = None \<longrightarrow> emailID = id \<and> groupID = g)"
    using assms u g b s by (cases err') (auto simp: SmtpSend_def Let_def)
  with u g b s show thesis by (intro that [of id w1 g w2 "?f id" msg w3 err']) (simp_all add: send_fields_def Let_def)
qed

lemma SmtpSend_effects:
  assumes "SmtpSend L cfg req w = ((emailID, groupID, err), w')"
  shows "sender_frame w w'"
    and "\<exists>ms. w_sent w' = w_sent w @ ms \<and> length ms \<le> 1 \<and> (err = None \<longrightarrow> ms \<noteq> [])
           \<and> (\<forall>m \<in> set ms. \<exists>msg.
                mail_ok L (req_to req) (if req_from req = [] then FromAddress cfg else req_from req) msg cfg m)"
    and "err = None \<Longrightarrow> emailID = w_uuid w (w_uuids w)
           \<and> (if req_group_id req = [] then IsGroupHandle groupID else groupID = req_group_id req)"
proof -
  obtain id w1 g w2 f msg w3 err' where p: "uuid_new w = (id, w1)"
    "(if req_group_id req = [] then NewGroupHandle w1 else (req_group_id req, w1)) = (g, w2)"
    "mf_tracking_id f = id" "mf_to f = req_to req" "mf_html f = req_html req" "mf_text f = req_text req"
    "mf_from f = (if req_from req = [] then FromAddress cfg else req_from req)"
    "buildEmailMessage L f w2 = (msg, w3)"
    "sendMessage L (req_to req) (mf_from f) msg cfg w3 = (err', w')"
    "err = None \<longleftrightarrow> err' = None" "err = None \<longrightarrow> emailID = id \<and> groupID = g"
    using assms by (rule SmtpSend_parts)
  have w1: "w1 = w\<lparr>w_uuids := Suc (w_uuids w)\<rparr>" "id = w_uuid w (w_uuids w)"
    using p(1) by (auto simp: uuid_new_def)
  have w2: "w2 = w1\<lparr>w_draws := w_draws w2\<rparr>"
    using p(2) NewGroupHandle_frame [of w1 g w2] by (auto split: if_splits)
  have w3: "w3 = w2\<lparr>w_ticks := w_ticks w3, w_draws := w_draws w3\<rparr>" by (rule build_frame [OF p(8)])
  have sent: "w_sent w3 = w_sent w" by (subst w3, subst w2) (simp add: w1)
  have "sender_frame w w1" by (simp add: sender_frame_def w1)
  moreover have "sender_frame w1 w2" by (subst w2) (simp add: sender_frame_def)
  moreover have "sender_frame w2 w3" by (subst w3) (simp add: sender_frame_def)
  moreover have "sender_frame w3 w'" using sendMessage_effects [OF p(9)] by blast
  ultimately show "sender_frame w w'" by (metis sender_frame_trans)
  show "\<exists>ms. w_sent w' = w_sent w @ ms \<and> length ms \<le> 1 \<and> (err = None \<longrightarrow> ms \<noteq> [])
           \<and> (\<forall>m \<in> set ms. \<exists>msg.
                mail_ok L (req_to req) (if req_from req = [] then FromAddress cfg else req_from req) msg cfg m)"
    using sendMessage_effects [OF p(9), unfolded p(7)] sent p(10) by fastforce
  show "err = None \<Longrightarrow> emailID = w_uuid w (w_uuids w)
           \<and> (if req_group_id req = [] then IsGroupHandle groupID else groupID = req_group_id req)"
    using p(2,11) w1 NewGroupHandle_handle [of w1 g w2] by (auto split: if_splits)
qed

section \<open>The contract\<close>

interpretation smtp: email_sender "SmtpSend L cfg" L for L cfg
proof
  fix req w w' emailID groupID and x :: "string \<times> string \<times> goerr option"
  obtain e g err where x: "x = (e, g, err)" by (metis prod_cases3)
  show "SmtpSend L cfg req w = (x, w') \<Longrightarrow> sender_frame w w'"
    unfolding x by (rule SmtpSend_effects)
  show "SmtpSend L cfg req w = (x, w') \<Longrightarrow>
        \<exists>ms. w_sent w' = w_sent w @ ms \<and> length ms \<le> 1 \<and> (\<forall>m \<in> set ms. mailed_for L req m)"
    unfolding x using SmtpSend_effects(2) [of L cfg req w e g err w']
    by (fastforce simp: mail_ok_def mailed_for_def needsQuoting_def)
  show "SmtpSend L cfg req w = ((emailID, groupID, None), w') \<Longrightarrow> emailID \<noteq> [] \<Longrightarrow> uuids_ok w \<Longrightarrow>
        isValidUUID emailID
        \<and> (if req_group_id req = [] then IsGroupHandle groupID else groupID = req_group_id req)"
    using SmtpSend_effects(3) [of L cfg req w emailID groupID None w'] by (simp add: uuids_ok_def)
qed

interpretation noop: email_sender NoOpSend L for L
  by unfold_locales (auto simp: NoOpSend_def sender_frame_def)

interpretation service: send_service "kv_Store L" L key_ok "SmtpSend L cfg" for L cfg
  by unfold_locales

interpretation untracked: send_service NullTrackingStore L "\<lambda>_. False" "SmtpSend L cfg" for L cfg
  by unfold_locales

interpretation dry_run: send_service "kv_Store L" L key_ok NoOpSend for L
  by unfold_locales

end
