(* ===== verification/EngagementEvent.thy ===== *)
theory EngagementEvent
  imports Tracking JsonRoundtrip
begin

text \<open>
  \<open>internal/service/engagement_event_handler.go\<close>, the part below the handler: timestamps, the
  redaction of tracked links, the tracking header, the compaction of the open list and the
  state machine of a recipient record under engagement events, with the bound on the size of
  every record it can reach.
\<close>

section \<open>Timestamps, links, headers\<close>

definition parseTimestamp :: "golib \<Rightarrow> string \<Rightarrow> world \<Rightarrow> gtime \<times> world" where
  "parseTimestamp L s w =
     (if s = [] then now_utc w
      else
        (case time_parse s of
           None \<Rightarrow> now_utc w
         | Some t \<Rightarrow>
             if time_is_zero t then now_utc w
             else
               let t = time_utc t; y = time_year t
               in if y < 0 \<or> 9999 < y then now_utc w else (t, w)))"

text \<open>The fallback of \<open>redactLink\<close> for values that do not parse as an absolute URL.\<close>

definition strip_query :: "string \<Rightarrow> string" where
  "strip_query s = (case first_index (\<lambda>c. c \<in> set ''?#'') s of Some i \<Rightarrow> take i s | None \<Rightarrow> s)"

definition strip_userinfo :: "string \<Rightarrow> string" where
  "strip_userinfo s =
     (case index_sub ''://'' s of
        None \<Rightarrow> s
      | Some i \<Rightarrow>
          let rest = drop (i + 3) s;
              authority_end = (case first_index (\<lambda>c. c = CHR ''/'') rest of
                                 None \<Rightarrow> length rest | Some n \<Rightarrow> n)
          in (case last_index CHR ''@'' (take authority_end rest) of
                None \<Rightarrow> s
              | Some a \<Rightarrow> take (i + 3) s @ drop (a + 1) rest))"

definition redactLink :: "golib \<Rightarrow> string \<Rightarrow> string" where
  "redactLink L raw =
     (case lib_url_parse L raw of
        Some u \<Rightarrow>
          if u_host u \<noteq> []
          then lib_url_string L (u\<lparr>u_user := None, u_raw_query := [], u_fragment := []\<rparr>)
          else strip_userinfo (strip_query raw)
      | None \<Rightarrow> strip_userinfo (strip_query raw))"

fun extractEmailID :: "golib \<Rightarrow> sesHeader list \<Rightarrow> string" where
  "extractEmailID L [] = []"
| "extractEmailID L (h # hs) =
     (if equal_fold (lib_unicode L) (hdr_name h) ''X-LFX-TRACKING-ID''
      then
        let v = trim_space (hdr_value h) in
        (case last_index CHR ''/'' v of Some i \<Rightarrow> drop (i + 1) v | None \<Rightarrow> v)
      else extractEmailID L hs)"

section \<open>Compaction of the open list\<close>

definition maxKVRecordBytes :: nat where "maxKVRecordBytes = 50000"
definition compactAboveBytes :: nat where "compactAboveBytes = 55000"
definition maxOpenEvents :: nat where "maxOpenEvents = 500"
definition maxClickEventIDs :: nat where "maxClickEventIDs = 500"

definition within_budget :: "rcpt \<Rightarrow> bool" where
  "within_budget r =
     (case marshal_record r of Some b \<Rightarrow> length b \<le> maxKVRecordBytes | None \<Rightarrow> False)"

function compact_loop :: "rcpt \<Rightarrow> rcpt" where
  "compact_loop r =
     (if OpenedAtList r = [] then r
      else if within_budget r then r
      else compact_loop (r\<lparr>OpenedAtList :=
             drop (min (length (OpenedAtList r)) (maxOpenEvents div 10)) (OpenedAtList r)\<rparr>))"
  by pat_completeness auto
termination
  by (relation "measure (\<lambda>r. length (OpenedAtList r))") (auto simp: maxOpenEvents_def)

declare compact_loop.simps [simp del]

definition compactOpenedAtList :: "rcpt \<Rightarrow> rcpt" where
  "compactOpenedAtList r =
     (let r = (if sint (OpenCount r) < int (length (OpenedAtList r))
               then r\<lparr>OpenCount := int64 (int (length (OpenedAtList r)))\<rparr> else r)
      in
        if OpenedAtList r = [] then r
        else if maxOpenEvents < length (OpenedAtList r)
        then compact_loop (r\<lparr>OpenedAtList :=
               drop (length (OpenedAtList r) - maxOpenEvents) (OpenedAtList r)\<rparr>)
        else
          (case marshal_record r of
             None \<Rightarrow> r
           | Some b \<Rightarrow> if length b \<le> compactAboveBytes then r else compact_loop r))"

section \<open>One engagement event\<close>

text \<open>\<open>if last == nil || t.After(*last)\<close>.\<close>

definition latest :: "gtime option \<Rightarrow> gtime \<Rightarrow> gtime option" where
  "latest old t =
     (case old of None \<Rightarrow> Some t | Some u \<Rightarrow> if time_after t u then Some t else Some u)"

definition apply_open :: "string \<Rightarrow> gtime \<Rightarrow> rcpt \<Rightarrow> rcpt" where
  "apply_open snsMessageID t r =
     (let r = r\<lparr>Opened := True, OpenCount := OpenCount r + 1, LastOpenedAt := latest (LastOpenedAt r) t\<rparr>
      in
        if length (OpenedAtList r) < maxOpenEvents
        then
          let r' = r\<lparr>OpenedAtList := OpenedAtList r @ [\<lparr>oe_event_id = snsMessageID, oe_opened_at = t\<rparr>]\<rparr>
          in if within_budget r' then r' else r
        else r)"

definition apply_click :: "string \<Rightarrow> string \<Rightarrow> gtime \<Rightarrow> rcpt \<Rightarrow> rcpt" where
  "apply_click snsMessageID link t r =
     (let r = r\<lparr>Clicked := True, ClickCount := ClickCount r + 1, LastClickedAt := latest (LastClickedAt r) t\<rparr>;
          idAdded = (length (ClickEventIDs r) < maxClickEventIDs);
          r1 = (if idAdded then r\<lparr>ClickEventIDs := ClickEventIDs r @ [snsMessageID]\<rparr> else r);
          r2 = r1\<lparr>ClickList := ClickList r1
                 @ [\<lparr>ce_event_id = snsMessageID, ce_link = link, ce_clicked_at = t\<rparr>]\<rparr>
      in
        if within_budget r2 then r2
        else if idAdded \<and> \<not> within_budget r1 then r
        else r1)"

definition not_applied :: "bool \<times> gtime" where
  "not_applied = (False, zero_time)"

text \<open>The timestamp of the part of the event that belongs to its type; empty when it is absent.\<close>

definition opt_str :: "string option \<Rightarrow> string" where
  "opt_str s = (case s of None \<Rightarrow> [] | Some x \<Rightarrow> x)"

definition applyEngagementEvent ::
    "golib \<Rightarrow> rcpt \<Rightarrow> string \<Rightarrow> string \<Rightarrow> sesEvent \<Rightarrow> world \<Rightarrow> (bool \<times> gtime) \<times> rcpt \<times> world" where
  "applyEngagementEvent L record eventType snsMessageID event w =
     (if eventType = ''OPEN'' \<and> snsMessageID \<in> set (map oe_event_id (OpenedAtList record))
      then (not_applied, record, w)
      else
        let record = compactOpenedAtList record in
        if eventType = ''OPEN''
        then
          (case parseTimestamp L (opt_str (ses_open event)) w of (t, w) \<Rightarrow>
             ((True, t), apply_open snsMessageID t record, w))
        else if eventType = ''CLICK''
        then
          if snsMessageID \<in> set (ClickEventIDs record)
             \<or> snsMessageID \<in> set (map ce_event_id (ClickList record))
          then (not_applied, record, w)
          else
            let (ts, link) = (case ses_click event of
                  None \<Rightarrow> ([], []) | Some c \<Rightarrow> (clk_timestamp c, redactLink L (clk_link c)))
            in (case parseTimestamp L ts w of (t, w) \<Rightarrow>
                  ((True, t), apply_click snsMessageID link t record, w))
        else if eventType = ''DELIVERY''
        then
          if Delivered record then (not_applied, record, w)
          else
            (case parseTimestamp L (opt_str (ses_delivery event)) w of (t, w) \<Rightarrow>
               ((True, t), record\<lparr>Delivered := True, DeliveredAt := Some t\<rparr>, w))
        else if eventType = ''BOUNCE''
        then
          if Failed record then (not_applied, record, w)
          else
            (case parseTimestamp L (opt_str (ses_bounce event)) w of (t, w) \<Rightarrow>
               ((True, t), record\<lparr>Failed := True, FailedAt := Some t\<rparr>, w))
        else if eventType = ''COMPLAINT''
        then
          if Failed record then (not_applied, record, w)
          else
            (case parseTimestamp L (opt_str (ses_complaint event)) w of (t, w) \<Rightarrow>
               ((True, t), record\<lparr>Failed := True, FailedAt := Some t\<rparr>, w))
        else (not_applied, record, w))"

section \<open>The size of a record\<close>

text \<open>
  The encoded record in three parts: the members set at the send, the three history lists,
  and the members of bounded size. The last part takes between 91 and 347 bytes.
\<close>

definition head_size :: "rcpt \<Rightarrow> nat" where
  "head_size r = member_size
     [(''group_id'', json_string (GroupID r)), (''email_id'', json_string (EmailID r)),
      (''to'', json_string (To r)), (''subject'', json_string (Subject r)),
      (''sent_at'', json_time (SentAt r))]"

definition lists_size :: "rcpt \<Rightarrow> nat" where
  "lists_size r = member_size
     (list_member ''opened_at_list'' (map open_event_json (OpenedAtList r))
      @ list_member ''click_event_ids'' (map json_string (ClickEventIDs r))
      @ list_member ''click_list'' (map click_event_json (ClickList r)))"

definition scalars_size :: "rcpt \<Rightarrow> nat" where
  "scalars_size r = member_size
     ([(''delivered'', JBool (Delivered r)), (''opened'', JBool (Opened r)),
       (''open_count'', json_int (OpenCount r)), (''clicked'', JBool (Clicked r)),
       (''click_count'', json_int (ClickCount r)), (''failed'', JBool (Failed r))]
      @ opt_member ''delivered_at'' (DeliveredAt r) @ opt_member ''last_opened_at'' (LastOpenedAt r)
      @ opt_member ''last_clicked_at'' (LastClickedAt r) @ opt_member ''failed_at'' (FailedAt r))"

definition record_size :: "rcpt \<Rightarrow> nat" where
  "record_size r = length (json_print (record_json r))"

lemma record_members_ne: "record_members r \<noteq> []"
  by (simp add: record_members_def)

lemma record_parts_sum:
  "a1 + (a2 + (a3 + (a4 + (a5 + (b1 + (m1 + (b2 + (b3 + (m2 + (m3 + (b4 + (b5 + (m4 + (m5 + (m6 + (b6 + m7)))))))))))))))) + 1
     = (a1 + (a2 + (a3 + (a4 + a5)))) + (m2 + (m4 + m5)) + (b1 + (b2 + (b3 + (b4 + (b5 + (b6 + (m1 + (m3 + (m6 + m7))))))))) + (1 :: nat)"
  by linarith

lemma record_size_parts: "record_size r = head_size r + lists_size r + scalars_size r + 1"
proof -
  have "record_size r = member_size (record_members r) + 1"
    using json_len_JObj [OF record_members_ne] by (simp only: record_size_def record_json_def json_len_def)
  then show ?thesis
    unfolding record_members_def head_size_def lists_size_def scalars_size_def
      append_Cons append_Nil member_size_simps fst_conv snd_conv add_0_right
    by (rule trans) (rule record_parts_sum)
qed

definition times_ok :: "rcpt \<Rightarrow> bool" where
  "times_ok r \<longleftrightarrow> list_all time_exact (record_times r)"

lemma times_ok_encodable: "times_ok r \<Longrightarrow> encodable r"
  by (auto simp: times_ok_def encodable_def time_exact_def list_all_iff)

lemma opt_member_size_le: "list_all time_exact (opt_list x) \<Longrightarrow> member_size (opt_member k x) \<le> length k + 41"
  using json_len_time_le by (fastforce simp: opt_member_def opt_list_def time_exact_def split: option.splits)

lemma scalars_size_bounds:
  "91 \<le> scalars_size r" "times_ok r \<Longrightarrow> scalars_size r \<le> 347"
proof -
  show "91 \<le> scalars_size r"
    using json_len_int_le(1) [of "OpenCount r"] json_len_int_le(1) [of "ClickCount r"]
    by (simp add: scalars_size_def)
  assume t: "times_ok r"
  then have "list_all time_exact (opt_list (DeliveredAt r))" "list_all time_exact (opt_list (LastOpenedAt r))"
    "list_all time_exact (opt_list (LastClickedAt r))" "list_all time_exact (opt_list (FailedAt r))"
    by (simp_all add: times_ok_def record_times_def)
  from this [THEN opt_member_size_le, of "''delivered_at''"] this [THEN opt_member_size_le, of "''last_opened_at''"]
    this [THEN opt_member_size_le, of "''last_clicked_at''"] this [THEN opt_member_size_le, of "''failed_at''"]
  show "scalars_size r \<le> 347"
    using json_len_int_le(2) [of "OpenCount r"] json_len_int_le(2) [of "ClickCount r"]
    by (simp add: scalars_size_def)
qed

lemma within_budget_iff: "within_budget r \<longleftrightarrow> encodable r \<and> record_size r \<le> 50000"
  by (simp add: within_budget_def marshal_record_def record_size_def maxKVRecordBytes_def)

text \<open>
  The invariant of a record the service made: its times can be encoded and, unless its
  history is empty, history and fixed members fit the budget.
\<close>

definition no_history :: "rcpt \<Rightarrow> bool" where
  "no_history r \<longleftrightarrow> OpenedAtList r = [] \<and> ClickEventIDs r = [] \<and> ClickList r = []"

definition budgeted :: "rcpt \<Rightarrow> bool" where
  "budgeted r \<longleftrightarrow> times_ok r \<and> (no_history r \<or> head_size r + lists_size r + 92 \<le> 50000)"

lemma within_budget_budgeted: "times_ok r \<Longrightarrow> within_budget r \<Longrightarrow> budgeted r"
  using scalars_size_bounds(1) [of r] by (simp add: budgeted_def within_budget_iff record_size_parts)

lemma budgeted_size: "budgeted r \<Longrightarrow> head_size r \<le> 49908 \<Longrightarrow> record_size r \<le> 50256"
  using scalars_size_bounds(2) [of r]
  by (auto simp: budgeted_def record_size_parts no_history_def lists_size_def list_member_def)

section \<open>What compaction does\<close>

lemma compact_loop_drop:
  "\<exists>n. compact_loop r = r\<lparr>OpenedAtList := drop n (OpenedAtList r)\<rparr>"
proof (induction r rule: compact_loop.induct)
  case (1 r)
  show ?case
  proof (cases "OpenedAtList r = [] \<or> within_budget r")
    case True
    then have "compact_loop r = r\<lparr>OpenedAtList := drop 0 (OpenedAtList r)\<rparr>"
      by (subst compact_loop.simps) auto
    then show ?thesis ..
  next
    case False
    let ?k = "min (length (OpenedAtList r)) (maxOpenEvents div 10)"
    obtain n where "compact_loop (r\<lparr>OpenedAtList := drop ?k (OpenedAtList r)\<rparr>)
        = r\<lparr>OpenedAtList := drop n (drop ?k (OpenedAtList r))\<rparr>"
      using 1 False by auto
    then have "compact_loop r = r\<lparr>OpenedAtList := drop (n + ?k) (OpenedAtList r)\<rparr>"
      using False by (subst compact_loop.simps) simp
    then show ?thesis ..
  qed
qed

lemma compact_loop_fits: "OpenedAtList (compact_loop r) = [] \<or> within_budget (compact_loop r)"
proof (induction r rule: compact_loop.induct)
  case (1 r)
  then show ?case by (cases "OpenedAtList r = [] \<or> within_budget r") (auto simp: compact_loop.simps [of r])
qed

definition raised_count :: "rcpt \<Rightarrow> int64" where
  "raised_count r =
     (if sint (OpenCount r) < int (length (OpenedAtList r))
      then int64 (int (length (OpenedAtList r))) else OpenCount r)"

lemma compactOpenedAtList_cases:
  obtains (same) "compactOpenedAtList r = r\<lparr>OpenCount := raised_count r\<rparr>"
      "length (OpenedAtList r) \<le> maxOpenEvents"
      "OpenedAtList r = [] \<or> \<not> encodable r \<or> record_size (r\<lparr>OpenCount := raised_count r\<rparr>) \<le> 55000"
  | (trimmed) n where "compactOpenedAtList r
        = compact_loop (r\<lparr>OpenCount := raised_count r, OpenedAtList := drop n (OpenedAtList r)\<rparr>)"
      "length (OpenedAtList r) - n \<le> maxOpenEvents"
proof -
  let ?r = "r\<lparr>OpenCount := raised_count r\<rparr>"
  have r: "(if sint (OpenCount r) < int (length (OpenedAtList r))
      then r\<lparr>OpenCount := int64 (int (length (OpenedAtList r)))\<rparr> else r) = ?r"
    by (simp add: raised_count_def)
  have enc: "encodable ?r = encodable r" by (simp add: encodable_def record_times_def)
  note d = compactOpenedAtList_def [of r, unfolded r Let_def]
  consider "OpenedAtList r = []" | "maxOpenEvents < length (OpenedAtList r)"
    | "OpenedAtList r \<noteq> []" "length (OpenedAtList r) \<le> maxOpenEvents" by linarith
  then show thesis
  proof cases
    case 1 then show thesis using same by (simp add: d)
  next
    case 2
    then have "OpenedAtList r \<noteq> []" by auto
    with 2 show thesis using trimmed [of "length (OpenedAtList r) - maxOpenEvents"] by (simp add: d)
  next
    case 3
    show thesis
    proof (cases "encodable r \<and> 55000 < record_size ?r")
      case True
      then show thesis using trimmed [of 0] 3
        by (auto simp: d marshal_record_def enc record_size_def compactAboveBytes_def)
    next
      case False
      then show thesis using same 3
        by (auto simp: d marshal_record_def enc record_size_def compactAboveBytes_def not_less)
    qed
  qed
qed

lemma compact_drop:
  "\<exists>n. compactOpenedAtList r = r\<lparr>OpenCount := raised_count r, OpenedAtList := drop n (OpenedAtList r)\<rparr>"
proof (cases r rule: compactOpenedAtList_cases)
  case same
  then show ?thesis by (intro exI [of _ 0]) simp
next
  case (trimmed n)
  obtain k where "compact_loop (r\<lparr>OpenCount := raised_count r, OpenedAtList := drop n (OpenedAtList r)\<rparr>)
      = r\<lparr>OpenCount := raised_count r, OpenedAtList := drop k (drop n (OpenedAtList r))\<rparr>"
    using compact_loop_drop [of "r\<lparr>OpenCount := raised_count r, OpenedAtList := drop n (OpenedAtList r)\<rparr>"]
    by auto
  then show ?thesis using trimmed(1) by auto
qed

lemma member_size_list_drop:
  "member_size (list_member k (map f (drop n xs))) \<le> member_size (list_member k (map f xs))"
proof -
  have "elem_size (map f (drop n xs)) \<le> elem_size (map f xs)"
    by (metis append_take_drop_id elem_size_simps(3) le_add2 map_append)
  then show ?thesis by (auto simp: list_member_def json_len_JArr)
qed

lemma lists_size_drop:
  "lists_size (r\<lparr>OpenCount := c, OpenedAtList := drop n (OpenedAtList r)\<rparr>) \<le> lists_size r"
  using member_size_list_drop [of "''opened_at_list''" open_event_json n "OpenedAtList r"]
  by (simp add: lists_size_def)

lemma times_ok_drop:
  "times_ok r \<Longrightarrow> times_ok (r\<lparr>OpenCount := c, OpenedAtList := drop n (OpenedAtList r)\<rparr>)"
  by (auto simp: times_ok_def record_times_def list_all_iff dest: in_set_dropD)

lemma compact_budgeted: "budgeted r \<Longrightarrow> budgeted (compactOpenedAtList r)"
proof -
  assume b: "budgeted r"
  obtain n where n: "compactOpenedAtList r = r\<lparr>OpenCount := raised_count r, OpenedAtList := drop n (OpenedAtList r)\<rparr>"
    using compact_drop by blast
  show ?thesis
    using b lists_size_drop [where r = r and c = "raised_count r" and n = n]
      times_ok_drop [where r = r and c = "raised_count r" and n = n]
    by (auto simp: budgeted_def n no_history_def head_size_def)
qed

section \<open>Every event keeps the budget\<close>

text \<open>The clock gives times of the calendar's range; so does the time parser.\<close>

definition clock_ok :: "world \<Rightarrow> bool" where
  "clock_ok w \<longleftrightarrow> (\<forall>n. time_exact (time_utc (w_now w n)))"

lemma times_ok_reads_back:
  "times_ok r \<Longrightarrow> marshal_record r = Some b \<Longrightarrow> unmarshal_record L b = Some (record_utf8 r)"
  by (simp add: times_ok_def unmarshal_marshal_record)

lemma now_utc_good: "now_utc w = (t, w') \<Longrightarrow> clock_ok w \<Longrightarrow> time_exact t"
  by (auto simp: now_utc_def clock_ok_def)

lemma parseTimestamp_good:
  assumes "parseTimestamp L s w = (t, w')" and "clock_ok w"
  shows "time_exact t"
proof (cases "now_utc w = (t, w')")
  case False
  with assms(1) obtain u where u: "time_parse s = Some u" "t = time_utc u"
    "\<not> (time_year (time_utc u) < 0 \<or> 9999 < time_year (time_utc u))"
    by (auto simp: parseTimestamp_def Let_def split: if_splits option.splits)
  moreover have "t_nsec u < 10 ^ 9" using u(1) by (rule time_parse_nsec)
  ultimately show ?thesis by (auto simp: time_exact_def time_encodable_def zone_minutes_def)
qed (use assms(2) now_utc_good in blast)

lemma parseTimestamp_runs: "parseTimestamp L s w = (t, w') \<Longrightarrow> runs K P w w'"
  by (auto simp: parseTimestamp_def Let_def intro: runs_now_utc split: if_splits option.splits)

lemma apply_open_times:
  "times_ok r \<Longrightarrow> time_exact t \<Longrightarrow> times_ok (apply_open i t r)"
  by (auto simp: apply_open_def Let_def times_ok_def record_times_def opt_list_def latest_def list_all_iff
      split: option.splits)

lemma budgeted_same_lists:
  "budgeted r \<Longrightarrow> times_ok r' \<Longrightarrow> head_size r' = head_size r \<Longrightarrow> OpenedAtList r' = OpenedAtList r
     \<Longrightarrow> ClickEventIDs r' = ClickEventIDs r \<Longrightarrow> ClickList r' = ClickList r \<Longrightarrow> budgeted r'"
  by (auto simp: budgeted_def no_history_def lists_size_def)

lemma apply_open_budgeted:
  assumes "budgeted r" and "time_exact t"
  shows "budgeted (apply_open i t r)"
proof (cases "OpenedAtList (apply_open i t r) = OpenedAtList r")
  case True
  show ?thesis
    by (rule budgeted_same_lists [OF assms(1) apply_open_times [OF _ assms(2)] _ True])
      (use assms(1) in \<open>simp_all add: budgeted_def apply_open_def Let_def head_size_def\<close>)
next
  case False
  then have "within_budget (apply_open i t r)" by (auto simp: apply_open_def Let_def split: if_splits)
  moreover have "times_ok (apply_open i t r)" using assms apply_open_times by (simp add: budgeted_def)
  ultimately show ?thesis by (intro within_budget_budgeted)
qed

lemma apply_click_times:
  "times_ok r \<Longrightarrow> time_exact t \<Longrightarrow> times_ok (apply_click i l t r)"
  by (auto simp: apply_click_def Let_def times_ok_def record_times_def opt_list_def latest_def list_all_iff
      split: option.splits)

lemma apply_click_budgeted:
  assumes "budgeted r" and "time_exact t"
  shows "budgeted (apply_click i l t r)"
proof (cases "ClickEventIDs (apply_click i l t r) = ClickEventIDs r \<and> ClickList (apply_click i l t r) = ClickList r")
  case True
  show ?thesis
    by (rule budgeted_same_lists [OF assms(1) apply_click_times [OF _ assms(2)] _ _ conjunct1 [OF True] conjunct2 [OF True]])
      (use assms(1) in \<open>simp_all add: budgeted_def apply_click_def Let_def head_size_def\<close>)
next
  case False
  then have "within_budget (apply_click i l t r)" by (auto simp: apply_click_def Let_def split: if_splits)
  moreover have "times_ok (apply_click i l t r)" using assms apply_click_times by (simp add: budgeted_def)
  ultimately show ?thesis by (intro within_budget_budgeted)
qed

lemma single_fire_budgeted:
  assumes "budgeted r" and "time_exact t"
  shows "budgeted (r\<lparr>Delivered := True, DeliveredAt := Some t\<rparr>)"
    and "budgeted (r\<lparr>Failed := True, FailedAt := Some t\<rparr>)"
proof -
  have t: "times_ok r" using assms(1) by (simp add: budgeted_def)
  have 1: "times_ok (r\<lparr>Delivered := True, DeliveredAt := Some t\<rparr>)"
    using t assms(2) by (simp add: times_ok_def record_times_def opt_list_def)
  show "budgeted (r\<lparr>Delivered := True, DeliveredAt := Some t\<rparr>)"
    by (rule budgeted_same_lists [OF assms(1) 1]) (simp_all add: head_size_def)
  have 2: "times_ok (r\<lparr>Failed := True, FailedAt := Some t\<rparr>)"
    using t assms(2) by (simp add: times_ok_def record_times_def opt_list_def)
  show "budgeted (r\<lparr>Failed := True, FailedAt := Some t\<rparr>)"
    by (rule budgeted_same_lists [OF assms(1) 2]) (simp_all add: head_size_def)
qed

lemma applyEngagementEvent_budgeted:
  assumes "applyEngagementEvent L r et i ev w = (res, r', w')" and "budgeted r"
    and "clock_ok w"
  shows "budgeted r'"
proof -
  note b = compact_budgeted [OF assms(2)]
  have g: "parseTimestamp L s w = (t, w1) \<Longrightarrow> time_exact t" for s t w1
    by (rule parseTimestamp_good [OF _ assms(3)])
  show ?thesis using assms(1,2)
    unfolding applyEngagementEvent_def Let_def
    by (auto split: if_splits prod.splits
        intro: b apply_open_budgeted [OF b g] apply_click_budgeted [OF b g] single_fire_budgeted [OF b g])
qed

section \<open>The transitions of a record\<close>

text \<open>Every result of an event, by the branch that gave it.\<close>

lemma applyEngagementEvent_cases:
  assumes "applyEngagementEvent L r et i ev w = ((a, t), r', w')"
  obtains (replayed_open) "et = ''OPEN''" "i \<in> set (map oe_event_id (OpenedAtList r))" "\<not> a" "r' = r" "w' = w"
  | (dropped) "\<not> a" "r' = compactOpenedAtList r" "w' = w"
      "et = ''CLICK'' \<longrightarrow> i \<in> set (ClickEventIDs r) \<or> i \<in> set (map ce_event_id (ClickList r))"
  | (opened) "et = ''OPEN''" "a" "i \<notin> set (map oe_event_id (OpenedAtList r))"
      "parseTimestamp L (opt_str (ses_open ev)) w = (t, w')" "r' = apply_open i t (compactOpenedAtList r)"
  | (clicked) s l where "et = ''CLICK''" "a" "i \<notin> set (ClickEventIDs r)" "i \<notin> set (map ce_event_id (ClickList r))"
      "parseTimestamp L s w = (t, w')" "r' = apply_click i l t (compactOpenedAtList r)"
      "l = (case ses_click ev of None \<Rightarrow> [] | Some c \<Rightarrow> redactLink L (clk_link c))"
  | (delivered) s where "et = ''DELIVERY''" "a" "\<not> Delivered r" "parseTimestamp L s w = (t, w')"
      "r' = (compactOpenedAtList r)\<lparr>Delivered := True, DeliveredAt := Some t\<rparr>"
  | (failed) s where "et = ''BOUNCE'' \<or> et = ''COMPLAINT''" "a" "\<not> Failed r" "parseTimestamp L s w = (t, w')"
      "r' = (compactOpenedAtList r)\<lparr>Failed := True, FailedAt := Some t\<rparr>"
proof -
  obtain n where n: "compactOpenedAtList r = r\<lparr>OpenCount := raised_count r, OpenedAtList := drop n (OpenedAtList r)\<rparr>"
    using compact_drop by blast
  then have f: "ClickEventIDs (compactOpenedAtList r) = ClickEventIDs r"
    "ClickList (compactOpenedAtList r) = ClickList r" "Delivered (compactOpenedAtList r) = Delivered r"
    "Failed (compactOpenedAtList r) = Failed r" by simp_all
  consider "et = ''OPEN''" | "et = ''CLICK''" | "et = ''DELIVERY''" | "et = ''BOUNCE'' \<or> et = ''COMPLAINT''"
    | "et \<notin> {''OPEN'', ''CLICK'', ''DELIVERY'', ''BOUNCE'', ''COMPLAINT''}" by blast
  then show thesis
  proof cases
    case 1
    with assms show thesis
      by (auto simp: applyEngagementEvent_def Let_def not_applied_def split: if_splits prod.splits
          intro: replayed_open opened)
  next
    case 2
    obtain ts l where tl: "(case ses_click ev of None \<Rightarrow> ([], []) | Some c \<Rightarrow> (clk_timestamp c, redactLink L (clk_link c))) = (ts, l)"
      by (cases "ses_click ev") auto
    then have l: "l = (case ses_click ev of None \<Rightarrow> [] | Some c \<Rightarrow> redactLink L (clk_link c))"
      by (auto split: option.splits)
    from 2 assms show thesis
      by (auto simp: applyEngagementEvent_def Let_def not_applied_def f tl split: if_splits prod.splits
          intro: dropped clicked [OF _ _ _ _ _ _ l])
  next
    case 3
    with assms show thesis
      by (auto simp: applyEngagementEvent_def Let_def not_applied_def f split: if_splits prod.splits
          intro: dropped delivered)
  next
    case 4
    with assms show thesis
      by (auto simp: applyEngagementEvent_def Let_def not_applied_def f split: if_splits prod.splits
          intro: dropped failed)
  next
    case 5
    with assms show thesis
      by (auto simp: applyEngagementEvent_def Let_def not_applied_def intro: dropped)
  qed
qed

definition identity_of :: "rcpt \<Rightarrow> string \<times> string \<times> string \<times> string \<times> gtime" where
  "identity_of r = (GroupID r, EmailID r, To r, Subject r, SentAt r)"

lemma head_size_identity: "identity_of r = identity_of r' \<Longrightarrow> head_size r = head_size r'"
  by (simp add: identity_of_def head_size_def)

lemma compact_frame:
  "identity_of (compactOpenedAtList r) = identity_of r"
  "Delivered (compactOpenedAtList r) = Delivered r" "DeliveredAt (compactOpenedAtList r) = DeliveredAt r"
  "Failed (compactOpenedAtList r) = Failed r" "FailedAt (compactOpenedAtList r) = FailedAt r"
  "Opened (compactOpenedAtList r) = Opened r" "Clicked (compactOpenedAtList r) = Clicked r"
  "ClickCount (compactOpenedAtList r) = ClickCount r" "ClickEventIDs (compactOpenedAtList r) = ClickEventIDs r"
  "ClickList (compactOpenedAtList r) = ClickList r" "OpenCount (compactOpenedAtList r) = raised_count r"
  "LastOpenedAt (compactOpenedAtList r) = LastOpenedAt r" "LastClickedAt (compactOpenedAtList r) = LastClickedAt r"
  using compact_drop [of r] by (auto simp: identity_of_def)

lemma apply_open_frame:
  "identity_of (apply_open i t r) = identity_of r"
  "Delivered (apply_open i t r) = Delivered r" "DeliveredAt (apply_open i t r) = DeliveredAt r"
  "Failed (apply_open i t r) = Failed r" "FailedAt (apply_open i t r) = FailedAt r"
  "Opened (apply_open i t r)" "Clicked (apply_open i t r) = Clicked r"
  "ClickCount (apply_open i t r) = ClickCount r" "ClickEventIDs (apply_open i t r) = ClickEventIDs r"
  "ClickList (apply_open i t r) = ClickList r" "OpenCount (apply_open i t r) = OpenCount r + 1"
  "LastOpenedAt (apply_open i t r) = latest (LastOpenedAt r) t" "LastClickedAt (apply_open i t r) = LastClickedAt r"
  by (simp_all add: apply_open_def Let_def identity_of_def)

lemma apply_click_frame:
  "identity_of (apply_click i l t r) = identity_of r"
  "Delivered (apply_click i l t r) = Delivered r" "DeliveredAt (apply_click i l t r) = DeliveredAt r"
  "Failed (apply_click i l t r) = Failed r" "FailedAt (apply_click i l t r) = FailedAt r"
  "Opened (apply_click i l t r) = Opened r" "Clicked (apply_click i l t r)"
  "ClickCount (apply_click i l t r) = ClickCount r + 1" "OpenCount (apply_click i l t r) = OpenCount r"
  "OpenedAtList (apply_click i l t r) = OpenedAtList r"
  "LastOpenedAt (apply_click i l t r) = LastOpenedAt r" "LastClickedAt (apply_click i l t r) = latest (LastClickedAt r) t"
  by (simp_all add: apply_click_def Let_def identity_of_def)

lemmas event_frames = compact_frame apply_open_frame apply_click_frame

lemma applyEngagementEvent_identity:
  assumes "applyEngagementEvent L r et i ev w = ((a, t), r', w')"
  shows "identity_of r' = identity_of r"
  using assms by (cases rule: applyEngagementEvent_cases) (simp_all add: event_frames, simp_all add: identity_of_def compact_frame [unfolded identity_of_def])

text \<open>A record after any number of engagement events.\<close>

inductive engaged :: "golib \<Rightarrow> rcpt \<Rightarrow> rcpt \<Rightarrow> bool" for L r0 where
  sent: "engaged L r0 r0"
| event: "engaged L r0 r \<Longrightarrow> applyEngagementEvent L r et i ev w = (res, r', w') \<Longrightarrow> clock_ok w
          \<Longrightarrow> engaged L r0 r'"

lemma engaged_budgeted:
  assumes "engaged L r0 r" and "budgeted r0"
  shows "budgeted r \<and> identity_of r = identity_of r0"
  using assms
proof induction
  case (event r et i ev w res r' w')
  then show ?case
    using applyEngagementEvent_budgeted applyEngagementEvent_identity by (metis prod.collapse)
qed simp

lemma similar_size:
  assumes "times_ok r'" and "identity_of r' = identity_of r" and "lists_size r' \<le> lists_size r"
  shows "record_size r' \<le> record_size r + 256"
  using scalars_size_bounds(1) [of r] scalars_size_bounds(2) [OF assms(1)] assms(3)
    head_size_identity [OF assms(2)] by (simp add: record_size_parts)

text \<open>
  A compacted record is small whatever its open list was.
\<close>

lemma compact_size:
  assumes "times_ok r" and "record_size (r\<lparr>OpenedAtList := []\<rparr>) \<le> 49744"
  shows "record_size (compactOpenedAtList r) \<le> 55000"
proof -
  have t: "times_ok (compactOpenedAtList r)"
    using compact_drop [of r] times_ok_drop [OF assms(1)] by metis
  have empty: "record_size (compactOpenedAtList r) \<le> 55000" if "OpenedAtList (compactOpenedAtList r) = []"
  proof -
    have "lists_size (compactOpenedAtList r) = lists_size (r\<lparr>OpenedAtList := []\<rparr>)"
      using that by (simp add: lists_size_def compact_frame)
    moreover have "identity_of (compactOpenedAtList r) = identity_of (r\<lparr>OpenedAtList := []\<rparr>)"
      by (simp add: compact_frame) (simp add: identity_of_def)
    ultimately show ?thesis using similar_size [OF t] assms(2) by fastforce
  qed
  show ?thesis
  proof (cases r rule: compactOpenedAtList_cases)
    case same
    then show ?thesis using empty times_ok_encodable [OF assms(1)] by auto
  next
    case (trimmed n)
    then show ?thesis using empty compact_loop_fits by (fastforce simp: within_budget_iff)
  qed
qed

text \<open>
  C6: a record written by a send, of at most 50000 bytes with its subject and addresses, stays
  encodable and within 50256 bytes under any sequence of engagement events, whatever their
  number, order, identifiers, links and timestamps: below the compaction threshold and below
  the bucket's limit, so an event of a known e-mail is never dropped as too large. The text that
  is stored is read back as the same record, its strings coerced to UTF-8.
\<close>

theorem engaged_record_fits:
  assumes "engaged L r0 r"
    and "no_history r0" and "times_ok r0" and "record_size r0 \<le> 50000"
  shows "\<exists>b. marshal_record r = Some b \<and> length b \<le> 50256
     \<and> length b \<le> compactAboveBytes \<and> length b < maxValueSize Recipients
     \<and> unmarshal_record L b = Some (record_utf8 r)"
proof -
  have "budgeted r0" using assms(2,3) by (simp add: budgeted_def)
  then have b: "budgeted r" and i: "identity_of r = identity_of r0"
    using engaged_budgeted [OF assms(1)] by auto
  have "head_size r0 \<le> 49908"
    using scalars_size_bounds(1) [of r0] assms(4) by (simp add: record_size_parts)
  then have "record_size r \<le> 50256" using budgeted_size [OF b] head_size_identity [OF i] by simp
  moreover have t: "times_ok r" using b by (simp add: budgeted_def)
  moreover have m: "marshal_record r = Some (json_print (record_json r))"
    using times_ok_encodable [OF t] by (simp add: marshal_record_def)
  ultimately show ?thesis
    using times_ok_reads_back [OF t m] by (simp add: m record_size_def compactAboveBytes_def)
qed

lemma compact_length: "length (OpenedAtList (compactOpenedAtList r)) \<le> maxOpenEvents"
proof (cases r rule: compactOpenedAtList_cases)
  case (trimmed n)
  let ?r = "r\<lparr>OpenCount := raised_count r, OpenedAtList := drop n (OpenedAtList r)\<rparr>"
  obtain k where "compact_loop ?r = ?r\<lparr>OpenedAtList := drop k (OpenedAtList ?r)\<rparr>"
    using compact_loop_drop by blast
  then show ?thesis using trimmed by simp
qed simp

lemma apply_open_cases:
  "(OpenedAtList (apply_open i t r) = OpenedAtList r
      \<or> OpenedAtList (apply_open i t r) = OpenedAtList r @ [\<lparr>oe_event_id = i, oe_opened_at = t\<rparr>]
         \<and> within_budget (apply_open i t r) \<and> length (OpenedAtList r) < maxOpenEvents)"
  by (auto simp: apply_open_def Let_def)

lemma apply_click_cases:
  "within_budget (apply_click i l t r)
   \<or> (ClickEventIDs (apply_click i l t r) = ClickEventIDs r \<and> ClickList (apply_click i l t r) = ClickList r)"
  by (auto simp: apply_click_def Let_def)

lemma applyEngagementEvent_times:
  assumes "applyEngagementEvent L r et i ev w = ((a, t), r', w')"
    and "times_ok r" and "clock_ok w"
  shows "times_ok r'"
proof -
  have c: "times_ok (compactOpenedAtList r)"
    using compact_drop [of r] times_ok_drop [OF assms(2)] by metis
  have g: "parseTimestamp L s w = (t, w') \<Longrightarrow> time_exact t" for s
    by (rule parseTimestamp_good [OF _ assms(3)])
  from assms(1) show ?thesis
  proof (cases rule: applyEngagementEvent_cases)
    case (delivered s)
    with c g show ?thesis by (simp add: times_ok_def record_times_def opt_list_def)
  next
    case (failed s)
    with c g show ?thesis by (simp add: times_ok_def record_times_def opt_list_def)
  qed (use assms(2) c apply_open_times [OF c g] apply_click_times [OF c g] in simp_all)
qed

lemma event_size:
  assumes "applyEngagementEvent L r et i ev w = ((True, t), r', w')"
  shows "within_budget r' \<or> lists_size r' = lists_size (compactOpenedAtList r)"
  using assms
proof (cases rule: applyEngagementEvent_cases)
  case opened
  then show ?thesis using apply_open_cases [of i t "compactOpenedAtList r"] apply_open_frame
    by (auto simp: lists_size_def)
next
  case (clicked s l)
  then show ?thesis using apply_click_cases [of i l t "compactOpenedAtList r"] apply_click_frame
    by (auto simp: lists_size_def)
qed (auto simp: lists_size_def)

lemma opens_kept:
  assumes "applyEngagementEvent L r et i ev w = ((True, t), r', w')"
  shows "\<exists>n. OpenedAtList r' \<in> {drop n (OpenedAtList r),
        drop n (OpenedAtList r) @ [\<lparr>oe_event_id = i, oe_opened_at = t\<rparr>]}
      \<and> length (OpenedAtList r') \<le> 500"
proof -
  obtain n where n: "OpenedAtList (compactOpenedAtList r) = drop n (OpenedAtList r)"
    using compact_drop [of r] by auto
  note l = compact_length [of r, unfolded maxOpenEvents_def]
  from assms show ?thesis
  proof (cases rule: applyEngagementEvent_cases)
    case opened
    then show ?thesis using apply_open_cases [of i t "compactOpenedAtList r"] n l
      by (intro exI [of _ n]) (auto simp: maxOpenEvents_def)
  qed (use n l in \<open>auto simp: apply_click_frame intro!: exI [of _ n]\<close>)
qed



text \<open>When the identifier of an event is kept.\<close>

lemma open_id_kept:
  "i \<in> set (map oe_event_id (OpenedAtList (apply_open i t r))) \<longleftrightarrow>
     i \<in> set (map oe_event_id (OpenedAtList r)) \<or> OpenedAtList (apply_open i t r) \<noteq> OpenedAtList r"
  by (auto simp: apply_open_def Let_def)

lemma click_id_kept:
  "length (ClickEventIDs r) < maxClickEventIDs \<Longrightarrow> within_budget (apply_click i l t r)
     \<Longrightarrow> ClickEventIDs (apply_click i l t r) \<noteq> ClickEventIDs r \<Longrightarrow> i \<in> set (ClickEventIDs (apply_click i l t r))"
  by (auto simp: apply_click_def Let_def split: if_splits)

definition not_before :: "gtime option \<Rightarrow> gtime option \<Rightarrow> bool" where
  "not_before x y = (case y of None \<Rightarrow> True | Some u \<Rightarrow>
     (case x of None \<Rightarrow> False | Some t \<Rightarrow> \<not> time_after u t))"

lemma not_before_refl [simp]: "not_before x x"
  by (cases x) (simp_all add: not_before_def)

lemma time_not_after_trans: "\<not> time_after v u \<Longrightarrow> \<not> time_after u t \<Longrightarrow> \<not> time_after v t"
  by (auto simp: time_after_def)

lemma not_before_trans: "not_before x y \<Longrightarrow> not_before y z \<Longrightarrow> not_before x z"
  unfolding not_before_def by (auto dest: time_not_after_trans split: option.splits)

lemma not_before_latest [simp]: "not_before (latest x t) x"
  by (auto simp: not_before_def latest_def time_after_def split: option.splits)

definition advances :: "rcpt \<Rightarrow> rcpt \<Rightarrow> bool" where
  "advances r r' \<longleftrightarrow> identity_of r' = identity_of r
     \<and> (Opened r \<longrightarrow> Opened r') \<and> (Clicked r \<longrightarrow> Clicked r')
     \<and> (Delivered r \<longrightarrow> Delivered r' \<and> DeliveredAt r' = DeliveredAt r)
     \<and> (Failed r \<longrightarrow> Failed r' \<and> FailedAt r' = FailedAt r)
     \<and> not_before (LastOpenedAt r') (LastOpenedAt r)
     \<and> not_before (LastClickedAt r') (LastClickedAt r)"

lemma advances_refl [simp]: "advances r r"
  by (simp add: advances_def)

lemma advances_trans: "advances r r' \<Longrightarrow> advances r' r'' \<Longrightarrow> advances r r''"
  unfolding advances_def by (auto intro: not_before_trans)

lemma applyEngagementEvent_advances:
  "applyEngagementEvent L r et i ev w = ((a, t), r', w') \<Longrightarrow> advances r r'"
  by (erule applyEngagementEvent_cases) (simp_all add: advances_def event_frames, simp_all add: identity_of_def compact_frame [unfolded identity_of_def])

text \<open>
  C13: no sequence of engagement events changes whom and what a record is about, resets a flag,
  moves the first delivery or failure time, or moves the last open or click back in time.
\<close>

theorem engaged_advances:
  assumes "engaged L r0 r"
  shows "identity_of r = identity_of r0
     \<and> (Opened r0 \<longrightarrow> Opened r) \<and> (Clicked r0 \<longrightarrow> Clicked r)
     \<and> (Delivered r0 \<longrightarrow> Delivered r \<and> DeliveredAt r = DeliveredAt r0)
     \<and> (Failed r0 \<longrightarrow> Failed r \<and> FailedAt r = FailedAt r0)
     \<and> not_before (LastOpenedAt r) (LastOpenedAt r0)
     \<and> not_before (LastClickedAt r) (LastClickedAt r0)"
proof -
  from assms have "advances r0 r"
  proof induction
    case (event r et i ev w res r' w')
    obtain a t where "res = (a, t)" by (cases res)
    with event.hyps(2) have "advances r r'" by (auto intro: applyEngagementEvent_advances)
    with event.IH show ?case by (rule advances_trans)
  qed simp
  then show ?thesis by (simp add: advances_def)
qed

section \<open>Links and the tracking header\<close>

lemma index_sub_take:
  "index_sub sub s = Some i \<Longrightarrow> index_sub sub (take (i + length sub) s @ x) = Some i"
proof (induction s arbitrary: i)
  case Nil
  then show ?case by (cases x) (simp_all split: if_splits)
next
  case (Cons y ys)
  show ?case
  proof (cases "prefix sub (y # ys)")
    case True
    then have "take (length sub) (y # ys) = sub" by (auto simp: prefix_def)
    moreover from True Cons.prems have "i = 0" by simp
    ultimately show ?thesis by (cases "sub @ x") (auto, metis prefixI)
  next
    case False
    with Cons.prems obtain j where j: "i = Suc j" "index_sub sub ys = Some j" by auto
    let ?t = "take (j + length sub) ys"
    have len: "length sub \<le> length (y # ?t)"
      using index_sub_Some [OF j(2)] by (auto dest: prefix_length_le)
    have "\<not> prefix sub (y # ?t @ x)"
    proof
      assume "prefix sub (y # ?t @ x)"
      then have "prefix sub (y # ?t)" using len
        by (metis append_Cons prefix_length_prefix prefixI)
      then have "prefix sub (y # ys)"
        by (metis append_Cons append_take_drop_id prefix_prefix)
      with False show False by simp
    qed
    with Cons.IH [OF j(2)] j show ?thesis by simp
  qed
qed

text \<open>The authority part of a URL: from \<open>://\<close> to the next slash.\<close>

definition authority :: "string \<Rightarrow> string" where
  "authority s = (case index_sub ''://'' s of None \<Rightarrow> []
     | Some i \<Rightarrow> takeWhile (\<lambda>c. c \<noteq> CHR ''/'') (drop (i + 3) s))"

lemma first_index_takeWhile:
  "take (case first_index (\<lambda>c. c = d) s of None \<Rightarrow> length s | Some n \<Rightarrow> n) s = takeWhile (\<lambda>c. c \<noteq> d) s"
  by (induction s) (auto simp del: first_index_None split: option.splits)

lemma takeWhile_drop_prefix: "n \<le> length (takeWhile P s) \<Longrightarrow> takeWhile P (drop n s) = drop n (takeWhile P s)"
proof (induction n arbitrary: s)
  case (Suc n)
  then show ?case by (cases s) (auto split: if_splits)
qed simp

lemma authority_strip_userinfo: "CHR ''@'' \<notin> set (authority (strip_userinfo s))"
proof (cases "index_sub ''://'' s")
  case None
  then show ?thesis by (simp add: strip_userinfo_def authority_def)
next
  case (Some i)
  define rest where "rest = drop (i + 3) s"
  define auth where "auth = takeWhile (\<lambda>c. c \<noteq> CHR ''/'') rest"
  have st: "strip_userinfo s = (case last_index CHR ''@'' auth of
        None \<Rightarrow> s | Some a \<Rightarrow> take (i + 3) s @ drop (a + 1) rest)"
    by (simp add: strip_userinfo_def Some Let_def rest_def [symmetric] first_index_takeWhile auth_def)
  show ?thesis
  proof (cases "last_index CHR ''@'' auth")
    case None
    then show ?thesis
      using Some by (simp add: st authority_def auth_def rest_def last_index_None_iff)
  next
    case a: (Some a)
    then have al: "a < length auth" and no: "CHR ''@'' \<notin> set (drop (Suc a) auth)"
      by (simp_all add: last_index_Some_iff)
    have "index_sub ''://'' (take (i + 3) s @ drop (a + 1) rest) = Some i"
      using index_sub_take [OF Some, of "drop (a + 1) rest"] by (simp add: numeral_3_eq_3)
    moreover have "length (take (i + 3) s) = i + 3"
      using index_sub_Some [OF Some] by (auto dest: prefix_length_le)
    ultimately have "authority (strip_userinfo s) = takeWhile (\<lambda>c. c \<noteq> CHR ''/'') (drop (a + 1) rest)"
      by (simp add: st a authority_def)
    then have "authority (strip_userinfo s) = drop (Suc a) auth"
      using al takeWhile_drop_prefix [where n = "Suc a" and s = rest and P = "\<lambda>c. c \<noteq> CHR ''/''"]
      by (simp add: auth_def)
    then show ?thesis using no by simp
  qed
qed

lemma strip_query_clean: "c \<in> set (strip_query s) \<Longrightarrow> c \<noteq> CHR ''?'' \<and> c \<noteq> CHR ''#''"
  by (auto simp: strip_query_def dest!: first_index_Some split: option.splits)

lemma set_strip_userinfo: "set (strip_userinfo s) \<subseteq> set s"
  by (auto simp: strip_userinfo_def Let_def dest: in_set_takeD in_set_dropD split: option.splits)


lemma trim_space_ascii:
  "ascii s \<Longrightarrow> s \<noteq> [] \<Longrightarrow> \<not> is_space (byte (hd s)) \<Longrightarrow> \<not> is_space (byte (last s)) \<Longrightarrow> trim_space s = s"
  by (rule trim_space_id) (simp_all add: runes_ascii hd_map last_map)

lemma uuid_char_not_space: "is_hex c \<or> c = CHR ''-'' \<Longrightarrow> \<not> is_space (byte c) \<and> c \<noteq> CHR ''/''"
  by (auto simp: is_hex_def is_hex_lower_def is_digit_def is_space_def byte_eval)

text \<open>
  The e-mail identifier is found in the tracking header whatever the case of its name and whether
  the value is the identifier alone or, as in older mail, preceded by the group identifier and a
  slash; the first header of that name counts.
\<close>

lemma extractEmailID_finds:
  assumes "isValidUUID e" and "g = [] \<or> (ascii g \<and> \<not> is_space (byte (hd g)) \<and> last g = CHR ''/'')"
    and "\<And>h'. h' \<in> set hs \<Longrightarrow> \<not> equal_fold (lib_unicode L) (hdr_name h') ''X-LFX-TRACKING-ID''"
    and "ascii_lower (hdr_name h) = ''x-lfx-tracking-id''" and "hdr_value h = g @ e"
  shows "extractEmailID L (hs @ h # hs') = e"
proof -
  have skip: "extractEmailID L (hs @ h # hs') = extractEmailID L (h # hs')"
    using assms(3) by (induction hs) auto
  have asc: "ascii (hdr_name h)" using assms(4) ascii_ascii_lower [of "hdr_name h"] by (simp add: byte_eval)
  have "ascii_lower ''X-LFX-TRACKING-ID'' = ''x-lfx-tracking-id''"
    by (simp add: ascii_lower_def lower_byte_def is_upper_byte_def byte_eval chr_eval)
  then have eq: "equal_fold (lib_unicode L) (hdr_name h) ''X-LFX-TRACKING-ID''"
    using equal_fold_ascii [OF asc, of "''X-LFX-TRACKING-ID''"] assms(4) by (simp add: byte_eval)
  have ne: "e \<noteq> []" using assms(1) by auto
  note ch = uuid_char_not_space [OF isValidUUID_bytes [OF assms(1)]]
  have no: "CHR ''/'' \<notin> set e" using ch by blast
  have "\<not> is_space (byte (hd (g @ e)))" using assms(2) ch ne by (cases g) auto
  moreover have "\<not> is_space (byte (last (g @ e)))" using ch [OF last_in_set [OF ne]] ne by simp
  ultimately have t: "trim_space (g @ e) = g @ e"
    using assms(2) isValidUUID_ascii [OF assms(1)] ne by (intro trim_space_ascii) auto
  show ?thesis
  proof (cases "g = []")
    case True
    then show ?thesis using eq t assms(5) no by (simp add: skip)
  next
    case False
    then obtain g' where g: "g = g' @ [CHR ''/'']" using assms(2) by (metis append_butlast_last_id)
    have "extractEmailID L (h # hs') = drop (Suc (length g')) (g' @ CHR ''/'' # e)"
      using eq t assms(5) last_index_append [OF no, of g'] by (simp add: g Let_def)
    then show ?thesis by (simp add: skip)
  qed
qed

section \<open>Examples\<close>

definition ex_time :: gtime where
  "ex_time = \<lparr>t_sec = 63900000000, t_nsec = 0, t_off = 0\<rparr>"

definition ex_record :: rcpt where
  "ex_record = zero_record\<lparr>GroupID := ''g'', EmailID := uuid0, To := ''a@b.org'', SentAt := ex_time\<rparr>"

definition ex_event :: sesEvent where
  "ex_event = \<lparr>ses_event_type = ''Open'', ses_headers = [], ses_open = None, ses_click = None,
     ses_bounce = None, ses_complaint = None, ses_delivery = None\<rparr>"

lemma ex_time_good: "time_exact ex_time"
  by (simp add: time_exact_def time_encodable_def ex_time_def time_year_def local_secs_def civil_date_def
    year_yday_def zone_minutes_def Let_def split: prod.split)

lemma clock_ok_empty: "clock_ok empty_world"
proof -
  have "time_utc (w_now empty_world n) = ex_time" for n
    by (simp add: empty_world_def ex_time_def time_utc_def)
  then show ?thesis by (simp add: clock_ok_def ex_time_good)
qed

lemma ex_record_ok: "times_ok ex_record" "no_history ex_record"
  by (simp_all add: times_ok_def record_times_def ex_record_def zero_record_def opt_list_def ex_time_good
    no_history_def)

lemma ex_record_read: "unmarshal_record L (json_print (record_json ex_record)) = Some ex_record"
proof (rule unmarshal_record_valid)
  show "list_all time_exact (record_times ex_record)" using ex_record_ok(1) by (simp add: times_ok_def)
  show "list_all valid_utf8 (record_strings ex_record)"
    by (simp add: ex_record_def zero_record_def record_strings_def valid_utf8_ascii isValidUUID_ascii uuid0 byte_eval)
qed

lemma ex_record_size: "record_size ex_record \<le> 1000"
proof -
  have "json_len (json_string uuid0) = 38"
    by (simp add: json_string_def json_escape_safe isValidUUID_html_safe uuid0)
  moreover have "json_escape ''a@b.org'' = ''a@b.org''"
    by (rule json_escape_safe) (simp add: html_safe_def byte_eval)
  moreover have "json_escape ''g'' = ''g''"
    by (rule json_escape_safe) (simp add: html_safe_def byte_eval)
  moreover have "json_escape [] = []" by (rule json_escape_safe) simp
  ultimately have "head_size ex_record \<le> 600"
    using json_len_time_le [of ex_time] ex_time_good
    by (simp add: head_size_def ex_record_def zero_record_def json_string_def time_exact_def)
  then show ?thesis
    using scalars_size_bounds(2) [OF ex_record_ok(1)] ex_record_ok(2)
    by (simp add: record_size_parts no_history_def lists_size_def list_member_def)
qed

definition ex_delivered :: rcpt where
  "ex_delivered = ex_record\<lparr>Delivered := True, DeliveredAt := Some ex_time\<rparr>"

lemma ex_compact: "compactOpenedAtList ex_record = ex_record"
  by (simp add: compactOpenedAtList_def ex_record_def zero_record_def)

lemma ex_delivery:
  "applyEngagementEvent example_lib ex_record ''DELIVERY'' ''m1'' ex_event empty_world
     = ((True, ex_time), ex_delivered, empty_world\<lparr>w_ticks := 1\<rparr>)"
  by (simp add: applyEngagementEvent_def ex_compact ex_event_def opt_str_def parseTimestamp_def now_utc_def
    Let_def ex_delivered_def)
    (simp add: ex_record_def zero_record_def empty_world_def ex_time_def time_utc_def)

lemma ex_engaged: "engaged example_lib ex_record ex_delivered"
  by (rule event [OF sent ex_delivery clock_ok_empty])

theorem engaged_record_fits_witness:
  "\<exists>b. marshal_record ex_delivered = Some b \<and> length b \<le> 50256
     \<and> length b \<le> compactAboveBytes \<and> length b < maxValueSize Recipients
     \<and> unmarshal_record example_lib b = Some (record_utf8 ex_delivered)"
  by (rule engaged_record_fits [OF ex_engaged ex_record_ok(2,1)]) (use ex_record_size in simp)



theorem engaged_advances_witness:
  "identity_of ex_delivered = identity_of ex_record \<and> not_before (LastOpenedAt ex_delivered) (LastOpenedAt ex_record)"
  using engaged_advances [OF ex_engaged] by blast

definition ex_link :: string where
  "ex_link = ''https://u:p@host/x?token=1#f''"


end
