(* ===== verification/KvUndisturbed.thy ===== *)
theory KvUndisturbed
  imports KvStore
begin

text \<open>
  The update of a record and the scan of a group in a bucket store that nobody else uses and that does not fail, with a
  context that does not end: the scan delivers exactly the stored records of the requested part of
  the index, in the order of the index.
\<close>

section \<open>Keys\<close>

lemma checkKey_chars:
  assumes "k \<noteq> []" and "length k \<le> 256" and "\<And>c. c \<in> set k \<Longrightarrow> is_key_char c \<and> c \<noteq> CHR ''.''"
  shows "checkKey k = None"
proof -
  have "\<not> contains k ''..''"
  proof
    assume "contains k ''..''"
    then obtain i where "prefix ''..'' (drop i k)"
      unfolding contains_def using index_sub_Some by blast
    then have "CHR ''.'' \<in> set k" by (metis in_set_dropD list.set_intros(1) prefix_def append_Cons)
    with assms(3) show False by blast
  qed
  with assms show ?thesis by (auto simp: checkKey_def maxKeyLen_def list_all_iff)
qed

lemma checkKey_uuid: "isValidUUID k \<Longrightarrow> checkKey k = None"
proof -
  assume u: "isValidUUID k"
  have "is_key_char c \<and> c \<noteq> CHR ''.''" if "c \<in> set k" for c
    using isValidUUID_bytes [OF u that]
    by (auto simp: is_key_char_def is_hex_def is_hex_lower_def is_digit_def byte_eval)
  moreover have "length k = 36" by (rule isValidUUID_len [OF u])
  ultimately show ?thesis by (intro checkKey_chars) auto
qed

lemma checkKey_handle: "IsGroupHandle k \<Longrightarrow> checkKey k = None"
proof -
  assume h: "IsGroupHandle k"
  have "is_key_char c \<and> c \<noteq> CHR ''.''" if "c \<in> set k" for c
    using IsGroupHandle_bytes [OF h that]
  proof
    assume "is_hex_lower c"
    then show ?thesis by (auto simp: is_key_char_def is_hex_lower_def is_digit_def byte_eval)
  next
    have "list_all (\<lambda>c. is_key_char c \<and> c \<noteq> CHR ''.'') ''grp_''"
      by (simp add: is_key_char_def is_digit_def byte_eval)
    moreover assume "c \<in> set ''grp_''"
    ultimately show ?thesis unfolding list_all_iff by blast
  qed
  moreover have "length k = 36" by (rule IsGroupHandle_len [OF h])
  ultimately show ?thesis by (intro checkKey_chars) auto
qed

section \<open>The update\<close>

text \<open>
  Without other writers and failures an update reads the entry, applies the callback once and
  stores the result.
\<close>

lemma kv_UpdateRecord_quiet:
  assumes "w_moves w = []" and "checkKey emailID = None" and "w_kv w Recipients emailID = Some en"
    and "unmarshal_record L (ent_value en) = Some r"
    and "fn r c (logged Recipients emailID w) = (r', c', w2)"
    and "w_moves w2 = []" and "w_kv w2 = w_kv w"
    and "marshal_record r' = Some v" and "length v \<le> w_max_value w2 Recipients"
  shows "kv_UpdateRecord L emailID fn c w =
     (None, c', stored Recipients emailID v (logged Recipients emailID w2))"
  using assms
  by (simp add: kv_UpdateRecord_def update_attempt_def kv_get_quiet kv_update_def kv_write_quiet)

section \<open>The records of a group\<close>

definition group_member :: "golib \<Rightarrow> (string \<Rightarrow> kv_entry option) \<Rightarrow> string \<Rightarrow> string \<Rightarrow> rcpt option" where
  "group_member L recipients g i =
     (if isValidUUID i
      then (case recipients i of None \<Rightarrow> None
            | Some en \<Rightarrow> (case unmarshal_record L (ent_value en) of None \<Rightarrow> None
                        | Some r \<Rightarrow> if GroupID r = g then Some r else None))
      else None)"

fun group_members :: "golib \<Rightarrow> (string \<Rightarrow> kv_entry option) \<Rightarrow> string \<Rightarrow> string list \<Rightarrow> rcpt list" where
  "group_members L q g [] = []"
| "group_members L q g (i # ids) =
     (case group_member L q g i of None \<Rightarrow> group_members L q g ids | Some r \<Rightarrow> r # group_members L q g ids)"

lemma group_members_append [simp]:
  "group_members L q g (ids @ ids') = group_members L q g ids @ group_members L q g ids'"
  by (induction ids) (auto split: option.split)

lemma group_members_group: "r \<in> set (group_members L q g ids) \<Longrightarrow> GroupID r = g"
  by (induction ids) (auto simp: group_member_def split: option.splits if_splits)

lemma group_members_length: "length (group_members L q g ids) \<le> length ids"
  by (induction ids) (auto split: option.split)

section \<open>The scan\<close>

definition called :: "(bucket \<times> string) list \<Rightarrow> world \<Rightarrow> world" where
  "called cs w = w\<lparr>w_calls := w_calls w @ cs\<rparr>"

lemma called_simps [simp]:
  "w_moves (called cs w) = w_moves w" "w_ctx (called cs w) = w_ctx w" "w_kv (called cs w) = w_kv w"
  "w_replies (called cs w) = w_replies w" "w_sent (called cs w) = w_sent w" "w_writes (called cs w) = w_writes w"
  "w_published (called cs w) = w_published w"
  "called cs' (called cs w) = called (cs @ cs') w" "called [] w = w"
  by (simp_all add: called_def)

lemma logged_called: "w_moves w = [] \<Longrightarrow> logged b k w = called [(b, k)] w"
  by (cases w) (simp add: logged_def called_def)

lemma ctx_err_quiet: "w_ctx w = [] \<Longrightarrow> ctx_err w = (None, w)"
  by (simp add: ctx_err_def)

definition chunk_result :: "golib \<Rightarrow> (string \<Rightarrow> kv_entry option) \<Rightarrow> string \<Rightarrow> (goerr + rcpt) option" where
  "chunk_result L q i =
     (if isValidUUID i
      then Some (case q i of None \<Rightarrow> Inl [ErrNotFound]
                 | Some en \<Rightarrow> (case unmarshal_record L (ent_value en) of
                       None \<Rightarrow> Inl [ErrText ''unmarshal recipient record'']
                     | Some r \<Rightarrow> Inr r))
      else None)"

lemma kv_GetRecord_quiet:
  assumes "w_moves w = []" and "isValidUUID i"
  shows "kv_GetRecord L i w = (the (chunk_result L (w_kv w Recipients) i), called [(Recipients, i)] w)"
  using assms checkKey_uuid [of i]
  by (simp add: kv_GetRecord_def kv_get_quiet chunk_result_def logged_called split: option.split)

lemma read_chunk_quiet:
  "w_moves w = [] \<Longrightarrow> \<exists>cs. read_chunk L ids w = (map (chunk_result L (w_kv w Recipients)) ids, called cs w)"
proof (induction L ids w rule: read_chunk.induct)
  case (1 L w)
  then show ?case by (intro exI [of _ "[]"]) simp
next
  case (2 L i ids w)
  show ?case
  proof (cases "isValidUUID i")
    case True
    note g = kv_GetRecord_quiet [OF 2(3) True, of L]
    obtain cs where "read_chunk L ids (called [(Recipients, i)] w)
        = (map (chunk_result L (w_kv w Recipients)) ids, called cs (called [(Recipients, i)] w))"
      using 2(2) [OF _ g [symmetric]] 2(3) True by auto
    with True g show ?thesis by (auto simp: chunk_result_def)
  next
    case False
    with 2 show ?thesis by (auto simp: chunk_result_def)
  qed
qed

lemma deliver_quiet:
  "deliver g fn (map (chunk_result L q) ids) acc =
     (case feed fn (group_members L q g ids) acc of (b, a) \<Rightarrow> (\<not> b, a))"
proof (induction ids arbitrary: acc)
  case (Cons i ids)
  then show ?case
    by (auto simp: chunk_result_def group_member_def split: option.splits prod.splits bool.splits)
qed simp

lemma scan_chunks_quiet:
  "w_moves w = [] \<Longrightarrow> w_ctx w = [] \<Longrightarrow> \<exists>cs. scan_chunks L g fn window acc w
     = (None, snd (feed fn (group_members L (w_kv w Recipients) g window) acc), called cs w)"
proof (induction L g fn window acc w rule: scan_chunks.induct)
  case (1 L g fn window acc w)
  let ?xs = "take groupReadConcurrency window" and ?ys = "drop groupReadConcurrency window"
  let ?q = "w_kv w Recipients"
  note c = ctx_err_quiet [OF 1(3)]
  obtain cs where r: "read_chunk L ?xs w = (map (chunk_result L ?q) ?xs, called cs w)"
    using read_chunk_quiet [OF 1(2)] by blast
  have c': "ctx_err (called cs w) = (None, called cs w)" using 1(3) by (simp add: ctx_err_quiet)
  obtain b a where f: "feed fn (group_members L ?q g ?xs) acc = (b, a)"
    by (cases "feed fn (group_members L ?q g ?xs) acc")
  have d: "deliver g fn (map (chunk_result L ?q) ?xs) acc = (\<not> b, a)"
    unfolding deliver_quiet f by simp
  have w: "group_members L ?q g window = group_members L ?q g ?xs @ group_members L ?q g ?ys"
    by (metis append_take_drop_id group_members_append)
  note unf = scan_chunks.simps [of L g fn window acc w]
  consider "window = []" | "window \<noteq> []" "\<not> b" | (more) "window \<noteq> []" b by blast
  then show ?case
  proof cases
    case 1
    then have "scan_chunks L g fn window acc w = (None, acc, w)" by (subst unf) simp
    with 1 show ?thesis by (intro exI [of _ "[]"]) simp
  next
    case 2
    then show ?thesis using c r c' d f by (intro exI [of _ cs]) (simp add: unf w feed_append)
  next
    case more
    obtain cs' where "scan_chunks L g fn ?ys a (called cs w)
        = (None, snd (feed fn (group_members L ?q g ?ys) a), called cs' (called cs w))"
      using 1(1) [OF more(1) c [symmetric] refl r [symmetric] c' [symmetric]] d more 1(2,3) by auto
    then show ?thesis using c r c' d f more by (intro exI [of _ "cs @ cs'"]) (simp add: unf w feed_append)
  qed
qed

lemma kv_ScanGroupRecords_quiet:
  assumes "w_moves w = []" and "w_ctx w = []" and "checkKey g = None" and "0 \<le> sint offset" and "0 < sint limit"
    and "w_kv w GroupIndex g = Some en" and "unmarshal_ids L (ent_value en) = Some ids" and "length ids < 2 ^ 62"
  shows "\<exists>cs. kv_ScanGroupRecords L g offset limit fn acc w =
     ((length ids, None), snd (feed fn (group_members L (w_kv w Recipients) g
        (take (nat (min (sint limit) 10000)) (drop (nat (sint offset)) ids))) acc), called cs w)"
proof -
  let ?lim = "if sint limit \<le> int MaxGroupEmails then limit else int64 (int MaxGroupEmails)"
  have M: "sint ?lim = min (sint limit) 10000"
    by (simp add: MaxGroupEmails_def sint_int64_small)
  let ?w = "called [(GroupIndex, g)] w"
  obtain cs where k: "scan_chunks L g fn (scan_window ids offset ?lim) acc ?w
      = (None, snd (feed fn (group_members L (w_kv w Recipients) g (scan_window ids offset ?lim)) acc), called cs ?w)"
    using scan_chunks_quiet [of ?w L g fn "scan_window ids offset ?lim" acc] assms(1,2) by auto
  have c: "ctx_err w = (None, w)" "ctx_err ?w = (None, ?w)" "ctx_err (called cs ?w) = (None, called cs ?w)"
    using assms(2) by (simp_all add: ctx_err_quiet)
  have x: "kv_get GroupIndex g w = (Inr en, ?w)"
    using assms(1,6) by (simp add: kv_get_quiet logged_called)
  show ?thesis
  proof (cases "int (length ids) \<le> sint offset")
    case True
    then have "drop (nat (sint offset)) ids = []" by simp
    then show ?thesis using True assms(3-5,7) c x
      by (intro exI [of _ "[(GroupIndex, g)]"]) (simp add: kv_ScanGroupRecords_def Let_def)
  next
    case False
    have "scan_window ids offset ?lim = take (nat (sint ?lim)) (drop (nat (sint offset)) ids)"
      by (rule scan_window_take) (use assms(4,5,8) False M in \<open>auto simp: MaxGroupEmails_def\<close>)
    note win = this [unfolded M]
    show ?thesis using False assms(3-5,7) c x k
      by (intro exI [of _ "(GroupIndex, g) # cs"]) (simp add: kv_ScanGroupRecords_def Let_def win)
  qed
qed

end
