(* ===== verification/EventText.thy ===== *)
theory EventText
  imports JsonRoundtrip
begin

text \<open>
  The messages that the engagement queue carries, as SES and SNS document them: the JSON text of an
  event, and the JSON text of the notification that holds the first one as a string. The service
  reads back the event that was published.
\<close>

section \<open>UTF-8\<close>

lemma hex_digit_ascii: "n < 16 \<Longrightarrow> byte (hex_digit n) < 0x80"
  using hex_digit_lower [of n] by (auto simp: is_hex_lower_def is_digit_def)

lemma valid_utf8_escape_seg:
  assumes "rune_seg (r, bs)"
  shows "valid_utf8 (escape_seg (r, bs) @ s) \<longleftrightarrow> valid_utf8 s"
  using assms
proof (cases rule: rune_seg_cases)
  case ascii
  have "byte (chr r) div 16 < 16" using ascii by simp
  then show ?thesis using ascii
    by (auto simp: encode_rune_ascii escape_byte_def valid_utf8_Cons hex_digit_ascii byte_eval backslash_def)
next
  case bad
  then show ?thesis by (simp add: rune_error_def valid_utf8_Cons byte_eval backslash_def)
next
  case sep
  then show ?thesis by (auto simp: valid_utf8_Cons hex_digit_ascii byte_eval backslash_def)
next
  case other
  then show ?thesis using escape_seg_other by simp
qed

lemma valid_utf8_json_escape: "valid_utf8 (json_escape s)"
proof -
  have "list_all rune_seg ps \<Longrightarrow> valid_utf8 (concat (map escape_seg ps))" for ps
  proof (induction ps)
    case (Cons p ps)
    then show ?case using valid_utf8_escape_seg [of "fst p" "snd p" "concat (map escape_seg ps)"] by simp
  qed simp
  then show ?thesis unfolding json_escape_def using rune_segs_segs by blast
qed

fun json_utf8 :: "json \<Rightarrow> bool" where
  "json_utf8 JNull \<longleftrightarrow> True"
| "json_utf8 (JBool b) \<longleftrightarrow> True"
| "json_utf8 (JNum x) \<longleftrightarrow> valid_utf8 x"
| "json_utf8 (JStr x) \<longleftrightarrow> valid_utf8 x"
| "json_utf8 (JArr vs) \<longleftrightarrow> list_all json_utf8 vs"
| "json_utf8 (JObj ms) \<longleftrightarrow> list_all (\<lambda>(k, v). valid_utf8 k \<and> json_utf8 v) ms"

lemma valid_utf8_commas: "list_all valid_utf8 xs \<Longrightarrow> valid_utf8 (commas xs)"
  by (induction xs rule: commas.induct) (simp_all add: valid_utf8_append valid_utf8_Cons byte_eval)

lemma valid_utf8_quote: "valid_utf8 x \<Longrightarrow> valid_utf8 (quote x)"
  by (simp add: quote_def valid_utf8_append valid_utf8_Cons byte_eval)

lemma json_print_utf8: "json_utf8 v \<Longrightarrow> valid_utf8 (json_print v)"
proof (induction v)
  case (JArr vs)
  then have "valid_utf8 (commas (map json_print vs))"
    by (intro valid_utf8_commas) (auto simp: list_all_iff)
  then show ?case by (simp add: valid_utf8_append valid_utf8_Cons byte_eval)
next
  case (JObj ms)
  have "valid_utf8 (print_member m)" if "m \<in> set ms" for m
    using JObj.IH [OF that, of "snd m"] JObj.prems that
    by (cases m) (auto simp: list_all_iff valid_utf8_append valid_utf8_Cons byte_eval intro!: valid_utf8_append valid_utf8_quote)
  then have "valid_utf8 (commas (map print_member ms))"
    by (intro valid_utf8_commas) (auto simp: list_all_iff)
  then show ?case by (simp add: valid_utf8_append valid_utf8_Cons byte_eval)
qed (simp_all add: valid_utf8_quote valid_utf8_Cons byte_eval)

lemma json_utf8_string [simp]: "json_utf8 (json_string s)"
  by (simp add: json_string_def valid_utf8_json_escape)

section \<open>The texts\<close>

definition header_json :: "sesHeader \<Rightarrow> json" where
  "header_json h = JObj [(''name'', json_string (hdr_name h)), (''value'', json_string (hdr_value h))]"

definition stamp_member :: "string \<Rightarrow> string option \<Rightarrow> (string \<times> json) list" where
  "stamp_member k ts = (case ts of None \<Rightarrow> [] | Some t \<Rightarrow> [(k, JObj [(''timestamp'', json_string t)])])"

text \<open>The address and user agent of a click are present and not part of the decoded event.\<close>

definition click_member :: "string \<Rightarrow> string \<Rightarrow> sesClick option \<Rightarrow> (string \<times> json) list" where
  "click_member ip ua c =
     (case c of
        None \<Rightarrow> []
      | Some c \<Rightarrow> [(''click'', JObj
          [(''ipAddress'', json_string ip), (''timestamp'', json_string (clk_timestamp c)),
           (''userAgent'', json_string ua), (''link'', json_string (clk_link c))])])"

definition ses_json :: "string \<Rightarrow> string \<Rightarrow> sesEvent \<Rightarrow> json" where
  "ses_json ip ua ev = JObj
     ([(''eventType'', json_string (ses_event_type ev)),
       (''mail'', JObj [(''headers'', JArr (map header_json (ses_headers ev)))])]
      @ stamp_member ''open'' (ses_open ev) @ click_member ip ua (ses_click ev)
      @ stamp_member ''bounce'' (ses_bounce ev) @ stamp_member ''complaint'' (ses_complaint ev)
      @ stamp_member ''delivery'' (ses_delivery ev))"

definition ses_text :: "string \<Rightarrow> string \<Rightarrow> sesEvent \<Rightarrow> string" where
  "ses_text ip ua ev = json_print (ses_json ip ua ev)"

definition sns_text :: "string \<Rightarrow> string \<Rightarrow> string" where
  "sns_text i message = json_print (JObj
     [(''Type'', json_string ''Notification''), (''MessageId'', json_string i), (''Message'', json_string message)])"

definition opt_strings :: "string option \<Rightarrow> string list" where
  "opt_strings x = (case x of None \<Rightarrow> [] | Some s \<Rightarrow> [s])"

definition ses_strings :: "sesEvent \<Rightarrow> string list" where
  "ses_strings ev = ses_event_type ev # map hdr_name (ses_headers ev) @ map hdr_value (ses_headers ev)
     @ opt_strings (ses_open ev) @ opt_strings (ses_bounce ev) @ opt_strings (ses_complaint ev)
     @ opt_strings (ses_delivery ev)
     @ (case ses_click ev of None \<Rightarrow> [] | Some c \<Rightarrow> [clk_timestamp c, clk_link c])"

section \<open>Reading them\<close>

lemma event_names_safe:
  "list_all html_safe ''eventType''" "list_all html_safe ''mail''" "list_all html_safe ''open''"
  "list_all html_safe ''click''" "list_all html_safe ''bounce''" "list_all html_safe ''complaint''"
  "list_all html_safe ''delivery''" "list_all html_safe ''headers''" "list_all html_safe ''timestamp''"
  "list_all html_safe ''link''" "list_all html_safe ''ipAddress''" "list_all html_safe ''userAgent''"
  "list_all html_safe ''name''" "list_all html_safe ''value''" "list_all html_safe ''MessageId''"
  "list_all html_safe ''Message''" "list_all html_safe ''Type''"
  by (simp_all add: html_safe_def byte_eval)

lemma fold_name_ascii: "ascii s \<Longrightarrow> fold_name U s = ascii_upper s"
proof -
  assume s: "ascii s"
  then have "map (\<lambda>r. if r < 0x80 then upper_byte r else fold_rune U r) (runes s) = map (upper_byte \<circ> byte) s"
    by (simp add: runes_ascii ascii_def list_all_iff)
  moreover have "list_all (\<lambda>r. r < 0x80) (map (upper_byte \<circ> byte) s)"
    using s by (auto simp: ascii_def list_all_iff upper_byte_def)
  ultimately show ?thesis
    by (simp add: fold_name_def ascii_upper_def from_runes_map_ascii o_def)
qed

lemma dec_unknown_member:
  assumes "list_all html_safe k" and "map_of fs k = None"
    and "list_all (\<lambda>(n, _). ascii n \<and> ascii_upper n \<noteq> ascii_upper k) fs"
  shows "dec_members U fs ((k, v) # ms) r = dec_members U fs ms r"
proof -
  have "ascii k" using assms(1) by (auto simp: ascii_def list_all_iff html_safe_def)
  then have "find (\<lambda>(n, _). fold_name U n = fold_name U k) fs = None"
    using assms(3) by (auto simp: find_None_iff list_all_iff fold_name_ascii)
  then show ?thesis using assms(1,2) by (simp add: unquote_safe find_field_def)
qed

lemma unmarshal_sns_text:
  assumes "valid_utf8 i" and "valid_utf8 message"
  shows "unmarshal_sns L (sns_text i message) = Some \<lparr>sns_message_id = i, sns_message = message\<rparr>"
proof -
  let ?ms = "[(''Type'', json_string ''Notification''), (''MessageId'', json_string i), (''Message'', json_string message)]"
  have ok: "json_ok maxNestingDepth (JObj ?ms)"
    by (simp add: maxNestingDepth_def event_names_safe [THEN raw_text_safe])
  have type: "dec_members U sns_fields ((''Type'', v) # ms) r = dec_members U sns_fields ms r" for U v ms r
    by (rule dec_unknown_member [OF event_names_safe(17)])
      (simp_all add: sns_fields_def byte_eval ascii_upper_def upper_byte_def is_lower_byte_def chr_eval)
  have f: "map_of sns_fields ''MessageId'' = Some (fld sns_message_id sns_message_id_update dec_string)"
    "map_of sns_fields ''Message'' = Some (fld sns_message sns_message_update dec_string)"
    by (simp_all add: sns_fields_def)
  have "dec_members U sns_fields ?ms zero_envelope = Some \<lparr>sns_message_id = i, sns_message = message\<rparr>" for U
    using assms
    by (simp add: type dec_members_Cons [OF event_names_safe(15) f(1)] dec_members_Cons [OF event_names_safe(16) f(2)]
        fld_def zero_envelope_def del: dec_members.simps(2))
  with json_parse_print [OF ok] show ?thesis by (simp add: unmarshal_sns_def unmarshal_def sns_text_def)
qed

text \<open>The members of an event, by name.\<close>

lemma event_fields_map:
  "map_of (event_fields U) ''eventType'' = Some (fld ses_event_type ses_event_type_update dec_string)"
  "map_of (event_fields U) ''mail'' = Some (dec_struct U (mail_fields U))"
  "map_of (event_fields U) ''open'' = Some (fld ses_open ses_open_update (dec_stamp U))"
  "map_of (event_fields U) ''click'' = Some (fld ses_click ses_click_update (dec_ptr zero_click (dec_struct U click_fields)))"
  "map_of (event_fields U) ''bounce'' = Some (fld ses_bounce ses_bounce_update (dec_stamp U))"
  "map_of (event_fields U) ''complaint'' = Some (fld ses_complaint ses_complaint_update (dec_stamp U))"
  "map_of (event_fields U) ''delivery'' = Some (fld ses_delivery ses_delivery_update (dec_stamp U))"
  by (simp_all add: event_fields_def)

lemma dec_header:
  assumes "valid_utf8 (hdr_name h)" and "valid_utf8 (hdr_value h)"
  shows "dec_struct U header_fields (header_json h) old = Some h"
  using assms dec_members_Cons [OF event_names_safe(13), where fs = header_fields]
    dec_members_Cons [OF event_names_safe(14), where fs = header_fields]
  by (simp add: header_json_def header_fields_def fld_def del: dec_members.simps(2))

lemma dec_mail:
  assumes "list_all (\<lambda>h. valid_utf8 (hdr_name h) \<and> valid_utf8 (hdr_value h)) hs"
  shows "dec_struct U (mail_fields U) (JObj [(''headers'', JArr (map header_json hs))]) ev = Some (ev\<lparr>ses_headers := hs\<rparr>)"
proof -
  have "dec_elems zero_header (dec_struct U header_fields) (map header_json hs) (ses_headers ev) = Some (map id hs)"
    using assms by (intro dec_elems_map) (auto simp: list_all_iff dec_header)
  then show ?thesis
    using dec_members_Cons [OF event_names_safe(8), where fs = "mail_fields U"]
    by (simp add: mail_fields_def fld_def del: dec_members.simps(2))
qed

lemma dec_stamp_member:
  assumes "list_all html_safe k" and "map_of fs k = Some (fld get upd (dec_stamp U))"
    and "list_all valid_utf8 (opt_strings ts)" and "get r = None" and "upd (\<lambda>_. None) r = r"
  shows "dec_members U fs (stamp_member k ts @ ms) r = dec_members U fs ms (upd (\<lambda>_. ts) r)"
proof (cases ts)
  case (Some t)
  then have "valid_utf8 t" using assms(3) by (simp add: opt_strings_def)
  then have "dec_stamp U (JObj [(''timestamp'', json_string t)]) None = Some (Some t)"
    using dec_members_Cons [OF event_names_safe(9), where fs = "[(''timestamp'', dec_string)]"]
    by (simp add: dec_stamp_def dec_ptr_def del: dec_members.simps(2))
  with Some assms dec_members_Cons [OF assms(1,2)] show ?thesis by (simp add: stamp_member_def fld_def)
qed (use assms in \<open>simp add: stamp_member_def\<close>)

lemma click_fields_map:
  "map_of click_fields ''timestamp'' = Some (fld clk_timestamp clk_timestamp_update dec_string)"
  "map_of click_fields ''link'' = Some (fld clk_link clk_link_update dec_string)"
  "map_of click_fields ''ipAddress'' = Some dec_unread" "map_of click_fields ''userAgent'' = Some dec_unread"
  by (simp_all add: click_fields_def)

lemma dec_click_member:
  assumes "case c of None \<Rightarrow> True | Some c \<Rightarrow> valid_utf8 (clk_timestamp c) \<and> valid_utf8 (clk_link c)"
    and "ses_click r = None"
  shows "dec_members U (event_fields U) (click_member ip ua c @ ms) r = dec_members U (event_fields U) ms (r\<lparr>ses_click := c\<rparr>)"
proof (cases c)
  case None
  have "r\<lparr>ses_click := None\<rparr> = r" using assms(2) by (cases r) simp
  with None show ?thesis by (simp add: click_member_def)
next
  case (Some c')
  note cons = dec_members_Cons [OF event_names_safe(11) click_fields_map(3)]
    dec_members_Cons [OF event_names_safe(9) click_fields_map(1)]
    dec_members_Cons [OF event_names_safe(12) click_fields_map(4)]
    dec_members_Cons [OF event_names_safe(10) click_fields_map(2)]
  have "dec_ptr zero_click (dec_struct U click_fields)
      (JObj [(''ipAddress'', json_string ip), (''timestamp'', json_string (clk_timestamp c')),
             (''userAgent'', json_string ua), (''link'', json_string (clk_link c'))]) None = Some (Some c')"
    using assms(1) Some
    by (simp add: dec_ptr_def cons dec_unread_def fld_def zero_click_def del: dec_members.simps(2))
  with Some assms(2) show ?thesis
    by (simp add: click_member_def dec_members_Cons [OF event_names_safe(4) event_fields_map(4)] fld_def
        del: dec_members.simps(2))
qed

lemma ses_json_parts:
  "0 < d \<Longrightarrow> list_all (json_ok d) (map header_json hs)"
  "list_all html_safe k \<Longrightarrow> 0 < d \<Longrightarrow> list_all (member_ok d) (stamp_member k ts)"
  "0 < d \<Longrightarrow> list_all (member_ok d) (click_member ip ua c)"
  "list_all json_utf8 (map header_json hs)"
  "valid_utf8 k \<Longrightarrow> list_all (\<lambda>(k, v). valid_utf8 k \<and> json_utf8 v) (stamp_member k ts)"
  "list_all (\<lambda>(k, v). valid_utf8 k \<and> json_utf8 v) (click_member ip ua c)"
  by (induction hs)
    (simp_all add: header_json_def stamp_member_def click_member_def raw_text_safe
      event_names_safe [THEN raw_text_safe] valid_utf8_Cons byte_eval split: option.split)

lemma unmarshal_ses_text:
  assumes "list_all valid_utf8 (ses_strings ev)"
  shows "unmarshal_ses L (ses_text ip ua ev) = Some ev"
proof -
  let ?U = "lib_unicode L"
  have ok: "json_ok maxNestingDepth (ses_json ip ua ev)"
    by (simp add: ses_json_def maxNestingDepth_def ses_json_parts(1,3) event_names_safe [THEN raw_text_safe]
        event_names_safe [THEN ses_json_parts(2)])
  have v: "valid_utf8 (ses_event_type ev)"
    "list_all (\<lambda>h. valid_utf8 (hdr_name h) \<and> valid_utf8 (hdr_value h)) (ses_headers ev)"
    "list_all valid_utf8 (opt_strings (ses_open ev))" "list_all valid_utf8 (opt_strings (ses_bounce ev))"
    "list_all valid_utf8 (opt_strings (ses_complaint ev))" "list_all valid_utf8 (opt_strings (ses_delivery ev))"
    "case ses_click ev of None \<Rightarrow> True | Some c \<Rightarrow> valid_utf8 (clk_timestamp c) \<and> valid_utf8 (clk_link c)"
    using assms by (auto simp: ses_strings_def list_all_iff split: option.split)
  note cons = dec_members_Cons [OF event_names_safe(1) event_fields_map(1)]
    dec_members_Cons [OF event_names_safe(2) event_fields_map(2)]
  note stamps = dec_stamp_member [OF event_names_safe(3) event_fields_map(3) v(3)]
    dec_stamp_member [OF event_names_safe(5) event_fields_map(5) v(4)]
    dec_stamp_member [OF event_names_safe(6) event_fields_map(6) v(5)]
    dec_stamp_member [OF event_names_safe(7) event_fields_map(7) v(6), where ms = "[]", simplified]
  obtain ms where ms: "ses_json ip ua ev = JObj ms" by (simp add: ses_json_def)
  have "dec_members ?U (event_fields ?U) ms zero_event = Some ev"
    using ms [unfolded ses_json_def, symmetric] v(1)
    by (simp add: cons dec_mail [OF v(2)] stamps dec_click_member [OF v(7)] fld_def zero_event_def
        del: dec_members.simps(2) dec_struct.simps)
  with json_parse_print [OF ok] ms show ?thesis by (simp add: unmarshal_ses_def unmarshal_def ses_text_def)
qed

lemma ses_text_utf8: "valid_utf8 (ses_text ip ua ev)"
  unfolding ses_text_def
  by (rule json_print_utf8)
    (simp add: ses_json_def ses_json_parts(4-6) valid_utf8_Cons byte_eval)

text \<open>What SNS delivers of an event that SES publishes is read as that event.\<close>

lemma notification_read:
  assumes "list_all valid_utf8 (i # ses_strings ev)"
  shows "unmarshal_sns L (sns_text i (ses_text ip ua ev)) = Some \<lparr>sns_message_id = i, sns_message = ses_text ip ua ev\<rparr>"
    and "unmarshal_ses L (ses_text ip ua ev) = Some ev"
  using assms by (simp_all add: unmarshal_sns_text ses_text_utf8 unmarshal_ses_text)

end
