(* ===== verification/EngagementHandler.thy ===== *)
theory EngagementHandler
  imports EngagementEvent KvUndisturbed EventText
begin

text \<open>
  \<open>EngagementEventHandler\<close> of \<open>internal/service/engagement_event_handler.go\<close>: the handling of
  one queue message, with the update of the recipient record through a tracking store and the
  notification that follows it. Logging has no effect on the model.
\<close>

section \<open>The handler\<close>

text \<open>The variables the update callback captures.\<close>

record captured =
  eventApplied :: bool
  capturedAt :: gtime
  capturedOpenCount :: int64
  capturedClickLink :: string
  capturedClickCount :: int64
  capturedClickEventID :: string

definition nothing_captured :: captured where
  "nothing_captured = \<lparr>eventApplied = False, capturedAt = zero_time, capturedOpenCount = 0,
     capturedClickLink = [], capturedClickCount = 0, capturedClickEventID = []\<rparr>"

definition engagement_fn :: "golib \<Rightarrow> string \<Rightarrow> string \<Rightarrow> sesEvent \<Rightarrow> captured update_fn" where
  "engagement_fn L eventType messageID event record c w =
     (case applyEngagementEvent L record eventType messageID event w of
        ((applied, t), record, w) \<Rightarrow>
          let c = c\<lparr>eventApplied := applied, capturedAt := t\<rparr> in
          if \<not> applied then (record, c, w)
          else if eventType = ''OPEN'' then (record, c\<lparr>capturedOpenCount := OpenCount record\<rparr>, w)
          else if eventType = ''CLICK''
          then (record,
            (case ses_click event of None \<Rightarrow> c
             | Some k \<Rightarrow> c\<lparr>capturedClickLink := redactLink L (clk_link k)\<rparr>)
               \<lparr>capturedClickCount := ClickCount record, capturedClickEventID := messageID\<rparr>, w)
          else (record, c, w))"

definition event_payload :: "string \<Rightarrow> string \<Rightarrow> captured \<Rightarrow> (string \<times> payload) option" where
  "event_payload emailID eventType c =
     (if eventType = ''DELIVERY'' then
        Some (EmailDeliveredSubject, DeliveredPayload
          \<lparr>de_email_id = emailID, de_group_id = [], de_delivered_at = capturedAt c\<rparr>)
      else if eventType = ''OPEN'' then
        Some (EmailOpenedSubject, OpenedPayload
          \<lparr>pe_email_id = emailID, pe_group_id = [], pe_open_count = capturedOpenCount c,
           pe_opened_at = capturedAt c\<rparr>)
      else if eventType = ''CLICK'' then
        Some (EmailLinkClickedSubject, LinkClickedPayload
          \<lparr>le_email_id = emailID, le_group_id = [], le_event_id = capturedClickEventID c,
           le_link = capturedClickLink c, le_click_count = capturedClickCount c,
           le_clicked_at = capturedAt c\<rparr>)
      else if eventType = ''BOUNCE'' then
        Some (EmailFailedSubject, FailedPayload
          \<lparr>fe_email_id = emailID, fe_group_id = [], fe_reason = ''bounce'', fe_failed_at = capturedAt c\<rparr>)
      else if eventType = ''COMPLAINT'' then
        Some (EmailFailedSubject, FailedPayload
          \<lparr>fe_email_id = emailID, fe_group_id = [], fe_reason = ''complaint'', fe_failed_at = capturedAt c\<rparr>)
      else None)"

text \<open>A failed \<open>Publish\<close> is logged only; \<open>w_published\<close> holds the calls made.\<close>

definition publishEngagementEvent :: "string \<Rightarrow> string \<Rightarrow> captured \<Rightarrow> world \<Rightarrow> world" where
  "publishEngagementEvent emailID eventType c w =
     (case event_payload emailID eventType c of
        None \<Rightarrow> w
      | Some (subject, p) \<Rightarrow>
          (case marshal_payload p of None \<Rightarrow> w | Some data \<Rightarrow> publish subject data w))"

definition known_events :: "string list" where
  "known_events = [''OPEN'', ''CLICK'', ''DELIVERY'', ''BOUNCE'', ''COMPLAINT'']"

text \<open>
  \<open>Handle\<close>: the message body is a pointer that may be \<open>nil\<close>; \<open>publisher\<close> says whether one is
  configured. A result of \<open>None\<close> acknowledges the message.
\<close>

definition Handle ::
    "('a, captured) TrackingStore \<Rightarrow> golib \<Rightarrow> bool \<Rightarrow> string option \<Rightarrow> world \<Rightarrow> goerr option \<times> world" where
  "Handle T L publisher msg_body w =
     (case unmarshal_sns L (case msg_body of None \<Rightarrow> [] | Some b \<Rightarrow> b) of
        None \<Rightarrow> (None, w)
      | Some env \<Rightarrow>
        (case unmarshal_ses L (sns_message env) of
           None \<Rightarrow> (None, w)
         | Some event \<Rightarrow>
           let emailID = extractEmailID L (ses_headers event) in
           if emailID = [] then (None, w)
           else if \<not> isValidUUID emailID then (None, w)
           else
             let emailID = to_lower (lib_unicode L) emailID;
                 eventType = to_upper (lib_unicode L) (ses_event_type event) in
             if eventType \<notin> set known_events then (None, w)
             else
               (case UpdateRecord T emailID (engagement_fn L eventType (sns_message_id env) event)
                       nothing_captured w of
                  (err, c, w) \<Rightarrow>
                    (case err of
                       Some e \<Rightarrow>
                         if errors_is e ErrRecordTooLarge \<or> errors_is e ErrRecordUnencodable
                         then (None, w)
                         else (Some (ErrText ''store update for email_id'' # e), w)
                     | None \<Rightarrow>
                         (None, if eventApplied c \<and> publisher
                                then publishEngagementEvent emailID eventType c w else w)))))"

section \<open>Which messages are events\<close>

text \<open>
  The event a message carries, with the key of its record, its type in upper case and its
  message identifier; \<open>None\<close> for a message that is acknowledged without touching the store.
\<close>

definition tracked_event :: "golib \<Rightarrow> string option \<Rightarrow> (string \<times> string \<times> string \<times> sesEvent) option" where
  "tracked_event L msg_body =
     (case unmarshal_sns L (case msg_body of None \<Rightarrow> [] | Some b \<Rightarrow> b) of
        None \<Rightarrow> None
      | Some env \<Rightarrow>
        (case unmarshal_ses L (sns_message env) of
           None \<Rightarrow> None
         | Some ev \<Rightarrow>
             if isValidUUID (extractEmailID L (ses_headers ev))
                \<and> to_upper (lib_unicode L) (ses_event_type ev) \<in> set known_events
             then Some (ascii_lower (extractEmailID L (ses_headers ev)),
                        to_upper (lib_unicode L) (ses_event_type ev), sns_message_id env, ev)
             else None))"

lemma Handle_tracked:
  "Handle T L publisher body w =
     (case tracked_event L body of
        None \<Rightarrow> (None, w)
      | Some (emailID, eventType, messageID, event) \<Rightarrow>
          (case UpdateRecord T emailID (engagement_fn L eventType messageID event) nothing_captured w of
             (None, c, w) \<Rightarrow>
               (None, if eventApplied c \<and> publisher then publishEngagementEvent emailID eventType c w else w)
           | (Some e, c, w) \<Rightarrow>
               if errors_is e ErrRecordTooLarge \<or> errors_is e ErrRecordUnencodable then (None, w)
               else (Some (ErrText ''store update for email_id'' # e), w)))"
  by (auto simp: Handle_def tracked_event_def Let_def to_lower_ascii isValidUUID_ascii
      split: option.split prod.split)

lemma tracked_event_key:
  "tracked_event L body = Some (emailID, eventType, messageID, event) \<Longrightarrow>
     isValidUUID emailID \<and> eventType \<in> set known_events"
  by (auto simp: tracked_event_def isValidUUID_lower split: option.splits if_splits)

section \<open>The callback\<close>

lemma applyEngagementEvent_runs:
  assumes "applyEngagementEvent L r et i ev w = (res, r', w')"
  shows "runs K P w w'"
proof -
  obtain a t where "res = (a, t)" by (cases res)
  with assms have "applyEngagementEvent L r et i ev w = ((a, t), r', w')" by simp
  then show ?thesis by (cases rule: applyEngagementEvent_cases) (auto intro: parseTimestamp_runs)
qed

lemma engagement_fn_world:
  "snd (snd (engagement_fn L et i ev r c w)) = snd (snd (applyEngagementEvent L r et i ev w))"
  by (auto simp: engagement_fn_def Let_def split: prod.split)

lemma engagement_fn_record:
  "fst (engagement_fn L et i ev r c w) = fst (snd (applyEngagementEvent L r et i ev w))"
  by (auto simp: engagement_fn_def Let_def split: prod.split)

lemma engagement_fn_only_clock: "only_clock (engagement_fn L et i ev)"
  unfolding only_clock_def engagement_fn_world
  by (metis applyEngagementEvent_runs prod.collapse)

text \<open>What is captured belongs to one application of the event to one record.\<close>

definition captures :: "golib \<Rightarrow> string \<Rightarrow> string \<Rightarrow> sesEvent \<Rightarrow> captured \<Rightarrow> rcpt \<Rightarrow> rcpt \<Rightarrow> bool" where
  "captures L et i ev c r r' \<longleftrightarrow>
     (\<exists>w w'. applyEngagementEvent L r et i ev w = ((True, capturedAt c), r', w'))
     \<and> (et = ''OPEN'' \<longrightarrow> capturedOpenCount c = OpenCount r')
     \<and> (et = ''CLICK'' \<longrightarrow> capturedClickCount c = ClickCount r' \<and> capturedClickEventID c = i)"

lemma engagement_fn_captures:
  assumes "eventApplied (fst (snd (engagement_fn L et i ev r c w)))"
  shows "captures L et i ev (fst (snd (engagement_fn L et i ev r c w))) r (fst (engagement_fn L et i ev r c w))"
proof -
  obtain a t r' w' where e: "applyEngagementEvent L r et i ev w = ((a, t), r', w')" by (metis prod.collapse)
  with assms have "a" by (auto simp: engagement_fn_def Let_def split: if_splits)
  with e show ?thesis
    by (auto simp: engagement_fn_def captures_def Let_def split: option.split)
qed

section \<open>The handler on any tracking store\<close>

lemma publish_frame [simp]:
  "w_kv (publish s d w) = w_kv w" "w_writes (publish s d w) = w_writes w" "w_calls (publish s d w) = w_calls w"
  "w_sent (publish s d w) = w_sent w" "w_replies (publish s d w) = w_replies w"
  "w_published (publish s d w) = w_published w @ [(s, d)]"
  by (simp_all add: publish_def)

text \<open>A notification for the event: its subject and its encoded payload.\<close>

definition notifies :: "golib \<Rightarrow> string \<Rightarrow> string \<Rightarrow> string \<Rightarrow> sesEvent \<Rightarrow> string \<times> string \<Rightarrow> bool" where
  "notifies L emailID et i ev m \<longleftrightarrow>
     (\<exists>c p r r'. captures L et i ev c r r' \<and> event_payload emailID et c = Some (fst m, p)
        \<and> marshal_payload p = Some (snd m))"

locale engagement_store = tracking_store T L K
  for T :: "('a, captured) TrackingStore" and L :: golib and K
begin

lemma Handle_ignored: "tracked_event L body = None \<Longrightarrow> Handle T L publisher body w = (None, w)"
  by (simp add: Handle_tracked)

lemma Handle_effects:
  assumes "Handle T L publisher body w = (res, w')" and "revisions_ok w"
    and "tracked_event L body = Some (emailID, et, i, ev)"
  shows "\<exists>w1. runs K (changes_record L emailID (engagement_fn L et i ev) (w_max_value w Recipients)) w w1
    \<and> (w' = w1 \<or> (\<exists>m. w' = publish (fst m) (snd m) w1 \<and> publisher \<and> res = None \<and> notifies L emailID et i ev m))"
proof -
  obtain err c w1 where u: "UpdateRecord T emailID (engagement_fn L et i ev) nothing_captured w = (err, c, w1)"
    by (metis prod_cases3)
  have r: "runs K (changes_record L emailID (engagement_fn L et i ev) (w_max_value w Recipients)) w w1"
    by (rule update_runs [OF u assms(2) engagement_fn_only_clock])
  let ?I = "\<lambda>c. eventApplied c \<longrightarrow> (\<exists>r r'. captures L et i ev c r r')"
  have "?I c"
  proof (rule update_invar [where I = ?I, OF u])
    show "?I nothing_captured" by (simp add: nothing_captured_def)
  next
    fix r c and w :: world
    show "?I (fst (snd (engagement_fn L et i ev r c w)))" using engagement_fn_captures by blast
  qed
  moreover have "w' = w1 \<or> (\<exists>s p d. eventApplied c \<and> publisher \<and> res = None
      \<and> event_payload emailID et c = Some (s, p) \<and> marshal_payload p = Some d \<and> w' = publish s d w1)"
    using assms(1,3) u
    by (auto simp: Handle_tracked publishEngagementEvent_def split: option.splits if_splits)
  ultimately show ?thesis using r unfolding notifies_def by fastforce
qed

text \<open>Messages are retried only for store errors that may go away.\<close>

lemma Handle_error:
  assumes "Handle T L publisher body w = (Some e, w')"
  shows "\<exists>e'. e = ErrText ''store update for email_id'' # e' \<and> \<not> errors_is e' ErrRecordTooLarge
     \<and> \<not> errors_is e' ErrRecordUnencodable"
  using assms by (auto simp: Handle_tracked split: option.splits prod.splits if_splits)

end

interpretation kv_events: engagement_store "kv_Store L" L key_ok for L
  by (rule engagement_store.intro) (rule kv.tracking_store_axioms)

interpretation null_events: engagement_store NullTrackingStore L K for L K
  by (rule engagement_store.intro) (rule null.tracking_store_axioms)

lemma parseTimestamp_frame:
  "parseTimestamp L s w = (t, w') \<Longrightarrow> w_moves w' = w_moves w \<and> w_kv w' = w_kv w \<and> w_max_value w' = w_max_value w"
  by (auto simp: parseTimestamp_def now_utc_def Let_def split: option.splits if_splits)

lemma applyEngagementEvent_frame:
  assumes "applyEngagementEvent L r et i ev w = ((a, t), r', w')"
  shows "w_moves w' = w_moves w \<and> w_kv w' = w_kv w \<and> w_max_value w' = w_max_value w"
  using assms by (cases rule: applyEngagementEvent_cases) (simp_all add: parseTimestamp_frame)

lemma engagement_fn_frame:
  assumes "engagement_fn L et i ev r c w = (r', c', w')"
  shows "w_moves w' = w_moves w \<and> w_kv w' = w_kv w \<and> w_max_value w' = w_max_value w"
proof -
  obtain a t r1 w1 where e: "applyEngagementEvent L r et i ev w = ((a, t), r1, w1)" by (metis prod.collapse)
  then have "w' = w1" using engagement_fn_world [of L et i ev r c w] assms by simp
  with applyEngagementEvent_frame [OF e] show ?thesis by simp
qed

section \<open>Properties of the handler\<close>


text \<open>
  C9: in an undisturbed store the handler is the function of the event: it reads the record of
  the e-mail once, applies the event to it once, stores the result under the next revision,
  acknowledges the message, and publishes the notification exactly when the event applied and a
  publisher is configured.
\<close>

theorem Handle_undisturbed:
  assumes "tracked_event L body = Some (emailID, et, i, ev)" and "w_moves w = []"
    and "w_kv w Recipients emailID = Some en" and "unmarshal_record L (ent_value en) = Some r"
    and "engagement_fn L et i ev r nothing_captured (logged Recipients emailID w) = (r', c, w2)"
    and "marshal_record r' = Some v" and "length v \<le> w_max_value w Recipients"
  shows "Handle (kv_Store L) L publisher body w =
     (None, (if eventApplied c \<and> publisher then publishEngagementEvent emailID et c else id)
              (stored Recipients emailID v (logged Recipients emailID w2)))"
proof -
  have k: "checkKey emailID = None" using tracked_event_key [OF assms(1)] checkKey_uuid by blast
  have "kv_UpdateRecord L emailID (engagement_fn L et i ev) nothing_captured w =
     (None, c, stored Recipients emailID v (logged Recipients emailID w2))"
    by (rule kv_UpdateRecord_quiet [where fn = "engagement_fn L et i ev", OF assms(2) k assms(3,4,5) _ _ assms(6)])
      (use engagement_fn_frame [OF assms(5)] assms(2,7) in simp_all)
  then show ?thesis by (simp add: Handle_tracked assms(1) kv_Store_def)
qed



text \<open>
  C15: an event that SES publishes is processed. Let SNS deliver the documented JSON text of an event
  of a known type, in any case, with a tracking header: its name in any case, its value the
  identifier of the e-mail, or, as in older mail, the group identifier, a slash and that; the
  first header of the name counts. Then the handler updates the record of that e-mail with
  that event and message identifier, once.
\<close>

theorem event_recognised:
  assumes "isValidUUID e" and "g = [] \<or> (ascii g \<and> \<not> is_space (byte (hd g)) \<and> last g = CHR ''/'')"
    and "ses_headers ev = hs @ h # hs'"
    and "\<And>h'. h' \<in> set hs \<Longrightarrow> \<not> equal_fold (lib_unicode L) (hdr_name h') ''X-LFX-TRACKING-ID''"
    and "ascii_lower (hdr_name h) = ''x-lfx-tracking-id''" and "hdr_value h = g @ e"
    and "et = to_upper (lib_unicode L) (ses_event_type ev)" and "et \<in> set known_events"
    and "list_all valid_utf8 (i # ses_strings ev)"
  shows "Handle T L publisher (Some (sns_text i (ses_text ip ua ev))) w =
     (case UpdateRecord T (ascii_lower e) (engagement_fn L et i ev) nothing_captured w of
        (Some err, c, w) \<Rightarrow>
          (if errors_is err ErrRecordTooLarge \<or> errors_is err ErrRecordUnencodable then None
           else Some (ErrText ''store update for email_id'' # err), w)
      | (None, c, w) \<Rightarrow>
          (None, if eventApplied c \<and> publisher then publishEngagementEvent (ascii_lower e) et c w else w))"
proof -
  have "extractEmailID L (ses_headers ev) = e"
    unfolding assms(3) using assms(1,2,4-6) by (rule extractEmailID_finds)
  then have "tracked_event L (Some (sns_text i (ses_text ip ua ev))) = Some (ascii_lower e, et, i, ev)"
    using assms(1,7,8) notification_read [OF assms(9)] by (simp add: tracked_event_def)
  then show ?thesis by (simp add: Handle_tracked split: option.split prod.split)
qed

section \<open>Examples\<close>

definition ex_header :: sesHeader where
  "ex_header = \<lparr>hdr_name = ''x-lfx-Tracking-ID'', hdr_value = ''grp/'' @ uuid0\<rparr>"

definition ex_ses :: sesEvent where
  "ex_ses = ex_event\<lparr>ses_event_type := ''Delivery'', ses_headers := [ex_header]\<rparr>"

definition ex_body :: string where
  "ex_body = sns_text ''m1'' (ses_text [] [] ex_ses)"

definition event_world :: world where
  "event_world = put_entry Recipients uuid0 (json_print (record_json ex_record)) empty_world"

lemma event_world_simps:
  "w_moves event_world = []"
  "w_kv event_world Recipients uuid0 = Some \<lparr>ent_value = json_print (record_json ex_record), ent_revision = 1\<rparr>"
  "revisions_ok event_world" "w_max_value event_world = maxValueSize" "w_ticks event_world = 0"
  by (simp_all add: event_world_def put_entry_revisions revisions_empty) (simp_all add: empty_world_def put_entry_def)

lemma uuid0_lower: "ascii_lower uuid0 = uuid0"
  by (simp add: uuid0_def ascii_lower_def lower_byte_def is_upper_byte_def byte_eval chr_eval)

lemma ex_header_name: "ascii_lower (hdr_name ex_header) = ''x-lfx-tracking-id''"
  by (simp add: ex_header_def ascii_lower_def lower_byte_def is_upper_byte_def byte_eval chr_eval)

lemma ex_header_id: "extractEmailID L [ex_header] = uuid0"
  using extractEmailID_finds [OF uuid0, of "''grp/''" "[]" L ex_header "[]"] ex_header_name
  by (simp add: ex_header_def byte_eval is_space_def)

lemma ex_ses_utf8: "list_all valid_utf8 (''m1'' # ses_strings ex_ses)"
  by (simp add: ex_ses_def ex_event_def ex_header_def ses_strings_def opt_strings_def valid_utf8_ascii
      isValidUUID_ascii uuid0 byte_eval)

lemma ex_ses_type: "to_upper U (ses_event_type ex_ses) = ''DELIVERY''"
  by (simp add: ex_ses_def to_upper_ascii ascii_upper_def upper_byte_def is_lower_byte_def byte_eval chr_eval)

lemma ex_body_tracked: "tracked_event L (Some ex_body) = Some (uuid0, ''DELIVERY'', ''m1'', ex_ses)"
proof -
  have "ses_headers ex_ses = [ex_header]" by (simp add: ex_ses_def)
  then show ?thesis
    using notification_read [OF ex_ses_utf8]
    by (simp add: tracked_event_def ex_body_def ex_header_id uuid0 uuid0_lower ex_ses_type known_events_def
        del: extractEmailID.simps)
qed

theorem event_recognised_witness:
  "Handle (kv_Store example_lib :: (unit, captured) TrackingStore) example_lib False (Some ex_body) event_world =
     (case UpdateRecord (kv_Store example_lib :: (unit, captured) TrackingStore) uuid0
             (engagement_fn example_lib ''DELIVERY'' ''m1'' ex_ses) nothing_captured event_world of
        (Some err, c, w) \<Rightarrow>
          (if errors_is err ErrRecordTooLarge \<or> errors_is err ErrRecordUnencodable then None
           else Some (ErrText ''store update for email_id'' # err), w)
      | (None, c, w) \<Rightarrow> (None, w))"
proof -
  have h: "ses_headers ex_ses = [] @ ex_header # []" "hdr_value ex_header = ''grp/'' @ uuid0"
    by (simp_all add: ex_ses_def ex_header_def)
  have g: "''grp/'' = [] \<or> (ascii ''grp/'' \<and> \<not> is_space (byte (hd ''grp/'')) \<and> last ''grp/'' = CHR ''/'')"
    by (simp add: byte_eval is_space_def)
  note rec = event_recognised [OF uuid0 g h(1) _ ex_header_name h(2) ex_ses_type [symmetric] _ ex_ses_utf8]
  show ?thesis
    using rec [where T = "kv_Store example_lib :: (unit, captured) TrackingStore" and publisher = False
        and ip = "[]" and ua = "[]" and L = example_lib and w = event_world]
    by (simp add: ex_body_def known_events_def uuid0_lower split: prod.split option.split)
qed

definition event_captured :: captured where
  "event_captured = nothing_captured\<lparr>eventApplied := True, capturedAt := ex_time\<rparr>"

lemma event_applied:
  "applyEngagementEvent example_lib ex_record ''DELIVERY'' ''m1'' ex_ses (logged Recipients uuid0 event_world)
     = ((True, ex_time), ex_delivered, (logged Recipients uuid0 event_world)\<lparr>w_ticks := 1\<rparr>)"
  by (simp add: applyEngagementEvent_def ex_compact ex_ses_def ex_event_def opt_str_def parseTimestamp_def now_utc_def
    Let_def ex_delivered_def event_world_simps)
    (simp add: ex_record_def zero_record_def event_world_def empty_world_def ex_time_def time_utc_def put_entry_def)

lemma event_captures:
  "engagement_fn example_lib ''DELIVERY'' ''m1'' ex_ses ex_record nothing_captured (logged Recipients uuid0 event_world)
     = (ex_delivered, event_captured, (logged Recipients uuid0 event_world)\<lparr>w_ticks := 1\<rparr>)"
  by (simp add: engagement_fn_def event_applied event_captured_def)

lemma ex_delivered_fits: "\<exists>v. marshal_record ex_delivered = Some v \<and> length v \<le> 65536"
proof -
  have t: "times_ok ex_delivered"
    using ex_record_ok(1) ex_time_good by (simp add: ex_delivered_def times_ok_def record_times_def opt_list_def)
  have "record_size ex_delivered \<le> record_size ex_record + 256"
    by (rule similar_size [OF t]) (simp_all add: ex_delivered_def identity_of_def lists_size_def)
  then show ?thesis
    using ex_record_size times_ok_encodable [OF t] by (simp add: marshal_record_def record_size_def)
qed

theorem Handle_undisturbed_witness:
  "\<exists>v w2. Handle (kv_Store example_lib :: (unit, captured) TrackingStore) example_lib True (Some ex_body) event_world =
     (None, publishEngagementEvent uuid0 ''DELIVERY'' event_captured
              (stored Recipients uuid0 v (logged Recipients uuid0 w2)))"
proof -
  obtain v where v: "marshal_record ex_delivered = Some v" "length v \<le> 65536" using ex_delivered_fits by blast
  have d: "unmarshal_record example_lib
      (ent_value \<lparr>ent_value = json_print (record_json ex_record), ent_revision = 1\<rparr>) = Some ex_record"
    by (simp add: ex_record_read)
  have "length v \<le> w_max_value event_world Recipients" using v(2) by (simp add: event_world_simps)
  note h = Handle_undisturbed [where publisher = True, OF ex_body_tracked event_world_simps(1,2) d event_captures v(1) this]
  have "eventApplied event_captured" by (simp add: event_captured_def)
  with h show ?thesis by (intro exI) simp
qed


definition failing_world :: world where
  "failing_world = event_world\<lparr>w_moves := [\<lparr>mv_before = [], mv_fault = Some ([ErrText ''timeout''], False)\<rparr>]\<rparr>"



end
