(* ===== verification/JsonTyping.thy ===== *)
theory JsonTyping
  imports JsonRoundtrip
begin

text \<open>
  What a decoded value can be. The strings of a decoded value are UTF-8 and its times have a year of
  four digits, a whole number of nanoseconds below a second and a zone of whole minutes, whatever
  text was read. So a decoded record is read back unchanged once it is written again, and the only one
  that cannot be written has a time whose zone is a day or more, which \<open>time.Parse\<close> accepts and
  \<open>Time.MarshalJSON\<close> refuses.
\<close>

section \<open>Decoded strings\<close>

lemma encode_rune_coerced: "encode_rune r = encode_rune (if valid_rune r then r else rune_error)"
  by (simp add: encode_rune_def valid_rune_def rune_error_def)

lemma valid_utf8_put: "put r t = Some s \<Longrightarrow> (\<And>u. t = Some u \<Longrightarrow> valid_utf8 u) \<Longrightarrow> valid_utf8 s"
proof -
  assume s: "put r t = Some s" and t: "\<And>u. t = Some u \<Longrightarrow> valid_utf8 u"
  have "valid_rune (if valid_rune r then r else rune_error)" by (simp add: valid_rune_def rune_error_def)
  then show "valid_utf8 s" using s t encode_rune_coerced [of r] by (auto simp: put_def simp del: if_split)
qed

lemma escaped_ascii: "escaped e = Some x \<Longrightarrow> byte x < 0x80"
  by (auto simp: escaped_def byte_eval split: if_splits)

lemma unquote_valid: "unquote s = Some t \<Longrightarrow> valid_utf8 t"
proof (induction s arbitrary: t rule: unquote.induct)
  case (2 c s)
  show ?case
    using "2.prems"
    by (auto simp: unquote.simps(2) split: if_splits list.splits option.splits
        intro: "2.IH" intro!: valid_utf8_Cons [THEN iffD2] elim!: valid_utf8_put dest: escaped_ascii)
qed (simp add: valid_utf8_ascii)

section \<open>Decoded times\<close>

text \<open>A year is determined by any of its days.\<close>

lemma div_pred:
  assumes "0 < (k :: int)"
  shows "y div k = (y - 1) div k + (if y mod k = 0 then 1 else 0)"
proof (cases "y mod k = 0")
  case True
  then have "y - 1 = k * (y div k - 1) + (k - 1)"
    using mult_div_mod_eq [of k y] by (simp add: algebra_simps)
  from int_div_pos_eq [OF this] show ?thesis using assms True by simp
next
  case False
  then have "0 < y mod k" using assms pos_mod_sign [of k y] by linarith
  moreover have "y - 1 = k * (y div k) + (y mod k - 1)" using mult_div_mod_eq [of k y] by linarith
  ultimately show ?thesis using int_div_pos_eq [of "y - 1" k "y div k" "y mod k - 1"] assms False pos_mod_bound [of k y]
    by (simp del: pos_mod_bound)
qed

lemma days_before_next_year: "days_before_year (y + 1) = days_before_year y + (if is_leap y then 366 else 365)"
proof -
  have sum: "365 * y + (a + (if m4 then 1 else 0)) - (b + (if m100 then 1 else 0)) + (c + (if m400 then 1 else 0))
      = 365 * (y - 1) + a - b + c + (if m4 \<and> (\<not> m100 \<or> m400) then 366 else 365)"
    if "m400 \<Longrightarrow> m100" "m100 \<Longrightarrow> m4" for a b c :: int and m4 m100 m400
    using that by auto
  have "y mod 400 = 0 \<Longrightarrow> y mod 100 = 0" "y mod 100 = 0 \<Longrightarrow> y mod 4 = 0"
    using dvd_trans [of 100 400 y] dvd_trans [of 4 100 y] by (simp_all add: mod_eq_0_iff_dvd)
  from sum [OF this] show ?thesis
    unfolding days_before_year_def is_leap_def add_diff_cancel_right'
      div_pred [of 4 y, simplified] div_pred [of 100 y, simplified] div_pred [of 400 y, simplified]
    by blast
qed

lemma days_before_year_mono: "y \<le> z \<Longrightarrow> days_before_year y \<le> days_before_year z"
proof (induction z rule: int_ge_induct)
  case (step i)
  then show ?case using days_before_next_year [of i] by (auto split: if_splits)
qed simp

lemma year_unique:
  assumes "days_before_year y \<le> n" "n < days_before_year (y + 1)"
    and "days_before_year z \<le> n" "n < days_before_year (z + 1)"
  shows "y = z"
  using assms days_before_year_mono [of "y + 1" z] days_before_year_mono [of "z + 1" y]
  by (cases y z rule: linorder_cases) auto

lemma year_of_day:
  assumes "days_before_year y \<le> n" "n < days_before_year (y + 1)"
  shows "fst (civil_date n) = y"
proof -
  obtain z yd where z: "year_yday n = (z, yd)" by (cases "year_yday n")
  then have "fst (civil_date n) = z" by (simp add: civil_date_def split: prod.split)
  moreover have "z = y"
    using year_yday [OF z] assms by (intro year_unique [of z n]) (auto simp: days_before_next_year split: if_splits)
  ultimately show ?thesis by simp
qed

lemma sum_list_take_Suc: "i < length xs \<Longrightarrow> sum_list (take i xs) + xs ! i = sum_list (take (Suc i) xs)"
  by (simp add: take_Suc_conv_app_nth)

lemma sum_list_take_le:
  fixes xs :: "int list"
  assumes "list_all ((\<le>) 0) xs"
  shows "sum_list (take i xs) \<le> sum_list xs" "0 \<le> sum_list (take i xs)"
proof -
  have "0 \<le> sum_list (drop i xs)" "0 \<le> sum_list (take i xs)"
    using assms by (auto simp: list_all_iff dest: in_set_dropD in_set_takeD intro!: sum_list_nonneg)
  moreover have "sum_list xs = sum_list (take i xs) + sum_list (drop i xs)"
    by (metis append_take_drop_id sum_list_append)
  ultimately show "sum_list (take i xs) \<le> sum_list xs" "0 \<le> sum_list (take i xs)" by simp_all
qed

lemma days_of_date_year:
  assumes "1 \<le> m" "m \<le> 12" "1 \<le> d" "d \<le> days_in y m"
  shows "days_before_year y \<le> days_of_date y m d" "days_of_date y m d < days_before_year (y + 1)"
proof -
  let ?l = "month_lengths (is_leap y)"
  have p: "list_all ((\<le>) 0) ?l" by (simp add: month_lengths_def)
  have "m - 1 < length ?l" using assms(1,2) by simp
  from sum_list_take_Suc [OF this] have "sum_list (take (m - 1) ?l) + d \<le> sum_list (take (Suc (m - 1)) ?l)"
    using assms(4) by (simp add: days_in_def)
  also have "\<dots> \<le> sum_list ?l" by (rule sum_list_take_le [OF p])
  finally show "days_of_date y m d < days_before_year (y + 1)"
    by (simp add: days_of_date_def days_before_next_year sum_month_lengths)
  show "days_before_year y \<le> days_of_date y m d"
    using sum_list_take_le(2) [OF p, of "m - 1"] assms(3) by (simp add: days_of_date_def)
qed

text \<open>The times that \<open>time.Parse\<close> returns.\<close>

definition time_read :: "gtime \<Rightarrow> bool" where
  "time_read t \<longleftrightarrow> 0 \<le> time_year t \<and> time_year t \<le> 9999 \<and> t_nsec t < 10 ^ 9
     \<and> t_off t mod 60 = 0 \<and> \<bar>t_off t\<bar> \<le> 90000"

lemma time_exact_read: "time_exact t \<longleftrightarrow> time_read t \<and> \<bar>zone_minutes t\<bar> < 24 * 60"
  using zone_minutes_exact [of t] by (auto simp: time_exact_def time_read_def time_encodable_def)

lemma time_year_of_clock:
  assumes "1 \<le> m" "m \<le> 12" "1 \<le> d" "int d \<le> days_in y m" and "hh < 24" "mi < 60" "ss < 60"
  shows "time_year (time_of_clock y m (int d) hh mi ss ns off) = y"
proof -
  let ?s = "int (hh * 3600 + mi * 60 + ss)"
  have "0 \<le> ?s" "?s < 86400" using assms(5-7) by linarith+
  then have "local_secs (time_of_clock y m (int d) hh mi ss ns off) div 86400 = days_of_date y m (int d)"
    by (intro int_div_pos_eq [of _ _ _ ?s]) (simp_all add: local_secs_def time_of_clock_def)
  then show ?thesis
    using days_of_date_year [of m "int d" y] assms(1-4) by (simp add: time_year_def year_of_day)
qed

lemma digits_value_4: "digits_value 0 (take 4 s) = Some y \<Longrightarrow> y < 10000"
proof -
  assume "digits_value 0 (take 4 s) = Some y"
  then have "y < 10 ^ length (take 4 s)" using digits_value_bound by fastforce
  also have "\<dots> \<le> (10 :: nat) ^ 4" by (rule power_increasing) simp_all
  finally show "y < 10000" by simp
qed

lemma getzone_bound:
  assumes "getzone s = Some (off, s')"
  shows "off mod 60 = 0 \<and> \<bar>off\<bar> \<le> 90000"
proof (cases s)
  case (Cons c u)
  show ?thesis
  proof (cases "c = CHR ''Z''")
    case False
    obtain hr mm where o: "hr \<le> 24" "mm \<le> 60"
      "off = (if c = CHR ''-'' then -1 else 1) * int ((hr * 60 + mm) * 60)"
      using assms Cons False by (auto simp: guarded_def bind_eq_Some_conv case_prod_beta split: if_splits)
    from o(1,2) have "(hr * 60 + mm) * 60 \<le> 90000" by simp
    then have b: "0 \<le> int (hr * 60 + mm)" "int (hr * 60 + mm) * 60 \<le> 90000" by linarith+
    have "off = int (hr * 60 + mm) * 60 \<or> off = (- int (hr * 60 + mm)) * 60"
      unfolding o(3) of_nat_mult by simp
    then show ?thesis using b by (auto simp only: mod_mult_self2_is_0)
  qed (use assms Cons in auto)
qed (use assms in simp)

lemma time_parse_read: "time_parse s = Some t \<Longrightarrow> time_read t"
proof -
  assume t: "time_parse s = Some t"
  then obtain y m d hh mi ss f s1 s2 off where
    y: "digits_value 0 (take 4 s) = Some y" and z: "getzone s2 = Some (off, s1)"
    and c: "1 \<le> m" "m \<le> 12" "hh < 24" "mi < 60" "ss < 60" "1 \<le> d" "int d \<le> days_in (int y) m"
    and e: "t = time_of_clock (int y) m (int d) hh mi ss f off"
    by (auto simp: time_parse_def getyear_def guarded_def bind_eq_Some_conv case_prod_beta split: if_splits)
  have "t_nsec t < 10 ^ 9" by (rule time_parse_nsec [OF t])
  moreover have "t_off t = off" by (simp add: e time_of_clock_def)
  moreover have "time_year t = int y" unfolding e by (rule time_year_of_clock) (use c in simp_all)
  ultimately show ?thesis using getzone_bound [OF z] digits_value_4 [OF y] by (simp add: time_read_def)
qed

section \<open>Decoders keep what holds of every field\<close>

text \<open>A decoder keeps \<open>P\<close> if what it returns has \<open>P\<close> whenever the variable had it.\<close>

definition keeps :: "('a \<Rightarrow> bool) \<Rightarrow> 'a decoder \<Rightarrow> bool" where
  "keeps P dec \<longleftrightarrow> (\<forall>v old x. P old \<longrightarrow> dec v old = Some x \<longrightarrow> P x)"

lemma keepsI: "(\<And>v old x. P old \<Longrightarrow> dec v old = Some x \<Longrightarrow> P x) \<Longrightarrow> keeps P dec"
  by (simp add: keeps_def)

lemma keepsD: "keeps P dec \<Longrightarrow> dec v old = Some x \<Longrightarrow> P old \<Longrightarrow> P x"
  by (auto simp: keeps_def)

lemma keeps_string: "keeps valid_utf8 dec_string"
proof (rule keepsI)
  fix v old x assume "valid_utf8 old" and "dec_string v old = Some x"
  then show "valid_utf8 x" by (cases v) (auto intro: unquote_valid)
qed

lemma keeps_time: "keeps time_read dec_time"
proof (rule keepsI)
  fix v old x assume "time_read old" and "dec_time v old = Some x"
  then show "time_read x" by (cases v) (auto intro: time_parse_read)
qed

lemma keeps_any: "keeps (\<lambda>_. True) dec_bool" "keeps (\<lambda>_. True) dec_int"
  by (simp_all add: keeps_def)

lemma keeps_ptr:
  assumes "keeps P dec" and "P zero"
  shows "keeps (pred_option P) (dec_ptr zero dec)"
proof (rule keepsI)
  fix v old x assume o: "pred_option P old" and x: "dec_ptr zero dec v old = Some x"
  have "P (case old of None \<Rightarrow> zero | Some y \<Rightarrow> y)" using o assms(2) by (cases old) simp_all
  then show "pred_option P x" using x keepsD [OF assms(1)]
    by (auto simp: dec_ptr_def split: json.splits)
qed

lemma dec_elems_keeps:
  assumes "keeps P dec" and "P zero"
  shows "list_all P old \<Longrightarrow> dec_elems zero dec vs old = Some xs \<Longrightarrow> list_all P xs"
proof (induction vs arbitrary: old xs)
  case (Cons v vs)
  have "P (case old of [] \<Rightarrow> zero | y # _ \<Rightarrow> y)" and t: "list_all P (tl old)"
    using Cons.prems(1) assms(2) by (cases old; simp)+
  then show ?case using Cons.prems(2) Cons.IH [OF t] keepsD [OF assms(1)] by (auto simp: bind_eq_Some_conv)
qed simp

lemma keeps_list:
  assumes "keeps P dec" and "P zero"
  shows "keeps (list_all P) (dec_list zero dec)"
proof (rule keepsI)
  fix v old x assume "list_all P old" and "dec_list zero dec v old = Some x"
  then show "list_all P x" by (cases v) (auto intro: dec_elems_keeps [OF assms])
qed

lemma find_field_in: "find_field U fs k = Some d \<Longrightarrow> d \<in> snd ` set fs"
proof (cases "map_of fs k")
  case None
  assume "find_field U fs k = Some d"
  with None obtain n where "find (\<lambda>(n, _). fold_name U n = fold_name U k) fs = Some (n, d)"
    by (auto simp: find_field_def)
  then have "(n, d) \<in> set fs" by (auto simp: find_Some_iff dest: nth_mem)
  then show ?thesis by force
next
  case (Some d')
  assume "find_field U fs k = Some d"
  with Some map_of_SomeD [OF Some] show ?thesis by (force simp: find_field_def)
qed

lemma dec_members_keeps:
  assumes "list_all (\<lambda>(k, d). keeps P d) fs"
  shows "P r \<Longrightarrow> dec_members U fs ms r = Some r' \<Longrightarrow> P r'"
proof (induction ms arbitrary: r)
  case (Cons m ms)
  obtain k v where m: "m = (k, v)" by (cases m)
  with Cons.prems(2) obtain k' r1 where k: "unquote k = Some k'" "dec_members U fs ms r1 = Some r'"
    and r1: "(case find_field U fs k' of None \<Rightarrow> Some r | Some d \<Rightarrow> d v r) = Some r1"
    by (auto simp: bind_eq_Some_conv)
  have "P r1"
  proof (cases "find_field U fs k'")
    case (Some d)
    from find_field_in [OF Some] assms have "keeps P d" by (auto simp: list_all_iff)
    with Some r1 Cons.prems(1) show ?thesis by (auto dest: keepsD)
  qed (use r1 Cons.prems(1) in simp)
  from Cons.IH [OF this k(2)] show ?case .
qed simp

lemma keeps_struct:
  assumes "list_all (\<lambda>(k, d). keeps P d) fs"
  shows "keeps P (dec_struct U fs)"
proof (rule keepsI)
  fix v old x assume "P old" and "dec_struct U fs v old = Some x"
  then show "P x" by (cases v) (auto intro: dec_members_keeps [OF assms])
qed

lemma keeps_fld:
  assumes "keeps Q dec" and "\<And>r. P r \<Longrightarrow> Q (get r)" and "\<And>r x. P r \<Longrightarrow> Q x \<Longrightarrow> P (upd (\<lambda>_. x) r)"
  shows "keeps P (fld get upd dec)"
proof (rule keepsI)
  fix v old x assume "P old" and "fld get upd dec v old = Some x"
  then show "P x" using keepsD [OF assms(1)] assms(2,3) by (auto simp: fld_def)
qed

lemma unmarshal_keeps: "keeps P dec \<Longrightarrow> P zero \<Longrightarrow> unmarshal dec zero s = Some x \<Longrightarrow> P x"
  by (auto simp: unmarshal_def bind_eq_Some_conv dest: keepsD)

section \<open>Records and requests\<close>

lemma time_read_zero: "time_read zero_time"
  using zero_time_exact by (simp add: time_exact_read)

definition open_event_typed :: "OpenEvent \<Rightarrow> bool" where
  "open_event_typed e \<longleftrightarrow> valid_utf8 (oe_event_id e) \<and> time_read (oe_opened_at e)"

definition click_event_typed :: "ClickEvent \<Rightarrow> bool" where
  "click_event_typed e \<longleftrightarrow> valid_utf8 (ce_event_id e) \<and> valid_utf8 (ce_link e) \<and> time_read (ce_clicked_at e)"

definition record_typed :: "rcpt \<Rightarrow> bool" where
  "record_typed r \<longleftrightarrow> list_all valid_utf8 (record_strings r) \<and> list_all time_read (record_times r)"

lemma record_typed_fields:
  "record_typed r \<longleftrightarrow> valid_utf8 (GroupID r) \<and> valid_utf8 (EmailID r) \<and> valid_utf8 (To r)
     \<and> valid_utf8 (Subject r) \<and> time_read (SentAt r) \<and> pred_option time_read (DeliveredAt r)
     \<and> list_all open_event_typed (OpenedAtList r) \<and> pred_option time_read (LastOpenedAt r)
     \<and> list_all valid_utf8 (ClickEventIDs r) \<and> list_all click_event_typed (ClickList r)
     \<and> pred_option time_read (LastClickedAt r) \<and> pred_option time_read (FailedAt r)"
  by (auto simp: record_typed_def record_strings_def record_times_def opt_list_def list_all_iff
      open_event_typed_def click_event_typed_def pred_option_def split: option.splits)

lemma keeps_open_event: "keeps open_event_typed (dec_struct U open_event_fields)"
  by (rule keeps_struct)
    (auto simp: open_event_fields_def open_event_typed_def intro!: keeps_fld [OF keeps_string] keeps_fld [OF keeps_time])

lemma keeps_click_event: "keeps click_event_typed (dec_struct U click_event_fields)"
  by (rule keeps_struct)
    (auto simp: click_event_fields_def click_event_typed_def intro!: keeps_fld [OF keeps_string] keeps_fld [OF keeps_time])

lemma keeps_record: "keeps record_typed (dec_struct U (record_fields U))"
proof (rule keeps_struct)
  have "open_event_typed zero_open_event" "click_event_typed zero_click_event"
    by (simp_all add: open_event_typed_def zero_open_event_def click_event_typed_def zero_click_event_def
        time_read_zero valid_utf8_ascii)
  note dec = keeps_fld [OF keeps_string] keeps_fld [OF keeps_time] keeps_fld [OF keeps_any(1)] keeps_fld [OF keeps_any(2)]
    keeps_fld [OF keeps_ptr [OF keeps_time time_read_zero]]
    keeps_fld [OF keeps_list [OF keeps_open_event this(1)]]
    keeps_fld [OF keeps_list [OF keeps_click_event this(2)]]
    keeps_fld [OF keeps_list [OF keeps_string, of "[]"]]
  show "list_all (\<lambda>(k, d). keeps record_typed d) (record_fields U)"
    by (auto simp: record_fields_def record_typed_fields intro!: dec)
qed

lemma zero_record_typed: "record_typed zero_record"
  by (simp add: record_typed_fields zero_record_def time_read_zero)

definition request_strings :: "SendEmailRequest \<Rightarrow> string list" where
  "request_strings q = [req_to q, req_subject q, req_html q, req_text q, req_from q, req_from_display_name q,
     req_reply_to q, req_group_id q]"

lemma unmarshal_send_typed:
  assumes "unmarshal_send L s = Some q"
  shows "list_all valid_utf8 (request_strings q)"
proof -
  have "list_all (\<lambda>(k, d). keeps (\<lambda>q. list_all valid_utf8 (request_strings q)) d) request_fields"
    by (auto simp: request_fields_def request_strings_def intro!: keeps_fld [OF keeps_string])
  from unmarshal_keeps [OF keeps_struct [OF this] _ assms [unfolded unmarshal_send_def]] show ?thesis
    by (simp add: zero_request_def request_strings_def)
qed

text \<open>
  C31: whatever text an entry of the bucket holds, a record that is decoded from it is well formed: every
  string is UTF-8, every time has a year of four digits, less than a second of nanoseconds and a
  zone of whole minutes. It can be encoded unless the zone of one of its times is a day or more, and the
  text that is written then is read back as the very same record, so reading and writing a
  record again and again never changes it.
\<close>

theorem decoded_record_typed:
  assumes "unmarshal_record L s = Some r"
  shows "list_all valid_utf8 (record_strings r) \<and> list_all time_read (record_times r)
     \<and> (marshal_record r = None \<longleftrightarrow> (\<exists>t \<in> set (record_times r). 24 * 60 \<le> \<bar>zone_minutes t\<bar>))
     \<and> (\<forall>v. marshal_record r = Some v \<longrightarrow> unmarshal_record L v = Some r)"
proof -
  have "record_typed r"
    using unmarshal_keeps [OF keeps_record zero_record_typed] assms unfolding unmarshal_record_def by blast
  then have u: "list_all valid_utf8 (record_strings r)" and t: "list_all time_read (record_times r)"
    by (simp_all add: record_typed_def)
  then have e: "marshal_record r = None \<longleftrightarrow> \<not> list_all time_exact (record_times r)"
    by (auto simp: marshal_record_def encodable_def list_all_iff time_exact_read time_read_def time_encodable_def)
  with t have n: "marshal_record r = None \<longleftrightarrow> (\<exists>t \<in> set (record_times r). 24 * 60 \<le> \<bar>zone_minutes t\<bar>)"
    by (simp only: list_all_iff time_exact_read Ball_def Bex_def not_less [symmetric]) blast
  have "unmarshal_record L v = Some r" if "marshal_record r = Some v" for v
    using unmarshal_marshal_record [OF _ that] record_utf8_valid [OF u] e that by simp
  with u t n show ?thesis by blast
qed

text \<open>A text that is read and cannot be written again.\<close>

definition ex_zone_text :: string where
  "ex_zone_text = json_print (JObj [(''sent_at'', JStr ''2024-01-01T00:00:00+24:00'')])"

definition ex_zone_time :: gtime where
  "ex_zone_time = time_of_clock 2024 1 1 0 0 0 0 86400"

lemma ex_zone_parse: "time_parse ''2024-01-01T00:00:00+24:00'' = Some ex_zone_time"
  by (simp add: time_parse_def getyear_def is_digit_def byte_eval digit_def ex_zone_time_def days_in_def
      month_lengths_def is_leap_def guarded_def)

lemma ex_zone_read: "unmarshal_record L ex_zone_text = Some (zero_record\<lparr>SentAt := ex_zone_time\<rparr>)"
proof -
  have "list_all html_safe ''2024-01-01T00:00:00+24:00''" by (simp add: html_safe_def byte_eval)
  then have "json_ok maxNestingDepth (JObj [(''sent_at'', JStr ''2024-01-01T00:00:00+24:00'')])"
    using record_names_safe [THEN raw_text_safe] by (simp add: maxNestingDepth_def raw_text_safe)
  from json_parse_print [OF this] show ?thesis
    using dec_members_Cons [OF record_names_safe(5) record_fields_map(5)]
    by (simp add: unmarshal_record_def unmarshal_def ex_zone_text_def fld_def ex_zone_parse
        del: dec_members.simps(2))
qed

theorem decoded_record_typed_witness: "marshal_record (zero_record\<lparr>SentAt := ex_zone_time\<rparr>) = None"
proof -
  have "24 * 60 \<le> \<bar>zone_minutes ex_zone_time\<bar>"
    by (simp add: ex_zone_time_def time_of_clock_def zone_minutes_def)
  then show ?thesis using decoded_record_typed [OF ex_zone_read] by (simp add: record_times_def)
qed

end
