(* ===== verification/SendService.thy ===== *)
theory SendService
  imports SmtpSender EngagementHandler JsonTyping
begin

text \<open>
  The send subject of the service: the handler of \<open>send_email_handler.go\<close> on the bucket store
  of \<open>kv/store.go\<close> and the SMTP sender of \<open>smtp/sender.go\<close>. What one request can lead to, whatever
  the buckets, the mail server and the other writers do.
\<close>

text \<open>The store of the send subject, which uses none of the operations that take a callback.\<close>

abbreviation bucket_store :: "golib \<Rightarrow> (unit, unit) TrackingStore" where
  "bucket_store L \<equiv> kv_Store L"

section \<open>Accepted requests\<close>

lemma from_allowed:
  assumes "ValidateFrom L policy from = None" and "from \<noteq> []" and "lib_parse_address L from = Some a"
  shows "\<exists>l d. plain_mailbox a l d \<and> ascii_lower d \<in> set (AllowedFromDomains policy)"
proof -
  from assms obtain x where x: "strictAddressDomain L from = Inr x" "x \<in> set (AllowedFromDomains policy)"
    by (auto simp: ValidateFrom_def list_ex_iff split: sum.splits if_splits)
  then show ?thesis using assms(3) unfolding strictAddressDomain_iff by auto
qed

lemma recipient_allowed:
  assumes "fst (IsRecipientAllowed L policy to)" and "AllowedRecipientDomains policy \<noteq> []"
    and "lib_parse_address L to = Some a"
  shows "\<exists>l d. \<exists>b \<in> set (AllowedRecipientDomains policy).
           plain_mailbox a l d \<and> suffix (split_on CHR ''.'' b) (split_on CHR ''.'' (ascii_lower d))"
proof -
  from assms obtain x b where x: "strictAddressDomain L to = Inr x" "b \<in> set (AllowedRecipientDomains policy)"
      "matches_base x b"
    by (auto simp: IsRecipientAllowed_def list_ex_iff split: sum.splits)
  then show ?thesis using assms(3) unfolding strictAddressDomain_iff matches_base_iff_labels by auto
qed

definition mail_permitted :: "AddressPolicy \<Rightarrow> SendEmailRequest \<Rightarrow> mail \<Rightarrow> bool" where
  "mail_permitted policy req m \<longleftrightarrow>
     (AllowedRecipientDomains policy = []
      \<or> (\<exists>l d. \<exists>b \<in> set (AllowedRecipientDomains policy).
           plain_mailbox (mail_rcpt m) l d \<and> suffix (split_on CHR ''.'' b) (split_on CHR ''.'' (ascii_lower d))))
     \<and> (req_from req \<noteq> [] \<longrightarrow>
          (\<exists>l d. plain_mailbox (mail_from m) l d \<and> ascii_lower d \<in> set (AllowedFromDomains policy)))"

lemma accepted_permitted:
  assumes "accepted L policy data req" and "mailed_for L req m"
  shows "mail_permitted policy req m"
  using assms from_allowed [of L policy "req_from req"] recipient_allowed [of L policy "req_to req"]
  by (auto simp: accepted_def mailed_for_def mail_permitted_def)

text \<open>
  C16: handling a request answers it exactly once, publishes nothing and hands over at most one
  mail. The recipient in the envelope of that mail is the mailbox of the request and, label by label,
  in an allowed domain; a sender named by the request is in a domain allowed for senders.
\<close>

theorem mail_only_as_permitted:
  assumes "SendHandleData (bucket_store L) L (SmtpSend L cfg) policy data w = w'"
    and "revisions_ok w" and "uuids_ok w"
  shows "\<exists>d ms. w_replies w' = w_replies w @ [d] \<and> w_published w' = w_published w
     \<and> w_sent w' = w_sent w @ ms \<and> length ms \<le> 1
     \<and> (\<forall>m \<in> set ms. \<exists>req. unmarshal_send L data = Some req
          \<and> lib_parse_address L (req_to req) = Some (mail_rcpt m)
          \<and> (AllowedRecipientDomains policy = []
             \<or> (\<exists>l d. \<exists>b \<in> set (AllowedRecipientDomains policy).
                  plain_mailbox (mail_rcpt m) l d
                  \<and> suffix (split_on CHR ''.'' b) (split_on CHR ''.'' (ascii_lower d))))
          \<and> (req_from req \<noteq> [] \<longrightarrow>
               (\<exists>l d. plain_mailbox (mail_from m) l d \<and> ascii_lower d \<in> set (AllowedFromDomains policy))))"
proof -
  obtain d ms req where d: "w_replies w' = w_replies w @ [d]" "w_published w' = w_published w"
      "w_sent w' = w_sent w @ ms" "length ms \<le> 1"
    and m: "if accepted L policy data req then \<forall>m \<in> set ms. mailed_for L req m else ms = []"
    using service.SendHandleData_effects [OF assms, of "\<lambda>_. True"] by (metis (no_types, lifting))
  have "\<exists>req. unmarshal_send L data = Some req \<and> lib_parse_address L (req_to req) = Some (mail_rcpt m)
      \<and> mail_permitted policy req m" if "m \<in> set ms" for m
  proof (cases "accepted L policy data req")
    case True
    with m that have "mailed_for L req m" by simp
    with True show ?thesis using accepted_permitted [OF True]
      by (intro exI [of _ req]) (simp add: accepted_def mailed_for_def)
  qed (use m that in simp)
  with d show ?thesis unfolding mail_permitted_def by blast
qed

section \<open>What a request writes\<close>

lemma initial_record_fits:
  assumes "accepted L policy data req" and "length e = 36" and "length g \<le> 36" and "time_exact t"
  shows "no_history (initial_record req e g t) \<and> times_ok (initial_record req e g t)
     \<and> record_size (initial_record req e g t) \<le> 50000"
proof -
  let ?r = "initial_record req e g t"
  have n: "no_history ?r" by (simp add: no_history_def initial_record_def zero_record_def)
  have t: "times_ok ?r"
    using assms(4) by (simp add: times_ok_def record_times_def initial_record_def zero_record_def opt_list_def)
  have "oversizedFieldReason L req = []" using assms(1) by (simp add: accepted_def)
  then have "length (req_to req) \<le> 512" "length (req_subject req) \<le> 998"
    using CheckAddressLength_bounds(1) [of L "req_to req"]
    by (auto simp: oversizedFieldReason_def MaxSubjectLength_def split: if_splits)
  moreover have "head_size ?r = 52 + (json_len (json_string g) + (json_len (json_string e)
      + (json_len (json_string (req_to req)) + (json_len (json_string (req_subject req)) + json_len (json_time t)))))"
    by (simp add: head_size_def initial_record_def zero_record_def)
  moreover have "json_len (json_time t) \<le> 37" using json_len_time_le [of t] assms(4) by (simp add: time_exact_def)
  ultimately have "head_size ?r \<le> 12000"
    using json_len_string_le [of e] json_len_string_le [of g] json_len_string_le [of "req_to req"]
      json_len_string_le [of "req_subject req"] assms(2,3) by linarith
  then have "record_size ?r \<le> 50000"
    using scalars_size_bounds(2) [OF t] n
    by (simp add: record_size_parts no_history_def lists_size_def list_member_def)
  with n t show ?thesis by simp
qed

lemma initial_record_read:
  assumes "accepted L policy data req" and "isValidUUID e" and "IsGroupHandle g" and "time_exact t"
    and "marshal_record (initial_record req e g t) = Some v"
  shows "unmarshal_record L v = Some (initial_record req e g t)"
proof -
  have "list_all valid_utf8 (request_strings req)"
    using assms(1) by (intro unmarshal_send_typed [of L data]) (simp add: accepted_def)
  then have "list_all valid_utf8 (record_strings (initial_record req e g t))"
    using assms(2,3)
    by (simp add: record_strings_def initial_record_def zero_record_def request_strings_def valid_utf8_ascii
        isValidUUID_ascii IsGroupHandle_ascii)
  moreover have "list_all time_exact (record_times (initial_record req e g t))"
    using assms(4) by (simp add: record_times_def initial_record_def zero_record_def opt_list_def)
  ultimately show ?thesis using unmarshal_marshal_record [OF _ assms(5)] record_utf8_valid by simp
qed

text \<open>What an entry written by a request is, given the request and the identifier of its e-mail.\<close>

definition sent_entry :: "golib \<Rightarrow> SendEmailRequest \<Rightarrow> string \<Rightarrow> kv_log \<Rightarrow> bool" where
  "sent_entry L req emailID = (\<lambda>(b, k, old, v).
     case b of
       GroupIndex \<Rightarrow> IsGroupHandle k \<and> v = marshal_ids (index_ids L old @ [emailID])
         \<and> (req_group_id req \<noteq> [] \<longrightarrow> k = req_group_id req)
     | Recipients \<Rightarrow> k = emailID \<and>
         (\<exists>g t. IsGroupHandle g \<and> marshal_record (initial_record req emailID g t) = Some v
            \<and> no_history (initial_record req emailID g t) \<and> times_ok (initial_record req emailID g t)
            \<and> record_size (initial_record req emailID g t) \<le> 50000
            \<and> unmarshal_record L v = Some (initial_record req emailID g t)))"

lemma send_write_sent_entry:
  assumes "send_write L req emailID groupID time_exact l" and "accepted L policy data req"
    and "isValidUUID emailID" and "if req_group_id req = [] then IsGroupHandle groupID else groupID = req_group_id req"
  shows "sent_entry L req emailID l"
proof -
  have g: "IsGroupHandle groupID" using assms(2,4) by (auto simp: accepted_def split: if_splits)
  consider "extends_index L groupID emailID l"
    | t where "time_exact t" "writes_record emailID (initial_record req emailID groupID t) l"
    using assms(1) by (auto simp: send_write_def)
  then show ?thesis
  proof cases
    case 1
    then show ?thesis using assms(4) g by (cases l) (auto simp: extends_index_def sent_entry_def)
  next
    case (2 t)
    then show ?thesis
      using g initial_record_fits [OF assms(2) isValidUUID_len [OF assms(3)] _ 2(1), of groupID] IsGroupHandle_len [OF g]
        initial_record_read [OF assms(2,3) g 2(1)]
      by (cases l) (auto simp: writes_record_def sent_entry_def)
  qed
qed

text \<open>
  C17: a request writes only an index under a well-formed group handle, extended by the UUID of
  the e-mail, and under that UUID the record of an e-mail that was just sent: the recipient and
  subject of the request, no engagement, and small enough that no sequence of events can make it
  outgrow its bucket; the text that is stored is read back as that very record. A refused request
  writes nothing.
\<close>

theorem send_writes_initial_record:
  assumes "SendHandleData (bucket_store L) L (SmtpSend L cfg) policy data w = w'"
    and "revisions_ok w" and "uuids_ok w" and "clock_ok w"
  shows "\<exists>ws emailID. w_writes w' = w_writes w @ ws \<and> (ws \<noteq> [] \<longrightarrow> isValidUUID emailID)
     \<and> (\<forall>l \<in> set ws. \<exists>req. accepted L policy data req \<and> sent_entry L req emailID l)"
proof -
  have clock: "time_exact (time_utc (w_now w n))" for n using assms(4) by (simp add: clock_ok_def)
  obtain req emailID groupID where a: "acts key_ok (send_write L req emailID groupID time_exact) w w'"
    and c: "if accepted L policy data req
       then (emailID = [] \<longrightarrow> w_writes w' = w_writes w)
          \<and> (emailID \<noteq> [] \<longrightarrow> isValidUUID emailID
             \<and> (if req_group_id req = [] then IsGroupHandle groupID else groupID = req_group_id req))
       else w_writes w' = w_writes w"
    using service.SendHandleData_effects [OF assms(1-3), of time_exact] clock by (metis (no_types, lifting))
  obtain ws where ws: "w_writes w' = w_writes w @ ws" "list_all (send_write L req emailID groupID time_exact) ws"
    using a by (auto simp: acts_def)
  show ?thesis
  proof (cases "ws = []")
    case False
    with c ws have acc: "accepted L policy data req" and id: "isValidUUID emailID"
      and g: "if req_group_id req = [] then IsGroupHandle groupID else groupID = req_group_id req"
      by (auto split: if_splits)
    have "\<forall>l \<in> set ws. sent_entry L req emailID l"
      using ws(2) send_write_sent_entry [OF _ acc id g] by (simp add: list_all_iff)
    with ws(1) id acc show ?thesis by (intro exI [of _ ws] exI [of _ emailID]) blast
  qed (use ws in auto)
qed

section \<open>What a request is told\<close>

lemma index_written_writes:
  "index_written g e w1 w2 \<Longrightarrow> w_writes w1 = w_writes w \<Longrightarrow> w_writes w' = w_writes w2 \<Longrightarrow> index_written g e w w'"
  by (simp add: index_written_def)

lemma index_seen_acts: "acts K P w w1 \<Longrightarrow> index_seen L g e w1 \<Longrightarrow> index_seen L g e w"
  by (auto simp: acts_def intro: index_seen_later)

lemma write_record_writes:
  assumes "write_record (bucket_store L) e g req w = w'"
  shows "\<exists>ws. w_writes w' = w_writes w @ ws"
proof -
  have "runs key_ok (send_write L req e g (\<lambda>_. True)) w w'"
    unfolding assms [symmetric] by (rule service.write_record_runs) simp
  then show ?thesis by (auto simp: runs_def)
qed

lemma new_group_recorded:
  assumes "writeTrackingRecords (bucket_store L) e g True req w = (True, w')" and "g \<noteq> []" and "revisions_ok w"
  shows "index_written g e w w' \<or> index_seen L g e w"
proof -
  obtain x w1 where x: "AppendToGroup (bucket_store L) g e w = (x, w1)" by (cases "AppendToGroup (bucket_store L) g e w")
  then have r: "x = None" "w' = write_record (bucket_store L) e g req w1"
    using assms(1,2) by (auto simp: writeTrackingRecords_def split: option.splits if_splits)
  have "kv_AppendToGroup L g e w = (None, w1)" using x r by (simp add: kv_Store_def)
  then consider "index_written g e w w1" | "index_seen L g e w" using append_recorded assms(3) by blast
  then show ?thesis
    using write_record_writes [OF r(2) [symmetric]] by cases (fastforce simp: index_written_def)+
qed

definition delivery_reply :: "golib \<Rightarrow> SendEmailRequest \<Rightarrow> world \<Rightarrow> world \<Rightarrow> string \<Rightarrow> bool" where
  "delivery_reply L req w w' d \<longleftrightarrow>
     (\<exists>reason. d = marshal_error_response reason)
     \<or> (\<exists>e g. d = marshal_send_response \<lparr>resp_email_id = e, resp_group_id = g\<rparr>
          \<and> (g \<noteq> [] \<longrightarrow> g = req_group_id req \<or> IsGroupHandle g \<and> (index_written g e w w' \<or> index_seen L g e w)))"

lemma deliver_request_reply:
  assumes "deliver_request (bucket_store L) (SmtpSend L cfg) req w = w'" and "revisions_ok w" and "uuids_ok w"
  shows "\<exists>d. w_replies w' = w_replies w @ [d] \<and> delivery_reply L req w w' d"
proof -
  obtain e g err w1 where s: "SmtpSend L cfg req w = ((e, g, err), w1)" by (metis prod.exhaust)
  have f: "w_replies w1 = w_replies w" "w_writes w1 = w_writes w" "acts key_ok no_write w w1"
    using SmtpSend_effects(1) [OF s] smtp.send_acts [OF s] by (simp_all add: sender_frame_def)
  show ?thesis
  proof (cases err)
    case (Some x)
    then show ?thesis using assms(1) s f by (auto simp: deliver_request_def replyError_def delivery_reply_def)
  next
    case None
    then have id: "isValidUUID e" "if req_group_id req = [] then IsGroupHandle g else g = req_group_id req"
      using SmtpSend_effects(3) [OF s] assms(3) by (simp_all add: uuids_ok_def)
    then have "e \<noteq> []" using isValidUUID_len [of e] by (cases e) simp_all
    obtain b w2 where t: "writeTrackingRecords (bucket_store L) e g (req_group_id req = []) req w1 = (b, w2)"
      by (cases "writeTrackingRecords (bucket_store L) e g (req_group_id req = []) req w1")
    have w': "w' = respond (marshal_send_response
        \<lparr>resp_email_id = e, resp_group_id = (if b then g else [])\<rparr>) w2"
      using assms(1) s None \<open>e \<noteq> []\<close> t by (simp add: deliver_request_def)
    have rev: "revisions_ok w1" by (rule acts_revisions [OF f(3) assms(2)])
    have "w_replies w2 = w_replies w"
      using runs_replies [OF service.writeTrackingRecords_runs [OF t rev, of "\<lambda>_. True"]] f(1) by simp
    moreover have "g = req_group_id req \<or> IsGroupHandle g \<and> (index_written g e w w' \<or> index_seen L g e w)"
      if b: "b" "g \<noteq> []"
    proof (cases "req_group_id req = []")
      case True
      then have "index_written g e w1 w2 \<or> index_seen L g e w1"
        using new_group_recorded [of L e g req w1 w2] t b rev by simp
      then show ?thesis
        using index_written_writes [of g e w1 w2 w w'] index_seen_acts [OF f(3)] f(2) w' id True by auto
    qed (use id in simp)
    ultimately show ?thesis unfolding w' delivery_reply_def by auto
  qed
qed


section \<open>The group handle stays out of the mail\<close>

lemma smtp_send_rand: "smtp_send m (w\<lparr>w_rand := r\<rparr>) = (let (x, w') = smtp_send m w in (x, w'\<lparr>w_rand := r\<rparr>))"
  by (simp add: smtp_send_def Let_def)

lemma sendMessage_rand:
  assumes "sendMessage L to from msg cfg w = (x, w')"
  shows "sendMessage L to from msg cfg (w\<lparr>w_rand := r\<rparr>) = (x, w'\<lparr>w_rand := r\<rparr>)"
proof (cases "\<exists>a b. CheckAddressLength L from = None \<and> CheckAddressLength L to = None
    \<and> lib_parse_address L from = Some a \<and> \<not> needsQuoting a \<and> lib_parse_address L to = Some b \<and> \<not> needsQuoting b")
  case True
  then obtain a b where ab: "CheckAddressLength L from = None" "CheckAddressLength L to = None"
      "lib_parse_address L from = Some a" "\<not> needsQuoting a" "lib_parse_address L to = Some b" "\<not> needsQuoting b"
    by blast
  let ?m = "\<lparr>mail_server = Host cfg @ '':'' @ int_str (sint (Port cfg)),
    mail_auth = (if Username cfg \<noteq> [] \<and> Password cfg \<noteq> [] then Some (Username cfg, Password cfg) else None),
    mail_from = a, mail_rcpt = b, mail_data = msg\<rparr>"
  obtain out w1 where s: "smtp_send ?m w = (out, w1)" by (cases "smtp_send ?m w")
  then have "smtp_send ?m (w\<lparr>w_rand := r\<rparr>) = (out, w1\<lparr>w_rand := r\<rparr>)" by (simp add: smtp_send_rand)
  with assms ab s show ?thesis by (cases out) (auto simp: sendMessage_def Let_def)
next
  case False
  with assms show ?thesis by (auto simp: sendMessage_def Let_def split: if_splits option.splits)
qed

text \<open>
  C19: the mail of a send does not depend on the group handle, neither on the one of a request nor
  on the random bytes a new one is made of. Recipients, who see the tracking identifier, learn
  nothing about the credential for the group's records.
\<close>

theorem mail_independent_of_handle:
  assumes "\<forall>i. i < w_draws w \<or> w_draws w + 16 \<le> i \<longrightarrow> r i = w_rand w i" and "g \<noteq> []" and "g' \<noteq> []"
  shows "w_sent (snd (SmtpSend L cfg (req\<lparr>req_group_id := []\<rparr>) (w\<lparr>w_rand := r\<rparr>)))
       = w_sent (snd (SmtpSend L cfg (req\<lparr>req_group_id := []\<rparr>) w))
     \<and> w_sent (snd (SmtpSend L cfg (req\<lparr>req_group_id := g\<rparr>) w))
       = w_sent (snd (SmtpSend L cfg (req\<lparr>req_group_id := g'\<rparr>) w))"
proof
  let ?req = "req\<lparr>req_group_id := []\<rparr>"
  let ?q = "w\<lparr>w_uuids := Suc (w_uuids w), w_draws := w_draws w + 16\<rparr>"
  let ?f = "send_fields cfg ?req (w_uuid w (w_uuids w))"
  obtain msg w3 where b: "buildEmailMessage L ?f ?q = (msg, w3)" by (cases "buildEmailMessage L ?f ?q")
  have "\<forall>i \<ge> w_draws ?q. r i = w_rand ?q i" using assms(1) by auto
  note build_same [OF b this]
  moreover have "?q\<lparr>w_rand := r\<rparr> = w\<lparr>w_rand := r, w_uuids := Suc (w_uuids w), w_draws := w_draws w + 16\<rparr>"
    by (cases w) simp
  ultimately have b': "buildEmailMessage L ?f (w\<lparr>w_rand := r, w_uuids := Suc (w_uuids w), w_draws := w_draws w + 16\<rparr>)
      = (msg, w3\<lparr>w_rand := r\<rparr>)" by (simp only:)
  obtain x w4 where s: "sendMessage L (req_to req) (mf_from ?f) msg cfg w3 = (x, w4)"
    by (cases "sendMessage L (req_to req) (mf_from ?f) msg cfg w3")
  note s' = sendMessage_rand [OF s, of r]
  have "snd (SmtpSend L cfg ?req w) = w4"
    using b s by (cases x)
      (simp_all add: SmtpSend_def uuid_new_def NewGroupHandle_def rand_bytes_def Let_def)
  moreover have "snd (SmtpSend L cfg ?req (w\<lparr>w_rand := r\<rparr>)) = w4\<lparr>w_rand := r\<rparr>"
    using b' s' by (cases x)
      (simp_all add: SmtpSend_def uuid_new_def NewGroupHandle_def rand_bytes_def Let_def)
  ultimately show "w_sent (snd (SmtpSend L cfg ?req (w\<lparr>w_rand := r\<rparr>))) = w_sent (snd (SmtpSend L cfg ?req w))"
    by simp
  show "w_sent (snd (SmtpSend L cfg (req\<lparr>req_group_id := g\<rparr>) w))
       = w_sent (snd (SmtpSend L cfg (req\<lparr>req_group_id := g'\<rparr>) w))"
    using assms(2,3) by (simp add: SmtpSend_def send_fields_def Let_def case_prod_beta split: option.split)
qed

section \<open>Examples\<close>

definition ex_request :: SendEmailRequest where
  "ex_request = \<lparr>req_to = ''a@b.org'', req_subject = ''s'', req_html = ''<p/>'', req_text = ''t'',
     req_from = [], req_from_display_name = [], req_reply_to = [], req_group_id = []\<rparr>"

definition ex_policy :: AddressPolicy where
  "ex_policy = \<lparr>AllowedFromDomains = [], AllowedReplyToDomains = [], AllowedRecipientDomains = [''b.org'']\<rparr>"

definition ex_config :: SmtpConfig where
  "ex_config = \<lparr>Host = ''localhost'', Port = 587, FromAddress = ''no-reply@b.org'', FromDisplayName = [],
     Username = [], Password = [], ConfigurationSet = []\<rparr>"

text \<open>The text of the request; the members that are empty are left out.\<close>

definition send_text :: string where
  "send_text = json_print (JObj [(''to'', json_string ''a@b.org''), (''subject'', json_string ''s''),
     (''html'', json_string ''<p/>''), (''text'', json_string ''t'')])"

lemma send_names_safe:
  "list_all html_safe ''to''" "list_all html_safe ''subject''" "list_all html_safe ''html''"
  "list_all html_safe ''text''"
  by (simp_all add: html_safe_def byte_eval)

lemma send_text_read: "unmarshal_send L send_text = Some ex_request"
proof -
  have "json_ok maxNestingDepth (JObj [(''to'', json_string ''a@b.org''), (''subject'', json_string ''s''),
     (''html'', json_string ''<p/>''), (''text'', json_string ''t'')])"
    by (simp add: maxNestingDepth_def send_names_safe [THEN raw_text_safe])
  from json_parse_print [OF this] show ?thesis
    using dec_members_Cons [OF send_names_safe(1), where fs = request_fields]
      dec_members_Cons [OF send_names_safe(2), where fs = request_fields]
      dec_members_Cons [OF send_names_safe(3), where fs = request_fields]
      dec_members_Cons [OF send_names_safe(4), where fs = request_fields]
    by (simp add: unmarshal_send_def unmarshal_def send_text_def request_fields_def fld_def zero_request_def
        ex_request_def valid_utf8_ascii byte_eval del: dec_members.simps(2))
qed

lemma ex_domain: "strictAddressDomain example_lib ''a@b.org'' = Inr ''b.org''"
proof -
  have "plain_mailbox ''a@b.org'' ''a'' ''b.org''"
    by (simp add: plain_mailbox_def dot_atom_def is_atext_def is_vchar_def mail_specials_def ascii_def byte_eval)
  moreover have "ascii_lower ''b.org'' = ''b.org''"
    by (simp add: ascii_lower_def lower_byte_def is_upper_byte_def byte_eval chr_eval)
  ultimately show ?thesis unfolding strictAddressDomain_iff example_lib_address by metis
qed

lemma ex_accepted: "accepted example_lib ex_policy send_text ex_request"
proof -
  have "CheckAddressLength example_lib ''a@b.org'' = None" "CheckAddressLength example_lib [] = None"
    by (simp_all add: CheckAddressLength_def send_text_read MaxAddressFieldLength_def MaxAddressLength_def
        MaxAddressLocalPartLength_def)
  moreover have "fst (IsRecipientAllowed example_lib ex_policy ''a@b.org'')"
    by (simp add: IsRecipientAllowed_def ex_domain ex_policy_def matches_base_def)
  ultimately show ?thesis
    by (simp add: accepted_def send_text_read ex_request_def oversizedFieldReason_def MaxSubjectLength_def
        MaxFromDisplayNameLength_def)
qed

lemma uuids_empty: "uuids_ok empty_world"
  using uuid0 by (simp add: uuids_ok_def empty_world_def uuid0_def)

definition ex_sent :: world where
  "ex_sent = SendHandleData (bucket_store example_lib) example_lib (SmtpSend example_lib ex_config) ex_policy send_text empty_world"

theorem mail_only_as_permitted_witness:
  "\<exists>d ms. w_replies ex_sent = [d] \<and> w_sent ex_sent = ms \<and> length ms \<le> 1
     \<and> (\<forall>m \<in> set ms. mail_rcpt m = ''a@b.org'')"
  using mail_only_as_permitted [OF ex_sent_def [symmetric] revisions_empty uuids_empty]
  by (auto simp: send_text_read ex_request_def empty_world_def)

theorem send_writes_initial_record_witness:
  "\<exists>ws emailID. w_writes ex_sent = ws \<and> (ws \<noteq> [] \<longrightarrow> isValidUUID emailID)
     \<and> (\<forall>(b, k, old, v) \<in> set ws. b = Recipients \<longrightarrow> k = emailID)"
  using send_writes_initial_record [OF ex_sent_def [symmetric] revisions_empty uuids_empty clock_ok_empty]
  by (fastforce simp: empty_world_def sent_entry_def)


theorem mail_independent_of_handle_witness:
  "w_sent (snd (SmtpSend example_lib ex_config (ex_request\<lparr>req_group_id := []\<rparr>) (empty_world\<lparr>w_rand := \<lambda>i. if i < 16 then 0 else of_nat i\<rparr>)))
   = w_sent (snd (SmtpSend example_lib ex_config (ex_request\<lparr>req_group_id := []\<rparr>) empty_world))"
proof -
  have "\<forall>i. i < w_draws empty_world \<or> w_draws empty_world + 16 \<le> i \<longrightarrow>
      (if i < 16 then 0 else of_nat i) = w_rand empty_world i"
    by (simp add: empty_world_def)
  from mail_independent_of_handle [OF this, of "''g''" "''h''"] show ?thesis by simp
qed

end
