(* ===== verification/Config.thy ===== *)
theory Config
  imports SendService
begin

text \<open>
  \<open>cmd/email-service/config.go\<close>: the configuration read from the environment variables. The
  environment of the process is a map; \<open>os.LookupEnv\<close> is the map itself.
\<close>

section \<open>The configuration\<close>

type_synonym osenv = "string \<Rightarrow> string option"

definition Getenv :: "osenv \<Rightarrow> string \<Rightarrow> string" where
  "Getenv env k = (case env k of None \<Rightarrow> [] | Some v \<Rightarrow> v)"

record smtpConfig =
  cfg_Host :: string
  cfg_Port :: int64
  cfg_From :: string
  cfg_FromDisplayName :: string
  cfg_AllowedFromDomains :: "string list"
  cfg_AllowedReplyToDomains :: "string list"
  cfg_AllowedRecipientDomains :: "string list"
  cfg_Username :: string
  cfg_Password :: string

record environment =
  env_NatsURL :: string
  env_Port :: string
  env_EmailEnabled :: bool
  env_SESEventingEnabled :: bool
  env_SMTP :: smtpConfig
  env_SESConfigurationSet :: string
  env_SESEngagementSQSURL :: string

definition or_default :: "string \<Rightarrow> string \<Rightarrow> string" where
  "or_default v d = (if v = [] then d else v)"

definition flag :: "string \<Rightarrow> bool" where
  "flag v \<longleftrightarrow> v = ''true'' \<or> v = ''t'' \<or> v = ''1''"

definition smtp_port :: "osenv \<Rightarrow> int64" where
  "smtp_port env =
     (let raw = Getenv env ''SMTP_PORT''
      in if raw \<noteq> [] then (case atoi raw of Some p \<Rightarrow> p | None \<Rightarrow> 587) else 587)"

definition smtp_from :: "osenv \<Rightarrow> string" where
  "smtp_from env =
     or_default (or_default (Getenv env ''DEFAULT_SMTP_FROM'') (Getenv env ''SMTP_FROM''))
       ''noreply@lfx.linuxfoundation.org''"

text \<open>The loop over a comma-separated list of domains, the same for the three variables.\<close>

fun domain_loop :: "unicode \<Rightarrow> string list \<Rightarrow> string list" where
  "domain_loop U [] = []"
| "domain_loop U (d # ds) =
     (let d = to_lower U (trim_space d)
      in if d \<noteq> [] then d # domain_loop U ds else domain_loop U ds)"

definition allowed_domains :: "unicode \<Rightarrow> string \<Rightarrow> string list" where
  "allowed_domains U raw = domain_loop U (split_on CHR '','' raw)"

text \<open>\<open>os.LookupEnv\<close> tells an unset variable, which takes the default, from an empty one.\<close>

definition lookup_default :: "osenv \<Rightarrow> string \<Rightarrow> string \<Rightarrow> string" where
  "lookup_default env k d = (case env k of None \<Rightarrow> d | Some v \<Rightarrow> v)"

definition parseEnv :: "unicode \<Rightarrow> osenv \<Rightarrow> environment" where
  "parseEnv U env =
     \<lparr>env_NatsURL = or_default (Getenv env ''NATS_URL'') ''nats://localhost:4222'',
      env_Port = or_default (Getenv env ''PORT'') ''8080'',
      env_EmailEnabled = flag (Getenv env ''EMAIL_ENABLED''),
      env_SESEventingEnabled = flag (Getenv env ''SES_EVENTING_ENABLED''),
      env_SMTP =
        \<lparr>cfg_Host = or_default (Getenv env ''SMTP_HOST'') ''localhost'',
         cfg_Port = smtp_port env,
         cfg_From = smtp_from env,
         cfg_FromDisplayName = or_default (Getenv env ''DEFAULT_SMTP_FROM_DISPLAY_NAME'') ''LFX Self Serve'',
         cfg_AllowedFromDomains =
           allowed_domains U (lookup_default env ''SMTP_ALLOWED_FROM_DOMAINS'' ''lfx.linuxfoundation.org''),
         cfg_AllowedReplyToDomains =
           allowed_domains U (lookup_default env ''SMTP_ALLOWED_REPLY_TO_DOMAINS'' ''linuxfoundation.org''),
         cfg_AllowedRecipientDomains =
           allowed_domains U (Getenv env ''SMTP_ALLOWED_RECIPIENT_DOMAINS''),
         cfg_Username = Getenv env ''SMTP_USERNAME'',
         cfg_Password = Getenv env ''SMTP_PASSWORD''\<rparr>,
      env_SESConfigurationSet = Getenv env ''SES_CONFIGURATION_SET'',
      env_SESEngagementSQSURL = Getenv env ''SES_ENGAGEMENT_SQS_QUEUE_URL''\<rparr>"

section \<open>Lists of domains\<close>

text \<open>White space of an ASCII string is trimmed byte by byte, and lower-casing keeps it apart.\<close>

lemma rune_segs_ascii: "ascii s \<Longrightarrow> rune_segs s = map (\<lambda>c. (byte c, [c])) s"
  by (induction s) (simp_all add: rune_segs_not_Nil)

lemma trim_space_bytes:
  assumes "ascii s"
  shows "trim_space s = rev (dropWhile (is_space \<circ> byte) (rev (dropWhile (is_space \<circ> byte) s)))"
proof -
  have m: "dropWhile (is_space \<circ> fst) (map (\<lambda>c. (byte c, [c])) xs) = map (\<lambda>c. (byte c, [c])) (dropWhile (is_space \<circ> byte) xs)"
    for xs by (simp add: dropWhile_map comp_def)
  have c: "concat (map snd (map (\<lambda>c. (byte c, [c])) xs)) = xs" for xs by (induction xs) simp_all
  show ?thesis
    unfolding trim_space_def rune_segs_ascii [OF assms] m rev_map c by (simp add: rev_map m c)
qed

lemma trim_space_ends:
  assumes "ascii s" and "trim_space s \<noteq> []"
  shows "\<not> is_space (byte (hd (trim_space s)))" and "\<not> is_space (byte (last (trim_space s)))"
proof -
  let ?t = "dropWhile (is_space \<circ> byte) s" and ?p = "is_space \<circ> byte"
  note t = trim_space_bytes [OF assms(1)]
  with assms(2) have n: "dropWhile ?p (rev ?t) \<noteq> []" by auto
  from hd_dropWhile [OF this] show "\<not> is_space (byte (last (trim_space s)))" by (simp add: t last_rev)
  from n have "?t \<noteq> []" by (metis dropWhile.simps(1) rev.simps(1))
  then have h: "\<not> ?p (hd ?t)" by (rule hd_dropWhile)
  obtain ys where "?t = rev (dropWhile ?p (rev ?t)) @ ys"
    using takeWhile_dropWhile_id [of ?p "rev ?t"] by (metis rev_append rev_rev_ident)
  with n have "hd ?t = hd (trim_space s)" unfolding t by (metis hd_append2 rev_is_Nil_conv)
  with h show "\<not> is_space (byte (hd (trim_space s)))" by simp
qed

lemma trim_space_set: "ascii s \<Longrightarrow> set (trim_space s) \<subseteq> set s"
  unfolding trim_space_bytes set_rev by (blast dest: set_dropWhileD [THEN set_rev [THEN equalityD1, THEN subsetD]] set_dropWhileD)

lemma ascii_trim_space: "ascii s \<Longrightarrow> ascii (trim_space s)"
  using trim_space_set [of s] by (auto simp: ascii_def list_all_iff)

lemma is_space_lower: "byte c < 0x80 \<Longrightarrow> is_space (byte (chr (lower_byte (byte c)))) = is_space (byte c)"
  by (auto simp: is_space_def lower_byte_def is_upper_byte_def)

lemma trim_space_no_space:
  assumes "ascii s" and "s \<noteq> [] \<Longrightarrow> \<not> is_space (byte (hd s))" and "s \<noteq> [] \<Longrightarrow> \<not> is_space (byte (last s))"
  shows "trim_space s = s"
  using assms trim_space_id [of s] by (cases "s = []") (simp_all add: runes_ascii hd_map last_map)

text \<open>One entry of a list: the domain as the policy compares it.\<close>

definition plain_domain :: "string \<Rightarrow> bool" where
  "plain_domain d \<longleftrightarrow> d \<noteq> [] \<and> ascii d \<and> ascii_lower d = d
     \<and> \<not> is_space (byte (hd d)) \<and> \<not> is_space (byte (last d))"

lemma trim_lower_plain:
  assumes "ascii s" and "to_lower U (trim_space s) \<noteq> []"
  shows "plain_domain (to_lower U (trim_space s))"
proof -
  note a = ascii_trim_space [OF assms(1)]
  have n: "trim_space s \<noteq> []" using assms(2) by auto
  have "byte (hd (trim_space s)) < 0x80" "byte (last (trim_space s)) < 0x80"
    using a n by (simp_all add: ascii_def list_all_iff)
  then show ?thesis
    using a n trim_space_ends [OF assms(1) n] is_space_lower
    by (simp add: plain_domain_def to_lower_ascii) (simp add: ascii_lower_def hd_map last_map)
qed

lemma plain_domain_normal: "plain_domain d \<Longrightarrow> to_lower U (trim_space d) = d"
  by (simp add: plain_domain_def trim_space_no_space to_lower_ascii)

lemma domain_loop_eq: "domain_loop U ds = filter (\<lambda>d. d \<noteq> []) (map (\<lambda>d. to_lower U (trim_space d)) ds)"
  by (induction ds) (auto simp: Let_def)

lemma domain_loop_normalize: "domain_loop U ds = normalizeDomains U ds"
  by (simp add: domain_loop_eq normalizeDomains_eq)

lemma ascii_split_on: "ascii s \<Longrightarrow> list_all ascii (split_on c s)"
  by (induction s) (auto split: list.splits)

lemma allowed_domains_plain:
  assumes "ascii raw"
  shows "list_all plain_domain (allowed_domains U raw)"
  using ascii_split_on [OF assms, of "CHR '',''"] trim_lower_plain
  by (auto simp: allowed_domains_def domain_loop_eq list_all_iff)

lemma normalizeDomains_plain: "list_all plain_domain ds \<Longrightarrow> normalizeDomains U ds = ds"
  by (induction ds) (auto simp: plain_domain_normal Let_def plain_domain_def [THEN iffD1])

lemma split_join_on: "ds \<noteq> [] \<Longrightarrow> list_all (\<lambda>d. c \<notin> set d) ds \<Longrightarrow> split_on c (join_on c ds) = ds"
proof (induction ds rule: join_on.induct)
  case (3 c p q ps)
  then show ?case using split_on_append_sep [of c p "join_on c (q # ps)"] by (simp add: split_on_no_sep)
qed (simp_all add: split_on_no_sep)

lemma allowed_domains_join:
  assumes "list_all plain_domain ds" and "list_all (\<lambda>d. CHR '','' \<notin> set d) ds"
  shows "allowed_domains U (join_on CHR '','' ds) = ds"
proof (cases "ds = []")
  case True
  then show ?thesis by (simp add: allowed_domains_def)
next
  case False
  then show ?thesis
    using assms by (simp add: allowed_domains_def split_join_on domain_loop_normalize normalizeDomains_plain)
qed

text \<open>
  C33: settings written as the documentation says are read back: the decimal text of a port is that
  port, and domains joined by commas are that list of domains.
\<close>

theorem config_roundtrip:
  assumes "list_all plain_domain (fs @ rs @ ts)" and "list_all (\<lambda>d. CHR '','' \<notin> set d) (fs @ rs @ ts)"
    and "c = env_SMTP (parseEnv U (env(''SMTP_PORT'' \<mapsto> int_str (sint p),
               ''SMTP_ALLOWED_FROM_DOMAINS'' \<mapsto> join_on CHR '','' fs,
               ''SMTP_ALLOWED_REPLY_TO_DOMAINS'' \<mapsto> join_on CHR '','' rs,
               ''SMTP_ALLOWED_RECIPIENT_DOMAINS'' \<mapsto> join_on CHR '','' ts)))"
  shows "cfg_Port c = p \<and> cfg_AllowedFromDomains c = fs \<and> cfg_AllowedReplyToDomains c = rs
     \<and> cfg_AllowedRecipientDomains c = ts"
proof -
  have "int_str (sint p) \<noteq> []" using length_int_str_pos [of "sint p"] by simp
  then show ?thesis
    using assms
    by (simp add: parseEnv_def smtp_port_def Getenv_def lookup_default_def atoi_int_str allowed_domains_join)
qed

theorem config_roundtrip_witness:
  "cfg_AllowedRecipientDomains (env_SMTP (parseEnv (lib_unicode example_lib)
     ((\<lambda>_. None)(''SMTP_PORT'' \<mapsto> int_str (sint (25 :: int64)), ''SMTP_ALLOWED_FROM_DOMAINS'' \<mapsto> join_on CHR '','' [],
        ''SMTP_ALLOWED_REPLY_TO_DOMAINS'' \<mapsto> join_on CHR '','' [],
        ''SMTP_ALLOWED_RECIPIENT_DOMAINS'' \<mapsto> join_on CHR '','' [''a.b'', ''c'']))))
   = [''a.b'', ''c'']"
proof -
  have "list_all plain_domain ([] @ [] @ [''a.b'', ''c''])"
    by (simp add: plain_domain_def ascii_lower_def lower_byte_def is_upper_byte_def is_space_def byte_eval chr_eval)
  from config_roundtrip [OF this _ refl, of "lib_unicode example_lib" "\<lambda>_. None" 25] show ?thesis
    by (simp del: fun_upd_apply join_on.simps)
qed

end
