(* ===== verification/GroupExample.thy ===== *)
theory GroupExample
  imports EngagementEvent KvUndisturbed
begin

text \<open>
  A group with one e-mail in an undisturbed pair of buckets, the input of the examples of the two
  query handlers.
\<close>

definition ex_handle :: string where
  "ex_handle = ''grp_00000000000000000000000000000000''"

lemma ex_handle: "IsGroupHandle ex_handle"
  by (simp add: ex_handle_def IsGroupHandle_def is_hex_lower_def is_digit_def byte_eval)

definition ex_member :: rcpt where
  "ex_member = ex_record\<lparr>GroupID := ex_handle, Delivered := True, Opened := True, OpenCount := 3\<rparr>"

lemma ex_member_ok: "times_ok ex_member" "no_history ex_member"
  using ex_record_ok
  by (simp_all add: ex_member_def times_ok_def record_times_def no_history_def)

lemma ex_handle_utf8: "valid_utf8 ex_handle"
  by (simp add: ex_handle_def valid_utf8_ascii byte_eval)

lemma ex_member_read: "unmarshal_record L (json_print (record_json ex_member)) = Some ex_member"
proof (rule unmarshal_record_valid)
  show "list_all time_exact (record_times ex_member)" using ex_member_ok(1) by (simp add: times_ok_def)
  show "list_all valid_utf8 (record_strings ex_member)"
    by (simp add: ex_member_def ex_record_def zero_record_def record_strings_def ex_handle_utf8 valid_utf8_ascii
        isValidUUID_ascii uuid0 byte_eval)
qed

lemma ex_index_read: "unmarshal_ids L (marshal_ids [uuid0]) = Some [uuid0]"
  by (rule unmarshal_ids_valid) (simp add: valid_utf8_ascii isValidUUID_ascii uuid0)

text \<open>The two buckets and the texts of the two requests.\<close>

definition group_world :: world where
  "group_world = put_entry Recipients uuid0 (json_print (record_json ex_member))
     (put_entry GroupIndex ex_handle (marshal_ids [uuid0]) empty_world)"

definition status_text :: string where
  "status_text = json_print (JObj [(''group_id'', json_string ex_handle), (''limit'', json_int 10)])"

definition analytics_text :: string where
  "analytics_text = json_print (JObj [(''group_id'', json_string ex_handle)])"

lemma group_id_safe: "list_all html_safe ''group_id''" "list_all html_safe ''limit''"
  by (simp_all add: html_safe_def byte_eval)

lemma status_text_read:
  "unmarshal_status L status_text = Some \<lparr>st_email_id = [], st_group_id = ex_handle, st_offset = 0, st_limit = 10\<rparr>"
proof -
  have "json_ok maxNestingDepth (JObj [(''group_id'', json_string ex_handle), (''limit'', json_int 10)])"
    by (simp add: maxNestingDepth_def group_id_safe [THEN raw_text_safe])
  from json_parse_print [OF this] show ?thesis
    using dec_members_Cons [OF group_id_safe(1), where fs = status_fields]
      dec_members_Cons [OF group_id_safe(2), where fs = status_fields]
    by (simp add: unmarshal_status_def unmarshal_def status_text_def status_fields_def fld_def
        zero_status_request_def ex_handle_utf8 del: dec_members.simps(2))
qed

lemma analytics_text_read: "unmarshal_analytics L analytics_text = Some ex_handle"
proof -
  have "json_ok maxNestingDepth (JObj [(''group_id'', json_string ex_handle)])"
    by (simp add: maxNestingDepth_def group_id_safe [THEN raw_text_safe])
  from json_parse_print [OF this] show ?thesis
    using dec_members_Cons [OF group_id_safe(1), where fs = analytics_fields]
    by (simp add: unmarshal_analytics_def unmarshal_def analytics_text_def analytics_fields_def
        ex_handle_utf8 del: dec_members.simps(2))
qed

lemma group_world_simps:
  "w_moves group_world = []" "w_ctx group_world = []" "w_replies group_world = []"
  "w_kv group_world GroupIndex ex_handle = Some \<lparr>ent_value = marshal_ids [uuid0], ent_revision = 1\<rparr>"
  "map_option ent_value (w_kv group_world Recipients uuid0) = Some (json_print (record_json ex_member))"
  by (simp_all add: group_world_def empty_world_def put_entry_def)

lemma group_example_members: "group_members example_lib (w_kv group_world Recipients) ex_handle [uuid0] = [ex_member]"
proof -
  obtain en where "w_kv group_world Recipients uuid0 = Some en" "ent_value en = json_print (record_json ex_member)"
    using group_world_simps(5) by auto
  then show ?thesis by (simp add: group_member_def uuid0 ex_member_read) (simp add: ex_member_def)
qed

lemma ex_member_size: "record_size ex_member \<le> 2000"
proof -
  have s: "GroupID ex_member = ex_handle" "EmailID ex_member = uuid0" "To ex_member = ''a@b.org''"
    "Subject ex_member = []" "SentAt ex_member = ex_time"
    by (simp_all add: ex_member_def ex_record_def zero_record_def)
  have "json_len (json_time ex_time) \<le> 37"
    using ex_time_good by (intro json_len_time_le) (simp_all add: time_exact_def)
  then have "head_size ex_member \<le> 1200"
    using json_len_string_le [of ex_handle] json_len_string_le [of uuid0] json_len_string_le [of "''a@b.org''"]
      json_len_string_le [of "[]"] IsGroupHandle_len [OF ex_handle] isValidUUID_len [OF uuid0]
    by (simp add: head_size_def s)
  then show ?thesis
    using scalars_size_bounds(2) [OF ex_member_ok(1)] ex_member_ok(2)
    by (simp add: record_size_parts no_history_def lists_size_def list_member_def)
qed

end
