(* ===== verification/StatusHandler.thy ===== *)
theory StatusHandler
  imports GroupExample SendHandler
begin

text \<open>
  \<open>internal/service/get_email_status_handler.go\<close>: the status of one e-mail or of a page of a
  group, disclosed to a holder of the group handle only. The reply for a page is built record by
  record while the store is scanned, and abandoned as soon as it would not fit.
\<close>

section \<open>The handler\<close>

definition defaultMaxPayload :: int64 where
  "defaultMaxPayload = 1048576"

definition WithMaxPayload :: "int64 \<Rightarrow> int64 \<Rightarrow> int64" where
  "WithMaxPayload n current = (if 0 < sint n then n else current)"

definition handleByEmailID :: "('a, 'c) TrackingStore \<Rightarrow> string \<Rightarrow> string \<Rightarrow> world \<Rightarrow> world" where
  "handleByEmailID T emailID groupID w =
     (case GetRecord T emailID w of
        (Inl e, w) \<Rightarrow> replyError (if errors_is e ErrNotFound then ''not found'' else ''internal error'') w
      | (Inr r, w) \<Rightarrow>
          if GroupID r \<noteq> groupID then replyError ''not found'' w
          else (case marshal_record r of None \<Rightarrow> replyError ''internal error'' w | Some b \<Rightarrow> respond b w))"

text \<open>The variables captured by the callback of the scan.\<close>

record page =
  pg_buf :: string
  pg_too_large :: bool
  pg_marshal_err :: bool

definition page_start :: page where
  "page_start = \<lparr>pg_buf = ''['', pg_too_large = False, pg_marshal_err = False\<rparr>"

definition page_fn :: "int64 \<Rightarrow> page scan_fn" where
  "page_fn maxPayload r pg =
     (case marshal_record r of
        None \<Rightarrow> (False, pg\<lparr>pg_marshal_err := True\<rparr>)
      | Some b \<Rightarrow>
          let sep = (if 1 < length (pg_buf pg) then 1 else 0) in
          if sint maxPayload < int (length (pg_buf pg) + sep + length b + 1)
          then (False, pg\<lparr>pg_too_large := True\<rparr>)
          else (True, pg\<lparr>pg_buf := pg_buf pg @ (if sep = 1 then '','' else []) @ b\<rparr>))"

text \<open>The error cases that the two handlers answer alike.\<close>

definition scan_error_reply :: "goerr \<Rightarrow> string" where
  "scan_error_reply e =
     (if errors_is e ErrNotFound then ''not found''
      else if errors_is e DeadlineExceeded then ''timeout''
      else if errors_is e Canceled then ''internal error''
      else ''internal error'')"

definition handleByGroupID ::
    "(page, 'c) TrackingStore \<Rightarrow> int64 \<Rightarrow> string \<Rightarrow> int64 \<Rightarrow> int64 \<Rightarrow> world \<Rightarrow> world" where
  "handleByGroupID T maxPayload groupID offset limit w =
     (case ScanGroupRecords T groupID offset limit (page_fn maxPayload) page_start w of
        ((_, Some e), _, w) \<Rightarrow> replyError (scan_error_reply e) w
      | ((_, None), pg, w) \<Rightarrow>
          if pg_marshal_err pg then replyError ''internal error'' w
          else if pg_too_large pg then replyError ''response too large'' w
          else respond (pg_buf pg @ '']'') w)"

definition StatusHandleData ::
    "(page, 'c) TrackingStore \<Rightarrow> golib \<Rightarrow> int64 \<Rightarrow> string \<Rightarrow> world \<Rightarrow> world" where
  "StatusHandleData T L maxPayload data w =
     (case unmarshal_status L data of
        None \<Rightarrow> replyError ''invalid request payload'' w
      | Some req \<Rightarrow>
        if st_group_id req = [] then replyError ''group_id is required'' w
        else if \<not> isValidGroupID (st_group_id req) then replyError ''invalid group_id'' w
        else if st_email_id req \<noteq> []
        then
          (if \<not> isValidUUID (st_email_id req) then replyError ''invalid email_id'' w
           else handleByEmailID T (to_lower (lib_unicode L) (st_email_id req)) (st_group_id req) w)
        else if sint (st_offset req) < 0 then replyError ''invalid offset'' w
        else if sint (st_limit req) < 0 \<or> int MaxGroupStatusLimit < sint (st_limit req)
        then replyError ''invalid limit'' w
        else
          (let limit = (if sint (st_limit req) = 0 then int64 (int DefaultGroupStatusLimit) else st_limit req)
           in handleByGroupID T maxPayload (st_group_id req) (st_offset req) limit w))"

section \<open>The page builder\<close>

text \<open>The page after a list of records: what \<open>json.Marshal\<close> makes of the slice, without its end.\<close>

lemma commas_snoc: "commas (xs @ [y]) = (if xs = [] then y else commas xs @ CHR '','' # y)"
  by (induction xs rule: commas.induct) auto

definition page_text :: "rcpt list \<Rightarrow> string" where
  "page_text rs = CHR ''['' # commas (map (json_print \<circ> record_json) rs)"

lemma page_text_array: "page_text rs @ '']'' = json_print (JArr (map record_json rs))"
  by (simp add: page_text_def)

lemma json_print_record_long: "1 \<le> length (json_print (record_json r))"
  by (simp add: record_json_def)

lemma page_text_long: "1 < length (page_text rs) \<longleftrightarrow> rs \<noteq> []"
proof (cases rs)
  case (Cons r rs')
  then show ?thesis using json_print_record_long [of r]
    by (cases rs') (simp_all add: page_text_def Suc_le_eq)
qed (simp add: page_text_def)

lemma page_text_snoc:
  "page_text (rs @ [r]) = page_text rs @ (if rs = [] then [] else '','') @ json_print (record_json r)"
  by (simp add: page_text_def commas_snoc)

definition page_of :: "int64 \<Rightarrow> rcpt list \<Rightarrow> page \<Rightarrow> bool" where
  "page_of maxPayload rs pg \<longleftrightarrow>
     pg = page_start\<lparr>pg_buf := page_text rs\<rparr> \<and> list_all encodable rs
     \<and> (rs = [] \<or> int (length (page_text rs @ '']'')) \<le> sint maxPayload)"

lemma page_fn_step:
  assumes "page_of maxPayload rs pg"
  shows "page_fn maxPayload r pg =
     (if \<not> encodable r then (False, pg\<lparr>pg_marshal_err := True\<rparr>)
      else if sint maxPayload < int (length (page_text (rs @ [r]) @ '']''))
      then (False, pg\<lparr>pg_too_large := True\<rparr>)
      else (True, page_start\<lparr>pg_buf := page_text (rs @ [r])\<rparr>))"
  using assms page_text_long [of rs]
  by (auto simp: page_of_def page_fn_def marshal_record_def page_text_snoc Let_def page_start_def)

lemma page_fn_of:
  "page_of maxPayload rs pg \<Longrightarrow> page_fn maxPayload r pg = (True, pg') \<Longrightarrow> page_of maxPayload (rs @ [r]) pg'"
  using page_fn_step [of maxPayload rs pg r]
  by (auto simp: page_of_def not_less split: if_splits)

text \<open>The feed either stops with a flag set or has taken every record.\<close>

lemma feed_page:
  "page_of maxPayload rs pg \<Longrightarrow> feed (page_fn maxPayload) qs pg = (b, pg') \<Longrightarrow>
     (if b then page_of maxPayload (rs @ qs) pg' else pg_too_large pg' \<or> pg_marshal_err pg')"
proof (induction qs arbitrary: rs pg)
  case (Cons r qs)
  obtain c pg1 where c: "page_fn maxPayload r pg = (c, pg1)" by (cases "page_fn maxPayload r pg")
  show ?case
  proof (cases c)
    case True
    with Cons.prems c have "feed (page_fn maxPayload) qs pg1 = (b, pg')" by simp
    with Cons.IH [OF page_fn_of [OF Cons.prems(1)]] c True show ?thesis by fastforce
  next
    case False
    with Cons.prems c have "pg' = pg1" "\<not> b" by simp_all
    with c False show ?thesis using page_fn_step [OF Cons.prems(1), of r] by (auto split: if_splits)
  qed
qed simp

lemma page_start_of: "page_of maxPayload [] page_start"
  by (simp add: page_of_def page_start_def page_text_def)

text \<open>The page of a scan that set no flag is the array of the records the scan delivered.\<close>

lemma scanned_page:
  assumes "pg = snd (feed (page_fn maxPayload) rs page_start)" and "\<not> pg_marshal_err pg" and "\<not> pg_too_large pg"
  shows "pg_buf pg @ '']'' = json_print (JArr (map record_json rs)) \<and> list_all encodable rs
     \<and> (rs = [] \<or> int (length (json_print (JArr (map record_json rs)))) \<le> sint maxPayload)"
proof -
  obtain b where f: "feed (page_fn maxPayload) rs page_start = (b, pg)"
    using assms(1) by (metis prod.collapse)
  with feed_page [OF page_start_of f] assms(2,3) have "page_of maxPayload rs pg" by (auto split: if_splits)
  then show ?thesis using page_text_array [of rs] by (auto simp: page_of_def)
qed

section \<open>The handler on any store\<close>

text \<open>One reply and nothing else: no write, no mail, no event.\<close>

definition answers :: "world \<Rightarrow> string \<Rightarrow> world \<Rightarrow> bool" where
  "answers w d w' \<longleftrightarrow> w_replies w' = w_replies w @ [d] \<and> w_writes w' = w_writes w \<and> w_sent w' = w_sent w
     \<and> w_published w' = w_published w"

lemma answers_respond: "runs K no_write w w1 \<Longrightarrow> answers w d (respond d w1)"
  using runs_replies [of K no_write w w1] runs_no_write_writes [of K w w1] by (simp add: answers_def)

lemma answers_error: "runs K no_write w w1 \<Longrightarrow> \<exists>reason. answers w (marshal_error_response reason) (replyError reason' w1)"
  unfolding replyError_def by (blast intro: answers_respond)

locale page_store = tracking_store T L K
  for T :: "(page, 'c) TrackingStore" and L and K
begin

lemma handleByEmailID_reply:
  assumes "handleByEmailID T e g w = w'"
  shows "(\<exists>reason. answers w (marshal_error_response reason) w')
     \<or> (\<exists>r w1 d. GetRecord T e w = (Inr r, w1) \<and> GroupID r = g \<and> marshal_record r = Some d \<and> answers w d w')"
proof -
  obtain x w1 where x: "GetRecord T e w = (x, w1)" by (cases "GetRecord T e w")
  note r = get_runs [OF x]
  show ?thesis
  proof (cases "\<exists>r d. x = Inr r \<and> GroupID r = g \<and> marshal_record r = Some d")
    case True
    then show ?thesis using assms x answers_respond [OF r] by (auto simp: handleByEmailID_def)
  next
    case False
    then obtain reason where "w' = replyError reason w1"
      using assms x by (auto simp: handleByEmailID_def split: sum.splits option.splits if_splits)
    then show ?thesis using answers_error [OF r] by blast
  qed
qed

lemma handleByGroupID_reply:
  assumes "handleByGroupID T m g offset limit w = w'"
  shows "(\<exists>reason. answers w (marshal_error_response reason) w')
     \<or> (\<exists>n pg w1. ScanGroupRecords T g offset limit (page_fn m) page_start w = ((n, None), pg, w1)
          \<and> \<not> pg_marshal_err pg \<and> \<not> pg_too_large pg \<and> answers w (pg_buf pg @ '']'') w')"
proof -
  obtain n e pg w1 where x: "ScanGroupRecords T g offset limit (page_fn m) page_start w = ((n, e), pg, w1)"
    by (metis prod.exhaust)
  note r = scan_runs [OF x]
  show ?thesis
  proof (cases "e = None \<and> \<not> pg_marshal_err pg \<and> \<not> pg_too_large pg")
    case True
    then have "w' = respond (pg_buf pg @ '']'') w1" using assms x by (simp add: handleByGroupID_def)
    then show ?thesis using True x answers_respond [OF r] by blast
  next
    case False
    then obtain reason where "w' = replyError reason w1"
      using assms x by (auto simp: handleByGroupID_def split: option.splits if_splits)
    then show ?thesis using answers_error [OF r] by blast
  qed
qed

lemma StatusHandleData_reply:
  assumes "StatusHandleData T L m data w = w'"
  obtains (error) reason where "answers w (marshal_error_response reason) w'"
  | (single) req r w1 d where "unmarshal_status L data = Some req" "IsGroupHandle (st_group_id req)"
      "isValidUUID (st_email_id req)" "GetRecord T (ascii_lower (st_email_id req)) w = (Inr r, w1)"
      "GroupID r = st_group_id req" "marshal_record r = Some d" "answers w d w'"
  | (group) req limit n pg w1 where "unmarshal_status L data = Some req" "IsGroupHandle (st_group_id req)"
      "st_email_id req = []" "0 \<le> sint (st_offset req)" "0 < sint limit" "sint limit \<le> int MaxGroupStatusLimit"
      "sint (st_limit req) = 0 \<or> limit = st_limit req"
      "ScanGroupRecords T (st_group_id req) (st_offset req) limit (page_fn m) page_start w = ((n, None), pg, w1)"
      "\<not> pg_marshal_err pg" "\<not> pg_too_large pg" "answers w (pg_buf pg @ '']'') w'"
proof -
  have err: thesis if "replyError reason w = w'" for reason
    using answers_error [OF runs_refl, of w reason] that error by blast
  show thesis
  proof (cases "unmarshal_status L data")
    case None
    then show thesis using assms by (intro err) (simp add: StatusHandleData_def)
  next
    case (Some req)
    show thesis
    proof (cases "st_group_id req = [] \<or> \<not> isValidGroupID (st_group_id req)
        \<or> (if st_email_id req = [] then sint (st_offset req) < 0 \<or> sint (st_limit req) < 0
             \<or> int MaxGroupStatusLimit < sint (st_limit req) else \<not> isValidUUID (st_email_id req))")
      case True
      then obtain reason where "replyError reason w = w'"
        using assms Some by (auto simp: StatusHandleData_def split: if_splits)
      then show thesis by (rule err)
    next
      case ok: False
      show thesis
      proof (cases "st_email_id req = []")
        case True
        let ?limit = "if sint (st_limit req) = 0 then int64 (int DefaultGroupStatusLimit) else st_limit req"
        have l: "0 < sint ?limit" "sint ?limit \<le> int MaxGroupStatusLimit"
          using ok True by (auto simp: DefaultGroupStatusLimit_def MaxGroupStatusLimit_def sint_int64_small)
        have "handleByGroupID T m (st_group_id req) (st_offset req) ?limit w = w'"
          using assms Some ok True by (simp add: StatusHandleData_def Let_def)
        from handleByGroupID_reply [OF this] show thesis
          using error group [of req ?limit] Some ok True l by (auto simp: isValidGroupID_def split: if_splits)
      next
        case False
        then have u: "isValidUUID (st_email_id req)" using ok by simp
        have "handleByEmailID T (ascii_lower (st_email_id req)) (st_group_id req) w = w'"
          using assms Some ok False to_lower_ascii [OF isValidUUID_ascii [OF u]] by (simp add: StatusHandleData_def)
        from handleByEmailID_reply [OF this] show thesis
          using error single [of req] Some ok u by (auto simp: isValidGroupID_def)
      qed
    qed
  qed
qed

end

interpretation kv_pages: page_store "kv_Store L" L key_ok for L
  by (rule page_store.intro) (rule kv.tracking_store_axioms)

interpretation null_pages: page_store NullTrackingStore L K for L K
  by (rule page_store.intro) (rule null.tracking_store_axioms)

section \<open>What a status request discloses\<close>

abbreviation page_bucket_store :: "golib \<Rightarrow> (page, unit) TrackingStore" where
  "page_bucket_store L \<equiv> kv_Store L"

text \<open>
  C24: a status request is answered exactly once and changes nothing. The answer is an error, or the
  request carries a well-formed group handle and the answer is the record of the e-mail asked for,
  which was sent under that handle, or the JSON array of records read from the buckets under
  identifiers of at most 1000 entries of that group's index, all of them sent under that handle, and
  within the payload limit of the connection.
\<close>

theorem status_discloses_only_group:
  assumes "StatusHandleData (page_bucket_store L) L maxPayload data w = w'"
  shows "\<exists>d. w_replies w' = w_replies w @ [d] \<and> w_writes w' = w_writes w \<and> w_sent w' = w_sent w
     \<and> w_published w' = w_published w
     \<and> ((\<exists>reason. d = marshal_error_response reason)
        \<or> (\<exists>req. unmarshal_status L data = Some req \<and> IsGroupHandle (st_group_id req)
             \<and> (if st_email_id req \<noteq> []
                then \<exists>r. served L (st_group_id req) w (ascii_lower (st_email_id req)) r \<and> marshal_record r = Some d
                else \<exists>ps. d = json_print (JArr (map (record_json \<circ> snd) ps))
                  \<and> (\<forall>(i, r) \<in> set ps. served L (st_group_id req) w i r)
                  \<and> (ps = [] \<or> int (length d) \<le> sint maxPayload)
                  \<and> (ps = [] \<or> (\<exists>w1 en ids. later w w1 \<and> w_kv w1 GroupIndex (st_group_id req) = Some en
                        \<and> unmarshal_ids L (ent_value en) = Some ids
                        \<and> subseq (map fst ps) (take 1000 (drop (nat (sint (st_offset req))) ids)))))))"
  using assms
proof (cases rule: kv_pages.StatusHandleData_reply)
  case (error reason)
  then show ?thesis by (auto simp: answers_def)
next
  case (single req r w1 d)
  have "kv_GetRecord L (ascii_lower (st_email_id req)) w = (Inr r, w1)"
    using single(4) by (simp add: kv_Store_def)
  from kv_GetRecord_served [OF this isValidUUID_lower [OF single(3)]] single show ?thesis
    unfolding answers_def by (intro exI [of _ d]) auto
next
  case (group req limit n pg w1)
  have sc: "kv_ScanGroupRecords L (st_group_id req) (st_offset req) limit (page_fn maxPayload) page_start w
      = ((n, None), pg, w1)"
    using group(8) by (simp add: kv_Store_def)
  obtain ps where ps: "pg = snd (feed (page_fn maxPayload) (map snd ps) page_start)"
    "\<forall>(i, r) \<in> set ps. served L (st_group_id req) w i r"
    and ids: "ps = [] \<or> (\<exists>w1 en ids. later w w1 \<and> w_kv w1 GroupIndex (st_group_id req) = Some en
         \<and> unmarshal_ids L (ent_value en) = Some ids
         \<and> subseq (map fst ps) (take (nat (min (sint limit) 10000)) (drop (nat (sint (st_offset req))) ids)))"
    using scan_delivered [OF sc] by blast
  have page: "pg_buf pg @ '']'' = json_print (JArr (map (record_json \<circ> snd) ps))
      \<and> (ps = [] \<or> int (length (json_print (JArr (map (record_json \<circ> snd) ps)))) \<le> sint maxPayload)"
    using scanned_page [OF ps(1) group(9,10)] by simp
  have "nat (min (sint limit) 10000) \<le> 1000" using group(6) by (simp add: MaxGroupStatusLimit_def)
  then have sub: "subseq xs (take (nat (min (sint limit) 10000)) ys) \<Longrightarrow> subseq xs (take 1000 ys)" for xs ys :: "string list"
    using subseq_take [of xs "nat (min (sint limit) 10000)" "take 1000 ys"] by (simp add: min_absorb1)
  let ?d = "pg_buf pg @ '']''"
  have "?d = json_print (JArr (map (record_json \<circ> snd) ps))
                  \<and> (\<forall>(i, r) \<in> set ps. served L (st_group_id req) w i r)
                  \<and> (ps = [] \<or> int (length ?d) \<le> sint maxPayload)
                  \<and> (ps = [] \<or> (\<exists>w1 en ids. later w w1 \<and> w_kv w1 GroupIndex (st_group_id req) = Some en
                        \<and> unmarshal_ids L (ent_value en) = Some ids
                        \<and> subseq (map fst ps) (take 1000 (drop (nat (sint (st_offset req))) ids))))"
    using page ps(2) ids sub by (simp only:) blast
  then show ?thesis using group(1-3,11) unfolding answers_def by (intro exI [of _ ?d]) auto
qed

section \<open>An undisturbed status request\<close>

lemma page_complete:
  assumes "list_all encodable rs" and "rs = [] \<or> int (length (json_print (JArr (map record_json rs)))) \<le> sint maxPayload"
  shows "snd (feed (page_fn maxPayload) rs page_start) = page_start\<lparr>pg_buf := page_text rs\<rparr>"
proof -
  have le: "length (page_text xs) \<le> length (page_text (xs @ ys))" for xs ys
    by (induction ys arbitrary: xs) (simp, metis append.assoc append_Cons append_Nil le_add1 le_trans length_append page_text_snoc)
  have "feed (page_fn maxPayload) qs pg = (True, page_start\<lparr>pg_buf := page_text (xs @ qs)\<rparr>)"
    if "page_of maxPayload xs pg" "rs = xs @ qs" for xs qs pg
    using that
  proof (induction qs arbitrary: xs pg)
    case (Cons r qs)
    have "int (length (page_text rs @ '']'')) \<le> sint maxPayload"
      using assms(2) Cons.prems(2) unfolding page_text_array by blast
    then have "int (length (page_text (xs @ [r]) @ '']'')) \<le> sint maxPayload"
      using Cons.prems(2) le [of "xs @ [r]" qs] by simp
    moreover have "encodable r" using assms(1) Cons.prems(2) by simp
    ultimately have "page_fn maxPayload r pg = (True, page_start\<lparr>pg_buf := page_text (xs @ [r])\<rparr>)"
      using page_fn_step [OF Cons.prems(1), of r] by simp
    with Cons.IH [OF page_fn_of [OF Cons.prems(1) this]] Cons.prems(2) show ?case by simp
  qed (simp add: page_of_def)
  from this [OF page_start_of] show ?thesis by simp
qed

text \<open>
  C25: in an undisturbed store the answer to a request for a page is the JSON array of the stored
  records of that part of the index, in its order, whenever it fits the connection.
\<close>

theorem status_page_undisturbed:
  assumes "unmarshal_status L data = Some req" and "IsGroupHandle (st_group_id req)" and "st_email_id req = []"
    and "0 \<le> sint (st_offset req)" and "0 < sint (st_limit req)" and "sint (st_limit req) \<le> 1000"
    and "w_moves w = []" and "w_ctx w = []"
    and "w_kv w GroupIndex (st_group_id req) = Some en" and "unmarshal_ids L (ent_value en) = Some ids"
    and "length ids < 2 ^ 62"
    and "rs = group_members L (w_kv w Recipients) (st_group_id req)
               (take (nat (sint (st_limit req))) (drop (nat (sint (st_offset req))) ids))"
    and "list_all encodable rs" and "int (length (json_print (JArr (map record_json rs)))) \<le> sint maxPayload"
  shows "w_replies (StatusHandleData (page_bucket_store L) L maxPayload data w)
     = w_replies w @ [json_print (JArr (map record_json rs))]"
proof -
  have lim: "min (sint (st_limit req)) 10000 = sint (st_limit req)" using assms(6) by simp
  obtain cs where "kv_ScanGroupRecords L (st_group_id req) (st_offset req) (st_limit req) (page_fn maxPayload) page_start w
      = ((length ids, None), snd (feed (page_fn maxPayload) rs page_start), called cs w)"
    using kv_ScanGroupRecords_quiet [OF assms(7,8) checkKey_handle [OF assms(2)] assms(4,5,9,10,11),
      of "page_fn maxPayload" page_start] unfolding lim assms(12) by blast
  moreover have "snd (feed (page_fn maxPayload) rs page_start) = page_start\<lparr>pg_buf := page_text rs\<rparr>"
    using assms(13,14) by (intro page_complete) simp_all
  moreover have "st_group_id req \<noteq> []" using IsGroupHandle_len [OF assms(2)] by auto
  ultimately have "StatusHandleData (page_bucket_store L) L maxPayload data w
      = respond (page_text rs @ '']'') (called cs w)"
    using assms(1-6)
    by (simp add: StatusHandleData_def isValidGroupID_def MaxGroupStatusLimit_def Let_def handleByGroupID_def
        kv_Store_def page_start_def del: sint_int64_small)
  then show ?thesis by (simp only: page_text_array respond_simps called_simps)
qed

section \<open>Examples\<close>

definition ex_status :: GetEmailStatusRequest where
  "ex_status = \<lparr>st_email_id = [], st_group_id = ex_handle, st_offset = 0, st_limit = 10\<rparr>"

lemma ex_status_decoded: "unmarshal_status L status_text = Some ex_status"
  by (simp add: ex_status_def status_text_read)

lemma ex_page_size: "int (length (json_print (JArr (map record_json [ex_member])))) \<le> sint defaultMaxPayload"
  using ex_member_size by (simp add: record_size_def defaultMaxPayload_def sint_int64_small)

theorem status_page_undisturbed_witness:
  "w_replies (StatusHandleData (page_bucket_store example_lib) example_lib defaultMaxPayload status_text group_world)
     = [json_print (JArr [record_json ex_member])]"
proof -
  have rs: "[ex_member] = group_members example_lib (w_kv group_world Recipients) (st_group_id ex_status)
      (take (nat (sint (st_limit ex_status))) (drop (nat (sint (st_offset ex_status))) [uuid0]))"
    by (simp add: ex_status_def group_example_members del: group_members.simps)
  have index: "unmarshal_ids example_lib (ent_value \<lparr>ent_value = marshal_ids [uuid0], ent_revision = 1\<rparr>) = Some [uuid0]"
    by (simp add: ex_index_read)
  have e: "list_all encodable [ex_member]" using times_ok_encodable [OF ex_member_ok(1)] by simp
  show ?thesis
    using status_page_undisturbed [OF ex_status_decoded _ _ _ _ _ group_world_simps(1,2) _ index _ rs e ex_page_size]
    by (simp add: ex_status_def ex_handle group_world_simps)
qed

theorem status_discloses_only_group_witness:
  "\<exists>d (ps :: (string \<times> rcpt) list). w_replies (StatusHandleData (page_bucket_store example_lib) example_lib defaultMaxPayload status_text group_world) = [d]
     \<and> (d = json_print (JArr (map (record_json \<circ> snd) ps)) \<and> (\<forall>(i, r) \<in> set ps. GroupID r = ex_handle)
        \<or> (\<exists>reason. d = marshal_error_response reason))"
  using status_discloses_only_group [OF refl, of example_lib defaultMaxPayload status_text group_world]
proof (elim exE conjE disjE)
  fix d reason
  assume "w_replies (StatusHandleData (page_bucket_store example_lib) example_lib defaultMaxPayload status_text group_world)
      = w_replies group_world @ [d]" "d = marshal_error_response reason"
  then show ?thesis by (intro exI [of _ d]) (auto simp: group_world_simps)
next
  fix d req
  assume d: "w_replies (StatusHandleData (page_bucket_store example_lib) example_lib defaultMaxPayload status_text group_world)
      = w_replies group_world @ [d]" and req: "unmarshal_status example_lib status_text = Some req"
    and "if st_email_id req \<noteq> []
      then \<exists>r. served example_lib (st_group_id req) group_world (ascii_lower (st_email_id req)) r \<and> marshal_record r = Some d
      else \<exists>ps. d = json_print (JArr (map (record_json \<circ> snd) ps))
        \<and> (\<forall>(i, r) \<in> set ps. served example_lib (st_group_id req) group_world i r)
        \<and> (ps = [] \<or> int (length d) \<le> sint defaultMaxPayload)
        \<and> (ps = [] \<or> (\<exists>w1 en ids. later group_world w1 \<and> w_kv w1 GroupIndex (st_group_id req) = Some en
              \<and> unmarshal_ids example_lib (ent_value en) = Some ids
              \<and> subseq (map fst ps) (take 1000 (drop (nat (sint (st_offset req))) ids))))"
  moreover have "st_email_id req = []" "st_group_id req = ex_handle"
    using req by (auto simp: ex_status_decoded ex_status_def)
  ultimately obtain ps where "d = json_print (JArr (map (record_json \<circ> snd) ps))"
    "\<forall>(i, r) \<in> set ps. served example_lib ex_handle group_world i r" by auto
  with d show ?thesis
    by (intro exI [of _ d] exI [of _ ps]) (auto simp: served_def group_world_simps simp del: json_print.simps)
qed

end
