(* ===== verification/AnalyticsHandler.thy ===== *)
theory AnalyticsHandler
  imports StatusHandler
begin

text \<open>
  \<open>internal/service/get_email_engagement_analytics_handler.go\<close>: the totals of a group, summed up
  while the store is scanned.
\<close>

section \<open>The handler\<close>

definition analytics_fn :: "GetEmailEngagementAnalyticsResponse scan_fn" where
  "analytics_fn r resp =
     (let resp = (if Delivered r then resp\<lparr>an_delivered := an_delivered resp + 1\<rparr> else resp);
          resp = resp\<lparr>an_opened := an_opened resp + OpenCount r\<rparr>;
          resp = (if Opened r then resp\<lparr>an_unique_opened := an_unique_opened resp + 1\<rparr> else resp);
          resp = (if Failed r then resp\<lparr>an_failed := an_failed resp + 1\<rparr> else resp)
      in (True, resp))"

definition analytics_start :: "string \<Rightarrow> GetEmailEngagementAnalyticsResponse" where
  "analytics_start groupID = \<lparr>an_group_id = groupID, an_total_sent = 0, an_delivered = 0, an_opened = 0,
     an_unique_opened = 0, an_failed = 0\<rparr>"

definition AnalyticsHandleData ::
    "(GetEmailEngagementAnalyticsResponse, 'c) TrackingStore \<Rightarrow> golib \<Rightarrow> string \<Rightarrow> world \<Rightarrow> world" where
  "AnalyticsHandleData T L data w =
     (case unmarshal_analytics L data of
        None \<Rightarrow> replyError ''invalid request payload'' w
      | Some groupID \<Rightarrow>
        if groupID = [] then replyError ''group_id is required'' w
        else if \<not> isValidGroupID groupID then replyError ''invalid group_id'' w
        else
          (case ScanGroupRecords T groupID 0 (int64 (int MaxGroupEmails)) analytics_fn (analytics_start groupID) w of
             ((totalIDs, Some e), resp, w) \<Rightarrow> replyError (scan_error_reply e) w
           | ((totalIDs, None), resp, w) \<Rightarrow>
               respond (marshal_analytics (resp\<lparr>an_total_sent := int64 (int totalIDs)\<rparr>)) w))"

section \<open>The totals\<close>

text \<open>The specification: counts and a sum over the records, at the width of the counters.\<close>

definition totals :: "string \<Rightarrow> nat \<Rightarrow> rcpt list \<Rightarrow> GetEmailEngagementAnalyticsResponse" where
  "totals groupID sent_count rs = \<lparr>an_group_id = groupID, an_total_sent = of_nat sent_count,
     an_delivered = of_nat (length (filter Delivered rs)), an_opened = sum_list (map OpenCount rs),
     an_unique_opened = of_nat (length (filter Opened rs)), an_failed = of_nat (length (filter Failed rs))\<rparr>"

lemma analytics_step:
  "analytics_fn r (totals g 0 rs) = (True, totals g 0 (rs @ [r]))"
  by (simp add: analytics_fn_def totals_def Let_def add.commute)

lemma feed_totals: "feed analytics_fn qs (totals g 0 rs) = (True, totals g 0 (rs @ qs))"
proof (induction qs arbitrary: rs)
  case (Cons q qs)
  then show ?case by (simp add: analytics_step)
qed simp

lemma totals_start: "analytics_start g = totals g 0 []"
  by (simp add: analytics_start_def totals_def)

lemma totals_fed: "snd (feed analytics_fn rs (analytics_start g))\<lparr>an_total_sent := int64 (int n)\<rparr> = totals g n rs"
  unfolding totals_start feed_totals by (simp add: totals_def)

section \<open>The handler on any store\<close>

locale analytics_store = tracking_store T L K
  for T :: "(GetEmailEngagementAnalyticsResponse, 'c) TrackingStore" and L and K
begin

lemma AnalyticsHandleData_reply:
  assumes "AnalyticsHandleData T L data w = w'"
  shows "(\<exists>reason. answers w (marshal_error_response reason) w')
     \<or> (\<exists>g n resp w1. unmarshal_analytics L data = Some g \<and> IsGroupHandle g
          \<and> ScanGroupRecords T g 0 (int64 (int MaxGroupEmails)) analytics_fn (analytics_start g) w = ((n, None), resp, w1)
          \<and> answers w (marshal_analytics (resp\<lparr>an_total_sent := int64 (int n)\<rparr>)) w')"
proof -
  have err: ?thesis if "replyError reason w = w'" for reason
    using answers_error [OF runs_refl, of w reason] that by blast
  show ?thesis
  proof (cases "\<exists>g. unmarshal_analytics L data = Some g \<and> g \<noteq> [] \<and> isValidGroupID g")
    case False
    then obtain reason where "replyError reason w = w'"
      using assms by (auto simp: AnalyticsHandleData_def split: option.splits if_splits)
    then show ?thesis by (rule err)
  next
    case True
    then obtain g where g: "unmarshal_analytics L data = Some g" "g \<noteq> []" "isValidGroupID g" by blast
    obtain n e resp w1 where x: "ScanGroupRecords T g 0 (int64 (int MaxGroupEmails)) analytics_fn (analytics_start g) w
        = ((n, e), resp, w1)" by (metis prod.exhaust)
    note r = scan_runs [OF x]
    show ?thesis
    proof (cases e)
      case None
      then have "w' = respond (marshal_analytics (resp\<lparr>an_total_sent := int64 (int n)\<rparr>)) w1"
        using assms g x by (simp add: AnalyticsHandleData_def)
      then show ?thesis using answers_respond [OF r] g x None by (auto simp: isValidGroupID_def)
    next
      case (Some er)
      then have "w' = replyError (scan_error_reply er) w1" using assms g x by (simp add: AnalyticsHandleData_def)
      then show ?thesis using answers_error [OF r] by blast
    qed
  qed
qed

end

interpretation kv_totals: analytics_store "kv_Store L" L key_ok for L
  by (rule analytics_store.intro) (rule kv.tracking_store_axioms)

interpretation null_totals: analytics_store NullTrackingStore L K for L K
  by (rule analytics_store.intro) (rule null.tracking_store_axioms)

section \<open>What the totals count\<close>

abbreviation totals_bucket_store :: "golib \<Rightarrow> (GetEmailEngagementAnalyticsResponse, unit) TrackingStore" where
  "totals_bucket_store L \<equiv> kv_Store L"


text \<open>
  C27: in an undisturbed store the answer counts the length of the group's index and, over the stored
  records of its first 10000 entries, the deliveries, the opens, the opened and the failed e-mails.
\<close>

theorem analytics_undisturbed:
  assumes "unmarshal_analytics L data = Some g" and "IsGroupHandle g" and "w_moves w = []" and "w_ctx w = []"
    and "w_kv w GroupIndex g = Some en" and "unmarshal_ids L (ent_value en) = Some ids" and "length ids < 2 ^ 62"
  shows "w_replies (AnalyticsHandleData (totals_bucket_store L) L data w)
     = w_replies w @ [marshal_analytics (totals g (length ids)
         (group_members L (w_kv w Recipients) g (take 10000 ids)))]"
proof -
  have lim: "sint (word_of_nat MaxGroupEmails :: int64) = 10000" by (simp add: MaxGroupEmails_def)
  obtain cs where k: "kv_ScanGroupRecords L g 0 (int64 (int MaxGroupEmails)) analytics_fn (analytics_start g) w
      = ((length ids, None), snd (feed analytics_fn (group_members L (w_kv w Recipients) g (take 10000 ids))
           (analytics_start g)), called cs w)"
    using kv_ScanGroupRecords_quiet [OF assms(3,4) checkKey_handle [OF assms(2)] _ _ assms(5-7), of 0
      "int64 (int MaxGroupEmails)" analytics_fn "analytics_start g"] by (auto simp: lim)
  have "g \<noteq> []" using IsGroupHandle_len [OF assms(2)] by auto
  then have "AnalyticsHandleData (totals_bucket_store L) L data w
      = respond (marshal_analytics (totals g (length ids) (group_members L (w_kv w Recipients) g (take 10000 ids))))
          (called cs w)"
    using assms(1,2) k totals_fed [where g = g and n = "length ids"]
    by (simp add: AnalyticsHandleData_def isValidGroupID_def kv_Store_def)
  then show ?thesis by simp
qed

theorem analytics_undisturbed_witness:
  "w_replies (AnalyticsHandleData (totals_bucket_store example_lib) example_lib analytics_text group_world)
     = [marshal_analytics \<lparr>an_group_id = ex_handle, an_total_sent = 1, an_delivered = 1, an_opened = 3,
          an_unique_opened = 1, an_failed = 0\<rparr>]"
proof -
  have "totals ex_handle 1 [ex_member] = \<lparr>an_group_id = ex_handle, an_total_sent = 1, an_delivered = 1,
      an_opened = 3, an_unique_opened = 1, an_failed = 0\<rparr>"
    by (simp add: totals_def ex_member_def ex_record_def zero_record_def)
  then show ?thesis
    using analytics_undisturbed [OF analytics_text_read ex_handle group_world_simps(1,2,4), of example_lib "[uuid0]"]
      group_example_members
    by (simp add: group_world_simps ex_index_read del: group_members.simps)
qed


end
