(* ===== verification/Poller.thy ===== *)
theory Poller
  imports EngagementHandler
begin

text \<open>
  \<open>internal/infrastructure/sqs/poller.go\<close>: the loop that receives messages from the queue, hands
  them to a handler and deletes those it has handled. SQS and the context are the environment,
  given as what happens in each iteration; the trace records what the loop did.
\<close>

section \<open>The loop\<close>

record sqs_message =
  msg_id :: string
  msg_receipt :: string
  msg_body :: "string option"

type_synonym sqs_handler = "sqs_message \<Rightarrow> world \<Rightarrow> goerr option \<times> world"

text \<open>
  One iteration: whether the context is done at its start, what \<open>ReceiveMessage\<close> returns, whether
  \<open>ctx.Err\<close> is set after an error, and whether the context ends before the backoff does. When the
  list of iterations ends the context is done.
\<close>

record poll_input =
  pi_done :: bool
  pi_receive :: "goerr + sqs_message list"
  pi_ctx_err :: bool
  pi_done_waiting :: bool

datatype poll_event =
    Received                                  \<comment> \<open>a receive that succeeded\<close>
  | ReceiveFailed
  | Slept int64                               \<comment> \<open>a backoff that elapsed, in nanoseconds\<close>
  | Handled sqs_message "goerr option"        \<comment> \<open>the handler ran and returned this\<close>
  | DeleteRequested string                    \<comment> \<open>\<open>DeleteMessage\<close>; its failure is only logged\<close>

fun process_messages ::
    "sqs_handler \<Rightarrow> sqs_message list \<Rightarrow> world \<Rightarrow> poll_event list \<times> world" where
  "process_messages h [] w = ([], w)"
| "process_messages h (m # ms) w =
     (case h m w of
        (Some e, w) \<Rightarrow> (case process_messages h ms w of (evs, w) \<Rightarrow> (Handled m (Some e) # evs, w))
      | (None, w) \<Rightarrow> (case process_messages h ms w of (evs, w) \<Rightarrow>
          (Handled m None # DeleteRequested (msg_receipt m) # evs, w)))"

definition second :: int64 where
  "second = 1000000000"

definition poll_backoff :: "int64 \<Rightarrow> int64" where
  "poll_backoff consecutiveErrors =
     (let backoff = consecutiveErrors * second in
      if sint (30 * second) < sint backoff then 30 * second else backoff)"

fun poll_loop ::
    "int64 \<Rightarrow> sqs_handler \<Rightarrow> int64 \<Rightarrow> poll_input list \<Rightarrow> world \<Rightarrow> goerr option \<times> poll_event list \<times> world" where
  "poll_loop maxErrors h errs [] w = (None, [], w)"
| "poll_loop maxErrors h errs (i # is) w =
     (if pi_done i then (None, [], w)
      else
        (case pi_receive i of
           Inl e \<Rightarrow>
             if pi_ctx_err i then (None, [ReceiveFailed], w)
             else
               (let errs = errs + 1 in
                if sint maxErrors \<le> sint errs
                then (Some (ErrText ''sqs poller aborting after consecutive errors'' # e), [ReceiveFailed], w)
                else if pi_done_waiting i then (None, [ReceiveFailed], w)
                else (case poll_loop maxErrors h errs is w of (r, evs, w) \<Rightarrow>
                  (r, ReceiveFailed # Slept (poll_backoff errs) # evs, w)))
         | Inr msgs \<Rightarrow>
             (case process_messages h msgs w of (evs, w) \<Rightarrow>
               (case poll_loop maxErrors h 0 is w of (r, evs', w) \<Rightarrow> (r, Received # evs @ evs', w)))))"

definition Run :: "int64 \<Rightarrow> sqs_handler \<Rightarrow> poll_input list \<Rightarrow> world \<Rightarrow> goerr option \<times> poll_event list \<times> world" where
  "Run maxErrors h inputs w = poll_loop maxErrors h 0 inputs w"

section \<open>Deletion\<close>

text \<open>
  The traces of a loop that deletes a message exactly when it has been handled without an error:
  the reference for the whole run.
\<close>

inductive deletes_handled :: "poll_event list \<Rightarrow> bool" where
  dh_nil: "deletes_handled []"
| dh_receive: "deletes_handled evs \<Longrightarrow> deletes_handled (Received # evs)"
| dh_failed: "deletes_handled evs \<Longrightarrow> deletes_handled (ReceiveFailed # evs)"
| dh_slept: "deletes_handled evs \<Longrightarrow> deletes_handled (Slept d # evs)"
| dh_error: "deletes_handled evs \<Longrightarrow> deletes_handled (Handled m (Some e) # evs)"
| dh_handled: "deletes_handled evs \<Longrightarrow> deletes_handled (Handled m None # DeleteRequested (msg_receipt m) # evs)"

inductive_cases deletes_DeleteE: "deletes_handled (DeleteRequested r # evs)"

lemma deletes_append: "deletes_handled xs \<Longrightarrow> deletes_handled ys \<Longrightarrow> deletes_handled (xs @ ys)"
  by (induction rule: deletes_handled.induct) (auto intro: deletes_handled.intros)

lemma process_deletes: "process_messages h ms w = (evs, w') \<Longrightarrow> deletes_handled evs"
  by (induction h ms w arbitrary: evs w' rule: process_messages.induct)
    (auto intro: deletes_handled.intros split: prod.splits option.splits)

lemma poll_loop_deletes: "poll_loop mx h n is w = (r, evs, w') \<Longrightarrow> deletes_handled evs"
proof (induction mx h n "is" w arbitrary: r evs w' rule: poll_loop.induct)
  case (2 mx h n i "is" w)
  then show ?case
    by (auto simp: Let_def intro!: deletes_handled.intros deletes_append [OF process_deletes]
        split: if_splits sum.splits prod.splits)
qed (simp add: dh_nil)

text \<open>What a trace of this kind means, event by event.\<close>

lemma deletes_handled_before:
  "deletes_handled evs \<Longrightarrow> evs = xs @ DeleteRequested r # ys \<Longrightarrow>
     \<exists>xs' m. xs = xs' @ [Handled m None] \<and> msg_receipt m = r"
  by (induction arbitrary: xs rule: deletes_handled.induct) (fastforce simp: Cons_eq_append_conv)+

lemma deletes_handled_after:
  "deletes_handled evs \<Longrightarrow> evs = xs @ Handled m None # ys \<Longrightarrow>
     \<exists>ys'. ys = DeleteRequested (msg_receipt m) # ys'"
  by (induction arbitrary: xs rule: deletes_handled.induct) (fastforce simp: Cons_eq_append_conv)+

text \<open>The messages handled are the messages received, each once and in order.\<close>

fun handled :: "poll_event list \<Rightarrow> sqs_message list" where
  "handled [] = []"
| "handled (Handled m r # evs) = m # handled evs"
| "handled (_ # evs) = handled evs"

lemma handled_append [simp]: "handled (xs @ ys) = handled xs @ handled ys"
  by (induction xs rule: handled.induct) simp_all

lemma process_handled: "process_messages h ms w = (evs, w') \<Longrightarrow> handled evs = ms"
  by (induction h ms w arbitrary: evs w' rule: process_messages.induct) (auto split: prod.splits option.splits)

fun received :: "poll_input list \<Rightarrow> sqs_message list" where
  "received [] = []"
| "received (i # is) = (case pi_receive i of Inl e \<Rightarrow> [] | Inr ms \<Rightarrow> ms) @ received is"

text \<open>The iterations the loop goes through.\<close>

lemma poll_loop_handled: "poll_loop mx h n is w = (r, evs, w') \<Longrightarrow> \<exists>k. handled evs = received (take k is)"
proof (induction mx h n "is" w arbitrary: r evs w' rule: poll_loop.induct)
  case (2 mx h n i "is" w)
  have stop: ?case if "handled evs = []" using that by (intro exI [of _ 0]) simp
  have step: ?case if "handled evs = (case pi_receive i of Inl e \<Rightarrow> [] | Inr ms \<Rightarrow> ms) @ received (take k is)" for k
    using that by (intro exI [of _ "Suc k"]) simp
  show ?case
  proof (cases "pi_receive i")
    case (Inl e)
    show ?thesis
    proof (cases "pi_done i \<or> pi_ctx_err i \<or> sint mx \<le> sint (n + 1) \<or> pi_done_waiting i")
      case True
      then show ?thesis using "2.prems" Inl by (intro stop) (auto simp: Let_def split: if_splits)
    next
      case False
      then obtain r' evs1 w1 where p: "poll_loop mx h (n + 1) is w = (r', evs1, w1)" by (metis prod_cases3)
      with False Inl "2.prems" have e: "evs = ReceiveFailed # Slept (poll_backoff (n + 1)) # evs1"
        by (simp add: Let_def)
      from "2.IH"(1) [OF _ Inl _ refl _ _ p] False obtain k where "handled evs1 = received (take k is)" by auto
      with e Inl show ?thesis by (intro step) simp
    qed
  next
    case (Inr ms)
    show ?thesis
    proof (cases "pi_done i")
      case True
      then show ?thesis using "2.prems" by (intro stop) simp
    next
      case False
      obtain evs0 w0 where q: "process_messages h ms w = (evs0, w0)" by (cases "process_messages h ms w")
      obtain r' evs1 w1 where p: "poll_loop mx h 0 is w0 = (r', evs1, w1)" by (metis prod_cases3)
      have e: "evs = Received # evs0 @ evs1" using False Inr q p "2.prems" by simp
      from "2.IH"(2) [OF False Inr q [symmetric] p] obtain k where "handled evs1 = received (take k is)" by blast
      with e Inr process_handled [OF q] show ?thesis by (intro step) simp
    qed
  qed
qed (auto intro: exI [of _ 0])

text \<open>
  C28: a message is deleted exactly when the handler returned no error for it, right after it did;
  all others stay on the queue. The messages handled are those received, each once and in the order
  of their delivery.
\<close>

theorem poller_deletes_handled:
  assumes "Run maxErrors h inputs w = (r, evs, w')"
  shows "(\<forall>xs receipt ys. evs = xs @ DeleteRequested receipt # ys \<longrightarrow>
            (\<exists>xs' m. xs = xs' @ [Handled m None] \<and> msg_receipt m = receipt))
     \<and> (\<forall>xs m ys. evs = xs @ Handled m None # ys \<longrightarrow> (\<exists>ys'. ys = DeleteRequested (msg_receipt m) # ys'))
     \<and> (\<exists>k. handled evs = received (take k inputs))"
proof -
  note l = assms [unfolded Run_def]
  note d = poll_loop_deletes [OF l]
  show ?thesis
    using deletes_handled_before [OF d] deletes_handled_after [OF d] poll_loop_handled [OF l] by simp
qed

section \<open>Giving up\<close>

text \<open>The failed receives since the last one that succeeded.\<close>

definition failures_in_a_row :: "poll_event list \<Rightarrow> nat" where
  "failures_in_a_row evs = length (filter (\<lambda>e. e = ReceiveFailed) (takeWhile (\<lambda>e. e \<noteq> Received) (rev evs)))"

lemma failures_Cons:
  "failures_in_a_row (e # evs) = (if Received \<in> set evs then failures_in_a_row evs
     else failures_in_a_row evs + (if e = ReceiveFailed then 1 else 0))"
proof (cases "Received \<in> set evs")
  case True
  then have "takeWhile (\<lambda>e. e \<noteq> Received) (rev evs @ [e]) = takeWhile (\<lambda>e. e \<noteq> Received) (rev evs)"
    by (intro takeWhile_append1 [of Received]) simp_all
  with True show ?thesis by (simp add: failures_in_a_row_def)
next
  case False
  then have "takeWhile (\<lambda>e. e \<noteq> Received) (rev evs @ [e]) = rev evs @ takeWhile (\<lambda>e. e \<noteq> Received) [e]"
    by (intro takeWhile_append2) auto
  moreover have t: "takeWhile (\<lambda>e. e \<noteq> Received) (rev evs) = rev evs"
    unfolding takeWhile_eq_all_conv using False by auto
  ultimately show ?thesis unfolding failures_in_a_row_def rev.simps t using False by simp
qed

lemma failures_append:
  "Received \<in> set ys \<Longrightarrow> failures_in_a_row (xs @ ys) = failures_in_a_row ys"
  by (induction xs) (simp_all add: failures_Cons)

lemma process_no_receive: "process_messages h ms w = (evs, w') \<Longrightarrow> Received \<notin> set evs \<and> ReceiveFailed \<notin> set evs"
  by (induction h ms w arbitrary: evs w' rule: process_messages.induct) (auto split: prod.splits option.splits)

lemma no_failures: "Received \<notin> set xs \<Longrightarrow> ReceiveFailed \<notin> set xs \<Longrightarrow> failures_in_a_row (xs @ ys) = failures_in_a_row ys"
  by (induction xs) (auto simp: failures_Cons)

lemma sint_errs_step: "0 \<le> sint (n :: int64) \<Longrightarrow> sint n < 2 ^ 62 \<Longrightarrow> sint (n + 1) = sint n + 1"
  by (subst sint_int64_add) simp_all

lemma poll_loop_gives_up:
  "poll_loop mx h n is w = (Some e, evs, w') \<Longrightarrow> 0 \<le> sint n \<Longrightarrow> sint n < max 1 (sint mx) \<Longrightarrow> sint mx < 2 ^ 62 \<Longrightarrow>
     (if Received \<in> set evs then 0 else sint n) + int (failures_in_a_row evs) = max 1 (sint mx)"
proof (induction mx h n "is" w arbitrary: evs w' rule: poll_loop.induct)
  case (2 mx h n i "is" w)
  have go: "\<not> pi_done i" using "2.prems"(1) by auto
  have n1: "sint (n + 1) = sint n + 1" using "2.prems"(2-4) by (intro sint_errs_step) auto
  show ?case
  proof (cases "pi_receive i")
    case (Inl e')
    show ?thesis
    proof (cases "sint mx \<le> sint (n + 1)")
      case True
      then have "evs = [ReceiveFailed]" using "2.prems"(1) Inl go by (auto simp: Let_def split: if_splits)
      then show ?thesis using True "2.prems"(2,3) n1 by (simp add: failures_in_a_row_def)
    next
      case False
      obtain r' evs1 w1 where p: "poll_loop mx h (n + 1) is w = (r', evs1, w1)" by (metis prod_cases3)
      have c: "\<not> pi_ctx_err i" "\<not> pi_done_waiting i" "r' = Some e"
          "evs = ReceiveFailed # Slept (poll_backoff (n + 1)) # evs1"
        using "2.prems"(1) Inl go False p by (auto simp: Let_def split: if_splits)
      have "(if Received \<in> set evs1 then 0 else sint (n + 1)) + int (failures_in_a_row evs1) = max 1 (sint mx)"
        using "2.IH"(1) [OF go Inl c(1) refl False c(2)] p c(3) False n1 "2.prems"(2,4) by simp
      then show ?thesis using c(4) n1 by (simp add: failures_Cons split: if_splits)
    qed
  next
    case (Inr ms)
    obtain evs0 w0 where q: "process_messages h ms w = (evs0, w0)" by (cases "process_messages h ms w")
    obtain r' evs1 w1 where p: "poll_loop mx h 0 is w0 = (r', evs1, w1)" by (metis prod_cases3)
    have c: "r' = Some e" "evs = Received # evs0 @ evs1" using "2.prems"(1) go Inr p q by simp_all
    have "(if Received \<in> set evs1 then 0 else sint (0 :: int64)) + int (failures_in_a_row evs1) = max 1 (sint mx)"
      using "2.IH"(2) [OF go Inr q [symmetric]] p c(1) "2.prems"(4) by simp
    then show ?thesis using c(2) process_no_receive [OF q]
      by (auto simp: failures_Cons no_failures split: if_splits)
  qed
qed simp

text \<open>
  C29: the loop gives up with an error only when exactly the configured number of receives (one, if
  that is not positive) have failed in a row, with no success in between.
\<close>

theorem poller_gives_up_after:
  assumes "Run maxErrors h inputs w = (Some e, evs, w')" and "sint maxErrors < 2 ^ 62"
  shows "int (failures_in_a_row evs) = max 1 (sint maxErrors)"
proof -
  have "0 \<le> sint (0 :: int64)" "sint (0 :: int64) < max 1 (sint maxErrors)" by simp_all
  from poll_loop_gives_up [OF assms(1) [unfolded Run_def] this assms(2)] show ?thesis by (simp split: if_splits)
qed

text \<open>A failing queue: no message and the context still open.\<close>

definition failing_input :: "poll_input \<Rightarrow> bool" where
  "failing_input i \<longleftrightarrow> \<not> pi_done i \<and> (\<exists>e. pi_receive i = Inl e) \<and> \<not> pi_ctx_err i \<and> \<not> pi_done_waiting i"

lemma poll_loop_fails:
  "list_all failing_input is \<Longrightarrow> 0 \<le> sint n \<Longrightarrow> sint n < sint mx \<Longrightarrow> sint mx < 2 ^ 62 \<Longrightarrow>
     sint mx \<le> sint n + int (length is) \<Longrightarrow> \<exists>e evs. poll_loop mx h n is w = (Some e, evs, w)"
proof (induction "is" arbitrary: n)
  case (Cons i "is")
  then obtain e where i: "\<not> pi_done i" "pi_receive i = Inl e" "\<not> pi_ctx_err i" "\<not> pi_done_waiting i"
    by (auto simp: failing_input_def)
  have n1: "sint (n + 1) = sint n + 1" using Cons.prems(2-4) by (intro sint_errs_step) auto
  show ?case
  proof (cases "sint mx \<le> sint (n + 1)")
    case True
    with i show ?thesis by (simp add: Let_def)
  next
    case False
    with Cons.IH [of "n + 1"] Cons.prems n1 obtain e' evs where "poll_loop mx h (n + 1) is w = (Some e', evs, w)"
      by auto
    with i False show ?thesis by (simp add: Let_def)
  qed
qed simp

text \<open>
  C30: on a queue that keeps failing the loop does return, with an error, after the configured number
  of receives at the latest, whatever comes then.
\<close>

theorem poller_returns_on_failure:
  assumes "list_all failing_input (take (nat (sint maxErrors)) inputs)" and "0 < sint maxErrors"
    and "sint maxErrors \<le> int (length inputs)" and "sint maxErrors < 2 ^ 62"
  shows "\<exists>e evs. Run maxErrors h (take (nat (sint maxErrors)) inputs) w = (Some e, evs, w)
     \<and> failures_in_a_row evs = nat (sint maxErrors)"
proof -
  have "\<exists>e evs. poll_loop maxErrors h 0 (take (nat (sint maxErrors)) inputs) w = (Some e, evs, w)"
    using assms by (intro poll_loop_fails) simp_all
  then obtain e evs where r: "poll_loop maxErrors h 0 (take (nat (sint maxErrors)) inputs) w = (Some e, evs, w)" by blast
  have "0 \<le> sint (0 :: int64)" "sint (0 :: int64) < max 1 (sint maxErrors)" by simp_all
  from poll_loop_gives_up [OF r this assms(4)] assms(2) have "int (failures_in_a_row evs) = sint maxErrors"
    by (simp split: if_splits)
  with r show ?thesis unfolding Run_def by auto
qed

section \<open>The backoff\<close>

lemma poll_backoff_linear:
  assumes "0 \<le> sint n" and "sint n \<le> 9 * 10 ^ 9"
  shows "sint (poll_backoff n) = 10 ^ 9 * min 30 (sint n)"
proof -
  have "n * second = int64 (sint n * 1000000000)" by (simp add: second_def)
  moreover have "sint (int64 (sint n * 1000000000)) = sint n * 1000000000"
    by (rule sint_int64_small) (use assms in simp_all)
  ultimately have "sint (n * second) = sint n * 1000000000" by (simp only:)
  moreover have "sint (30 * second) = 30000000000" by (simp add: second_def)
  ultimately show ?thesis by (auto simp: poll_backoff_def Let_def min_def)
qed

lemma split_after:
  "x \<notin> set as \<Longrightarrow> as @ bs = xs @ x # ys \<Longrightarrow> \<exists>zs. xs = as @ zs \<and> bs = zs @ x # ys"
  by (induction as arbitrary: xs) (auto simp: Cons_eq_append_conv)

lemma poll_loop_backoff:
  "poll_loop mx h n is w = (r, evs, w') \<Longrightarrow> 0 \<le> sint n \<Longrightarrow> sint n < max 1 (sint mx) \<Longrightarrow> sint mx \<le> 9 * 10 ^ 9 \<Longrightarrow>
     evs = xs @ Slept d # ys \<Longrightarrow>
     sint d = 10 ^ 9 * min 30 ((if Received \<in> set xs then 0 else sint n) + int (failures_in_a_row xs))"
proof (induction mx h n "is" w arbitrary: r evs w' xs rule: poll_loop.induct)
  case (2 mx h n i "is" w)
  have n1: "sint (n + 1) = sint n + 1" using "2.prems"(2-4) by (intro sint_errs_step) auto
  have go: "\<not> pi_done i" using "2.prems"(1,5) by auto
  show ?case
  proof (cases "pi_receive i")
    case (Inl e')
    obtain r' evs1 w1 where p: "poll_loop mx h (n + 1) is w = (r', evs1, w1)" by (metis prod_cases3)
    have c: "\<not> pi_ctx_err i" "\<not> sint mx \<le> sint (n + 1)" "\<not> pi_done_waiting i"
        "evs = ReceiveFailed # Slept (poll_backoff (n + 1)) # evs1"
      using "2.prems"(1,5) Inl go p by (auto simp: Let_def Cons_eq_append_conv split: if_splits)
    consider "xs = [ReceiveFailed]" "d = poll_backoff (n + 1)"
      | xs1 where "xs = ReceiveFailed # Slept (poll_backoff (n + 1)) # xs1" "evs1 = xs1 @ Slept d # ys"
      using "2.prems"(5) c(4) by (auto simp: Cons_eq_append_conv)
    then show ?thesis
    proof cases
      case 1
      then show ?thesis using poll_backoff_linear [of "n + 1"] n1 c(2) "2.prems"(2,4)
        by (simp add: failures_in_a_row_def)
    next
      case (2 xs1)
      have "sint d = 10 ^ 9 * min 30 ((if Received \<in> set xs1 then 0 else sint (n + 1)) + int (failures_in_a_row xs1))"
        using "2.IH"(1) [OF go Inl c(1) refl c(2,3) p _ _ _ 2(2)] n1 c(2) "2.prems"(2,4) by simp
      then show ?thesis using 2(1) n1 by (simp add: failures_Cons split: if_splits)
    qed
  next
    case (Inr ms)
    obtain evs0 w0 where q: "process_messages h ms w = (evs0, w0)" by (cases "process_messages h ms w")
    obtain r' evs1 w1 where p: "poll_loop mx h 0 is w0 = (r', evs1, w1)" by (metis prod_cases3)
    have c: "evs = Received # evs0 @ evs1" using "2.prems"(1) go Inr p q by simp
    have "Slept d \<notin> set evs0" using q
      by (induction h ms w arbitrary: evs0 w0 rule: process_messages.induct) (auto split: prod.splits option.splits)
    then obtain xs1 where xs: "xs = Received # evs0 @ xs1" "evs1 = xs1 @ Slept d # ys"
      using "2.prems"(5) c split_after [of "Slept d" "Received # evs0" evs1 xs ys] by auto
    have "sint d = 10 ^ 9 * min 30 ((if Received \<in> set xs1 then 0 else sint (0 :: int64)) + int (failures_in_a_row xs1))"
      using "2.IH"(2) [OF go Inr q [symmetric] p _ _ _ xs(2)] "2.prems"(4) by simp
    then show ?thesis using xs(1) process_no_receive [OF q]
      by (auto simp: failures_Cons no_failures split: if_splits)
  qed
qed simp

text \<open>
  Each backoff lasts one second for every failure in a row so far, and thirty seconds at most;
  the computation does not overflow.
\<close>

lemma poller_backoff_linear:
  assumes "Run maxErrors h inputs w = (r, xs @ Slept d # ys, w')" and "sint maxErrors \<le> 9 * 10 ^ 9"
  shows "sint d = 10 ^ 9 * min 30 (int (failures_in_a_row xs))"
proof -
  have "0 \<le> sint (0 :: int64)" "sint (0 :: int64) < max 1 (sint maxErrors)" by simp_all
  from poll_loop_backoff [OF assms(1) [unfolded Run_def] this assms(2) refl] show ?thesis by (simp split: if_splits)
qed

section \<open>The engagement poller\<close>

text \<open>\<open>main.go\<close> runs the poller with the engagement handler and three errors.\<close>

definition engagement_poller ::
    "golib \<Rightarrow> bool \<Rightarrow> poll_input list \<Rightarrow> world \<Rightarrow> goerr option \<times> poll_event list \<times> world" where
  "engagement_poller L publisher inputs w =
     Run 3 (\<lambda>m w. Handle (kv_Store L :: (unit, captured) TrackingStore) L publisher (msg_body m) w) inputs w"

fun result_of :: "sqs_handler \<Rightarrow> poll_event \<Rightarrow> bool" where
  "result_of h (Handled m res) = (\<exists>w. fst (h m w) = res)"
| "result_of h _ = True"

lemma process_result: "process_messages h ms w = (evs, w') \<Longrightarrow> list_all (result_of h) evs"
proof (induction h ms w arbitrary: evs w' rule: process_messages.induct)
  case (2 h m ms w)
  obtain x w1 where x: "h m w = (x, w1)" by (cases "h m w")
  obtain evs1 w2 where p: "process_messages h ms w1 = (evs1, w2)" by (cases "process_messages h ms w1")
  have "result_of h (Handled m x)" using x by (auto intro: exI [of _ w])
  moreover have "list_all (result_of h) evs1" using 2 x p by (cases x) auto
  ultimately show ?case using 2(3) x p by (cases x) auto
qed simp

lemma poll_loop_result: "poll_loop mx h n is w = (r, evs, w') \<Longrightarrow> list_all (result_of h) evs"
proof (induction mx h n "is" w arbitrary: r evs w' rule: poll_loop.induct)
  case (2 mx h n i "is" w)
  then show ?case
    by (auto simp: Let_def process_result split: if_splits sum.splits prod.splits)
qed simp

text \<open>
  C32: a message that is not an event about a tracked e-mail (undecodable, without a valid tracking
  identifier, of an unknown type) never stays on the queue: once received it is deleted, so it cannot
  be redelivered for ever.
\<close>

theorem foreign_messages_deleted:
  assumes "engagement_poller L publisher inputs w = (r, evs, w')"
    and "evs = xs @ Handled m res # ys" and "tracked_event L (msg_body m) = None"
  shows "res = None \<and> (\<exists>ys'. ys = DeleteRequested (msg_receipt m) # ys')"
proof -
  note run = assms(1) [unfolded engagement_poller_def Run_def]
  from poll_loop_result [OF run] assms(2) obtain w1 where
    "fst (Handle (kv_Store L :: (unit, captured) TrackingStore) L publisher (msg_body m) w1) = res" by auto
  then have "res = None" by (simp add: Handle_tracked assms(3))
  with deletes_handled_after [OF poll_loop_deletes [OF run]] assms(2) show ?thesis by blast
qed

section \<open>Examples\<close>

definition ex_message :: sqs_message where
  "ex_message = \<lparr>msg_id = ''1'', msg_receipt = ''r'', msg_body = None\<rparr>"

definition ex_failing :: poll_input where
  "ex_failing = \<lparr>pi_done = False, pi_receive = Inl [ErrText ''net''], pi_ctx_err = False, pi_done_waiting = False\<rparr>"

definition ex_receive :: poll_input where
  "ex_receive = \<lparr>pi_done = False, pi_receive = Inr [ex_message], pi_ctx_err = False, pi_done_waiting = False\<rparr>"

definition ex_handler :: sqs_handler where
  "ex_handler m w = (None, w)"

lemma ex_run_received:
  "Run 3 ex_handler [ex_failing, ex_receive] w =
     (None, [ReceiveFailed, Slept second, Received, Handled ex_message None, DeleteRequested ''r''], w)"
  by (simp add: Run_def ex_failing_def ex_receive_def ex_handler_def ex_message_def poll_backoff_def second_def Let_def)

lemma ex_run_failed:
  "Run 2 ex_handler [ex_failing, ex_failing] w =
     (Some [ErrText ''sqs poller aborting after consecutive errors'', ErrText ''net''],
      [ReceiveFailed, Slept second, ReceiveFailed], w)"
  by (simp add: Run_def ex_failing_def poll_backoff_def second_def Let_def)

theorem poller_deletes_handled_witness:
  "\<exists>xs' m. [ReceiveFailed, Slept second, Received, Handled ex_message None] = xs' @ [Handled m None] \<and> msg_receipt m = ''r''"
  using poller_deletes_handled [OF ex_run_received, THEN conjunct1, THEN spec,
      of "[ReceiveFailed, Slept second, Received, Handled ex_message None]", THEN spec, of "''r''", THEN spec, of "[]"]
  by (simp only: append_Cons append_Nil simp_thms)

theorem poller_gives_up_after_witness: "int (failures_in_a_row [ReceiveFailed, Slept second, ReceiveFailed]) = 2"
  using poller_gives_up_after [OF ex_run_failed] by simp

theorem poller_returns_on_failure_witness:
  "\<exists>e evs. Run 2 ex_handler [ex_failing, ex_failing] empty_world = (Some e, evs, empty_world) \<and> failures_in_a_row evs = 2"
  using poller_returns_on_failure [of 2 "[ex_failing, ex_failing]" ex_handler empty_world]
  by (simp add: failing_input_def ex_failing_def)

theorem foreign_messages_deleted_witness:
  "\<exists>r w' evs res ys. engagement_poller example_lib True [ex_receive] empty_world = (r, evs, w')
     \<and> evs = [Received] @ Handled ex_message res # ys \<and> res = None \<and> (\<exists>ys'. ys = DeleteRequested ''r'' # ys')"
proof -
  have t: "tracked_event example_lib (msg_body ex_message) = None"
    by (simp add: tracked_event_def ex_message_def unmarshal_sns_def unmarshal_def json_parse_def skip_ws_def)
  have run: "engagement_poller example_lib True [ex_receive] empty_world =
      (None, [Received] @ Handled ex_message None # [DeleteRequested ''r''], empty_world)"
    by (simp add: engagement_poller_def Run_def ex_receive_def Handle_tracked t)
      (simp add: ex_message_def)
  from foreign_messages_deleted [OF run refl t] run show ?thesis by (auto simp: ex_message_def)
qed

end
