(* ===== verification/Startup.thy ===== *)
theory Startup
  imports Config AnalyticsHandler Poller
begin

text \<open>
  The start of the service in \<open>cmd/email-service/main.go\<close>: from the environment variables and the
  results of connecting to the outside to the handlers that serve the three subjects and the poller
  that serves the queue, or to an exit.
\<close>

section \<open>Connecting\<close>

text \<open>What the calls to the outside return; \<open>None\<close> is success.\<close>

record outside_calls =
  oc_otel :: "goerr option"
  oc_connect :: "goerr option"
  oc_jetstream :: "goerr option"
  oc_bucket :: "string \<Rightarrow> goerr option"
  oc_subscribe :: "string \<Rightarrow> goerr option"
  oc_aws :: "goerr option"
  oc_max_payload :: int64

text \<open>The two implementations of \<open>domain.TrackingStore\<close> that \<open>setupNATSAndKV\<close> returns.\<close>

datatype store_choice = NullStore | BucketStore

definition store_of :: "golib \<Rightarrow> store_choice \<Rightarrow> ('a, 'c) TrackingStore" where
  "store_of L c = (case c of NullStore \<Rightarrow> NullTrackingStore | BucketStore \<Rightarrow> kv_Store L)"

definition setupNATSAndKV :: "outside_calls \<Rightarrow> goerr + store_choice \<times> bool" where
  "setupNATSAndKV oc =
     (case oc_connect oc of
        Some e \<Rightarrow> Inl (ErrText ''nats connect'' # e)
      | None \<Rightarrow>
        if oc_jetstream oc \<noteq> None then Inr (NullStore, False)
        else if oc_bucket oc EmailRecipientsKVBucket \<noteq> None then Inr (NullStore, False)
        else if oc_bucket oc EmailGroupIndexKVBucket \<noteq> None then Inr (NullStore, False)
        else Inr (BucketStore, True))"

text \<open>The subscriptions, in order; the first failure ends the start.\<close>

fun subscribe_all :: "outside_calls \<Rightarrow> string list \<Rightarrow> goerr option" where
  "subscribe_all oc [] = None"
| "subscribe_all oc (s # ss) =
     (case oc_subscribe oc s of
        Some e \<Rightarrow> Some (ErrText (''nats subscribe '' @ s) # e)
      | None \<Rightarrow> subscribe_all oc ss)"

definition subscribeHandlers :: "outside_calls \<Rightarrow> goerr option" where
  "subscribeHandlers oc =
     subscribe_all oc [SendEmailSubject, GetEmailStatusSubject, GetEmailEngagementAnalyticsSubject]"

section \<open>The service\<close>

record service =
  sv_env :: environment
  sv_store :: store_choice
  sv_policy :: AddressPolicy
  sv_max_payload :: int64
  sv_poller :: bool

definition smtp_config :: "environment \<Rightarrow> SmtpConfig" where
  "smtp_config env =
     \<lparr>Host = cfg_Host (env_SMTP env), Port = cfg_Port (env_SMTP env), FromAddress = cfg_From (env_SMTP env),
      FromDisplayName = cfg_FromDisplayName (env_SMTP env), Username = cfg_Username (env_SMTP env),
      Password = cfg_Password (env_SMTP env), ConfigurationSet = env_SESConfigurationSet env\<rparr>"

definition main_sender :: "golib \<Rightarrow> environment \<Rightarrow> sender" where
  "main_sender L env = (if env_EmailEnabled env then SmtpSend L (smtp_config env) else NoOpSend)"

definition main_policy :: "unicode \<Rightarrow> environment \<Rightarrow> AddressPolicy" where
  "main_policy U env =
     NewAddressPolicy U (cfg_AllowedFromDomains (env_SMTP env)) (cfg_AllowedReplyToDomains (env_SMTP env))
       (cfg_AllowedRecipientDomains (env_SMTP env))"

text \<open>An exit is the message it is logged with; its code is 1.\<close>

definition start_poller :: "environment \<Rightarrow> bool \<Rightarrow> outside_calls \<Rightarrow> string + bool" where
  "start_poller env kvAvailable oc =
     (if env_SESEventingEnabled env
      then
        (if env_SESEngagementSQSURL env = []
         then Inl ''SES_EVENTING_ENABLED is true but SES_ENGAGEMENT_SQS_QUEUE_URL is not set''
         else if \<not> kvAvailable
         then Inl ''SES_EVENTING_ENABLED is true but NATS KV (email-recipients bucket) is unavailable''
         else if oc_aws oc \<noteq> None then Inl ''failed to load AWS config for SQS poller''
         else Inr True)
      else Inr False)"

definition startup :: "unicode \<Rightarrow> osenv \<Rightarrow> outside_calls \<Rightarrow> string + service" where
  "startup U vars oc =
     (let env = parseEnv U vars in
      if oc_otel oc \<noteq> None then Inl ''failed to set up OTel SDK''
      else
        (case setupNATSAndKV oc of
           Inl e \<Rightarrow> Inl ''failed to connect to NATS''
         | Inr (store, kvAvailable) \<Rightarrow>
             let addrPolicy = main_policy U env in
             if subscribeHandlers oc \<noteq> None then Inl ''failed to subscribe NATS handlers''
             else
               (case start_poller env kvAvailable oc of
                  Inl reason \<Rightarrow> Inl reason
                | Inr poller \<Rightarrow>
                    Inr \<lparr>sv_env = env, sv_store = store, sv_policy = addrPolicy,
                         sv_max_payload = WithMaxPayload (oc_max_payload oc) defaultMaxPayload,
                         sv_poller = poller\<rparr>)))"

text \<open>What the subscriptions and the poller of a started service run.\<close>

definition service_send :: "golib \<Rightarrow> service \<Rightarrow> string \<Rightarrow> world \<Rightarrow> world" where
  "service_send L s data w =
     SendHandleData (store_of L (sv_store s) :: (unit, unit) TrackingStore) L (main_sender L (sv_env s))
       (sv_policy s) data w"

definition service_status :: "golib \<Rightarrow> service \<Rightarrow> string \<Rightarrow> world \<Rightarrow> world" where
  "service_status L s data w =
     StatusHandleData (store_of L (sv_store s) :: (page, unit) TrackingStore) L (sv_max_payload s) data w"

definition service_analytics :: "golib \<Rightarrow> service \<Rightarrow> string \<Rightarrow> world \<Rightarrow> world" where
  "service_analytics L s data w =
     AnalyticsHandleData
       (store_of L (sv_store s) :: (GetEmailEngagementAnalyticsResponse, unit) TrackingStore) L data w"

definition service_poller ::
    "golib \<Rightarrow> service \<Rightarrow> poll_input list \<Rightarrow> world \<Rightarrow> goerr option \<times> poll_event list \<times> world" where
  "service_poller L s inputs w =
     (if sv_poller s
      then Run 3 (\<lambda>m w. Handle (store_of L (sv_store s) :: (unit, captured) TrackingStore) L True (msg_body m) w)
             inputs w
      else (None, [], w))"

section \<open>What a start leads to\<close>

lemma startup_Inr:
  assumes "startup U vars oc = Inr s"
  shows "sv_env s = parseEnv U vars" and "sv_policy s = main_policy U (parseEnv U vars)"
    and "sv_store s = BucketStore \<longleftrightarrow> oc_jetstream oc = None \<and> oc_bucket oc EmailRecipientsKVBucket = None
           \<and> oc_bucket oc EmailGroupIndexKVBucket = None"
    and "sv_poller s \<longleftrightarrow> flag (Getenv vars ''SES_EVENTING_ENABLED'')"
    and "sv_poller s \<Longrightarrow> sv_store s = BucketStore \<and> Getenv vars ''SES_ENGAGEMENT_SQS_QUEUE_URL'' \<noteq> []"
proof -
  let ?env = "parseEnv U vars"
  obtain store kv where n: "setupNATSAndKV oc = Inr (store, kv)"
    using assms by (auto simp: startup_def Let_def split: if_splits sum.splits)
  obtain b where p: "start_poller ?env kv oc = Inr b"
    and s: "s = \<lparr>sv_env = ?env, sv_store = store, sv_policy = main_policy U ?env,
              sv_max_payload = WithMaxPayload (oc_max_payload oc) defaultMaxPayload, sv_poller = b\<rparr>"
    using assms n by (auto simp: startup_def Let_def split: if_splits sum.splits)
  have k: "kv \<longleftrightarrow> store = BucketStore" "store = BucketStore \<longleftrightarrow> oc_jetstream oc = None
      \<and> oc_bucket oc EmailRecipientsKVBucket = None \<and> oc_bucket oc EmailGroupIndexKVBucket = None"
    using n by (auto simp: setupNATSAndKV_def split: if_splits option.splits)
  have b: "b \<longleftrightarrow> env_SESEventingEnabled ?env" "b \<Longrightarrow> kv \<and> env_SESEngagementSQSURL ?env \<noteq> []"
    using p by (simp_all add: start_poller_def split: if_splits)
  show "sv_env s = ?env" "sv_policy s = main_policy U ?env"
    "sv_store s = BucketStore \<longleftrightarrow> oc_jetstream oc = None \<and> oc_bucket oc EmailRecipientsKVBucket = None
       \<and> oc_bucket oc EmailGroupIndexKVBucket = None"
    using k(2) by (simp_all add: s)
  show "sv_poller s \<longleftrightarrow> flag (Getenv vars ''SES_EVENTING_ENABLED'')"
    using b(1) by (simp add: s parseEnv_def)
  show "sv_poller s \<Longrightarrow> sv_store s = BucketStore \<and> Getenv vars ''SES_ENGAGEMENT_SQS_QUEUE_URL'' \<noteq> []"
    using b(2) k(1) by (simp add: s parseEnv_def)
qed

text \<open>A started poller is the engagement handler on the bucket store, publishing its notifications.\<close>

lemma service_poller_engagement:
  assumes "startup U vars oc = Inr s" and "sv_poller s"
  shows "service_poller L s = engagement_poller L True"
  using startup_Inr(5) [OF assms] assms(2)
  by (intro ext) (simp add: service_poller_def engagement_poller_def store_of_def)

text \<open>Each choice of a store and of a sender keeps the contracts the handlers rely on.\<close>

lemma store_of_contract: "tracking_store (store_of L c) L key_ok"
  by (cases c) (simp_all add: store_of_def kv.tracking_store_axioms null.tracking_store_axioms)

lemma main_sender_contract: "email_sender (main_sender L env) L"
  by (simp add: main_sender_def smtp.email_sender_axioms noop.email_sender_axioms)

interpretation started: send_service "store_of L c" L key_ok "main_sender L env" for L c env
  by (intro send_service.intro store_of_contract main_sender_contract)

lemma main_sender_disabled: "\<not> env_EmailEnabled env \<Longrightarrow> main_sender L env = NoOpSend"
  by (simp add: main_sender_def)


text \<open>Without a mail server no request sends or records anything, on either store.\<close>

lemma noop_inert:
  assumes "SendHandleData (store_of L c :: ('a, 'c) TrackingStore) L NoOpSend policy data w = w'"
  shows "w_sent w' = w_sent w \<and> w_writes w' = w_writes w"
proof (cases rule: SendHandleData_cases [of "store_of L c :: ('a, 'c) TrackingStore" L NoOpSend policy data w])
  case (refused d)
  then show ?thesis using assms by auto
next
  case (no_group req reason w1)
  then show ?thesis using assms runs_replies [OF started.check_group_runs [OF no_group(2)]]
      runs_no_write_writes [OF started.check_group_runs [OF no_group(2)]]
    by (auto simp: replyError_def)
next
  case (delivered req w1)
  then show ?thesis using assms runs_replies [OF started.check_group_runs [OF delivered(2)]]
      runs_no_write_writes [OF started.check_group_runs [OF delivered(2)]]
    by (auto simp: deliver_request_def NoOpSend_def)
qed

section \<open>The allowlists of the environment\<close>

text \<open>The entries of a comma-separated list, as they are compared with a mailbox's domain.\<close>

definition listed :: "string \<Rightarrow> string list" where
  "listed raw = filter (\<lambda>d. d \<noteq> []) (map (\<lambda>d. ascii_lower (trim_space d)) (split_on CHR '','' raw))"

lemma allowed_domains_listed:
  assumes "ascii raw"
  shows "allowed_domains U raw = listed raw"
proof -
  have "to_lower U (trim_space d) = ascii_lower (trim_space d)" if "d \<in> set (split_on CHR '','' raw)" for d
    using ascii_split_on [OF assms, of "CHR '',''"] that
    by (simp add: list_all_iff ascii_trim_space to_lower_ascii)
  then show ?thesis by (simp add: allowed_domains_def domain_loop_eq listed_def cong: map_cong)
qed

definition from_list :: "osenv \<Rightarrow> string" where
  "from_list vars = lookup_default vars ''SMTP_ALLOWED_FROM_DOMAINS'' ''lfx.linuxfoundation.org''"

definition recipient_list :: "osenv \<Rightarrow> string" where
  "recipient_list vars = Getenv vars ''SMTP_ALLOWED_RECIPIENT_DOMAINS''"

lemma main_policy_lists:
  "ascii (from_list vars) \<Longrightarrow> AllowedFromDomains (main_policy U (parseEnv U vars)) = listed (from_list vars)"
  "ascii (recipient_list vars) \<Longrightarrow>
     AllowedRecipientDomains (main_policy U (parseEnv U vars)) = listed (recipient_list vars)"
  using normalizeDomains_plain [OF allowed_domains_plain, of _ U U]
  by (simp_all add: main_policy_def NewAddressPolicy_def parseEnv_def from_list_def recipient_list_def allowed_domains_listed)

text \<open>
  C34: what the configured service can mail. A send request leads to at most one mail; to none,
  and to no write, unless sending was enabled by \<open>true\<close>, \<open>t\<close> or \<open>1\<close>. If the recipient list of the environment has an
  entry, the mailbox in the envelope is in a listed domain or a subdomain of one; a sender named by
  the request is in a domain of the sender list, which the service's own domain stands for when
  the variable is not set.
\<close>

theorem configured_mail:
  assumes "startup (lib_unicode L) vars oc = Inr s" and "service_send L s data w = w'"
    and "revisions_ok w" and "uuids_ok w" and "ascii (from_list vars)" and "ascii (recipient_list vars)"
  shows "\<exists>ms. w_sent w' = w_sent w @ ms \<and> length ms \<le> 1
     \<and> (Getenv vars ''EMAIL_ENABLED'' \<notin> {''true'', ''t'', ''1''} \<longrightarrow> ms = [] \<and> w_writes w' = w_writes w)
     \<and> (\<forall>m \<in> set ms. \<exists>req. unmarshal_send L data = Some req
          \<and> lib_parse_address L (req_to req) = Some (mail_rcpt m)
          \<and> (listed (recipient_list vars) \<noteq> [] \<longrightarrow>
               (\<exists>l d. \<exists>b \<in> set (listed (recipient_list vars)). plain_mailbox (mail_rcpt m) l d
                  \<and> suffix (split_on CHR ''.'' b) (split_on CHR ''.'' (ascii_lower d))))
          \<and> (req_from req \<noteq> [] \<longrightarrow>
               (\<exists>l d. plain_mailbox (mail_from m) l d \<and> ascii_lower d \<in> set (listed (from_list vars)))))"
proof -
  let ?p = "sv_policy s"
  have p: "AllowedFromDomains ?p = listed (from_list vars)"
    "AllowedRecipientDomains ?p = listed (recipient_list vars)"
    using main_policy_lists assms(5,6) by (simp_all add: startup_Inr(2) [OF assms(1)])
  from started.SendHandleData_effects [OF assms(2) [unfolded service_send_def] assms(3,4), of "\<lambda>_. True"]
  obtain d ms req where ms: "w_sent w' = w_sent w @ ms" "length ms \<le> 1"
    and m: "if accepted L ?p data req then \<forall>m \<in> set ms. mailed_for L req m else ms = []"
    by (metis (no_types, lifting))
  have disabled: "ms = [] \<and> w_writes w' = w_writes w" if "\<not> flag (Getenv vars ''EMAIL_ENABLED'')"
  proof -
    have "main_sender L (sv_env s) = NoOpSend"
      using that by (simp add: main_sender_def startup_Inr(1) [OF assms(1)] parseEnv_def)
    then have "w_sent w' = w_sent w \<and> w_writes w' = w_writes w"
      using assms(2) noop_inert by (metis service_send_def)
    with ms show ?thesis by simp
  qed
  have "\<exists>req. unmarshal_send L data = Some req \<and> lib_parse_address L (req_to req) = Some (mail_rcpt m)
      \<and> mail_permitted ?p req m" if "m \<in> set ms" for m
  proof (cases "accepted L ?p data req")
    case True
    with m that have "mailed_for L req m" by simp
    with True show ?thesis using accepted_permitted [OF True]
      by (intro exI [of _ req]) (simp add: accepted_def mailed_for_def)
  qed (use m that in simp)
  then have "\<forall>m \<in> set ms. \<exists>req. unmarshal_send L data = Some req
      \<and> lib_parse_address L (req_to req) = Some (mail_rcpt m)
      \<and> (listed (recipient_list vars) \<noteq> [] \<longrightarrow>
           (\<exists>l d. \<exists>b \<in> set (listed (recipient_list vars)). plain_mailbox (mail_rcpt m) l d
              \<and> suffix (split_on CHR ''.'' b) (split_on CHR ''.'' (ascii_lower d))))
      \<and> (req_from req \<noteq> [] \<longrightarrow>
           (\<exists>l d. plain_mailbox (mail_from m) l d \<and> ascii_lower d \<in> set (listed (from_list vars))))"
    unfolding mail_permitted_def p by (intro ballI) (simp only: imp_conv_disj not_not)
  moreover have "Getenv vars ''EMAIL_ENABLED'' \<notin> {''true'', ''t'', ''1''} \<longrightarrow> ms = [] \<and> w_writes w' = w_writes w"
    using disabled by (simp add: flag_def)
  ultimately show ?thesis using ms by (intro exI [of _ ms] conjI)
qed

section \<open>Without the buckets\<close>

lemma NullTrackingStore_ops [simp]:
  "WriteRecord NullTrackingStore e r w = (None, w)"
  "AppendToGroup NullTrackingStore g e w = (Some [ErrTrackingUnavailable], w)"
  "GroupExists NullTrackingStore g w = ((True, None), w)"
  "GetRecord NullTrackingStore e w = (Inl [ErrNotFound], w)"
  "ScanGroupRecords NullTrackingStore g offset limit fn acc w = ((0, Some [ErrNotFound]), acc, w)"
  "UpdateRecord NullTrackingStore e f c w = (None, c, w)"
  by (simp_all add: NullTrackingStore_def)

lemma null_status:
  "\<exists>reason. StatusHandleData (NullTrackingStore :: (page, unit) TrackingStore) L m data w = replyError reason w"
  by (auto simp: StatusHandleData_def handleByEmailID_def handleByGroupID_def Let_def split: option.splits)

lemma null_analytics:
  "\<exists>reason. AnalyticsHandleData (NullTrackingStore :: (GetEmailEngagementAnalyticsResponse, unit) TrackingStore) L data w
     = replyError reason w"
  by (auto simp: AnalyticsHandleData_def split: option.splits)

lemma main_sender_ids:
  assumes "main_sender L env req w = ((e, g, None), w1)" and "uuids_ok w"
  shows "e = [] \<and> g = [] \<or> e \<noteq> [] \<and> (req_group_id req = [] \<or> g = req_group_id req)"
proof (cases "env_EmailEnabled env")
  case True
  then have "SmtpSend L (smtp_config env) req w = ((e, g, None), w1)" using assms(1) by (simp add: main_sender_def)
  from SmtpSend_effects(3) [OF this] have e: "e = w_uuid w (w_uuids w)"
    and g: "if req_group_id req = [] then IsGroupHandle g else g = req_group_id req" by simp_all
  have "isValidUUID e" using assms(2) e by (simp add: uuids_ok_def)
  then have "e \<noteq> []" using isValidUUID_len [of e] by (cases e) simp_all
  with g show ?thesis by (auto split: if_splits)
qed (use assms(1) in \<open>auto simp: main_sender_def NoOpSend_def\<close>)

text \<open>The reply to a delivered mail names at most the handle of the request.\<close>

lemma null_deliver:
  assumes "deliver_request (NullTrackingStore :: (unit, unit) TrackingStore) (main_sender L env) req w = w'"
    and "uuids_ok w"
  shows "w_calls w' = w_calls w \<and> w_writes w' = w_writes w
     \<and> (\<exists>d. w_replies w' = w_replies w @ [d] \<and>
          ((\<exists>reason. d = marshal_error_response reason)
           \<or> (\<exists>e. d = marshal_send_response \<lparr>resp_email_id = e, resp_group_id = req_group_id req\<rparr>)
           \<or> (\<exists>e. d = marshal_send_response \<lparr>resp_email_id = e, resp_group_id = []\<rparr>)))"
proof -
  obtain e g err w1 where s: "main_sender L env req w = ((e, g, err), w1)" by (metis prod.exhaust)
  have f: "w_replies w1 = w_replies w" "w_writes w1 = w_writes w" "w_calls w1 = w_calls w"
    using email_sender.send_frame [OF main_sender_contract s] by (simp_all add: sender_frame_def)
  show ?thesis
  proof (cases err)
    case (Some x)
    then show ?thesis using assms(1) s f by (auto simp: deliver_request_def replyError_def)
  next
    case None
    let ?d = "\<lambda>g. marshal_send_response \<lparr>resp_email_id = e, resp_group_id = g\<rparr>"
    show ?thesis
    proof (cases "req_group_id req = []")
      case True
      with s None main_sender_ids [OF s [unfolded None] assms(2)] have "g = [] \<or> e \<noteq> []" by auto
      then have "w' = respond (?d []) w1 \<or> w' = respond (?d []) (w1\<lparr>w_ticks := Suc (w_ticks w1)\<rparr>)"
        using assms(1) s None True
        by (auto simp: deliver_request_def writeTrackingRecords_def write_record_def now_utc_def)
      then show ?thesis using f by auto
    next
      case False
      have "g = req_group_id req \<or> g = []" using False main_sender_ids [OF s [unfolded None] assms(2)] by auto
      moreover have "w' = respond (?d g) w1 \<or> w' = respond (?d g) (w1\<lparr>w_ticks := Suc (w_ticks w1)\<rparr>)"
        using assms(1) s None False
        by (auto simp: deliver_request_def writeTrackingRecords_def write_record_def now_utc_def)
      ultimately show ?thesis using f by auto
    qed
  qed
qed

text \<open>
  C35: a service started without JetStream or one of its buckets is cut off from tracking: it runs no
  poller, no request of any kind reaches a bucket, status and analytics requests are answered with
  an error, and the reply to a send request names no group handle but the one it came with, since
  nothing could be found under a new one.
\<close>

theorem degraded_without_buckets:
  assumes "startup U vars oc = Inr s" and "uuids_ok w"
    and "\<not> (oc_jetstream oc = None \<and> oc_bucket oc EmailRecipientsKVBucket = None
            \<and> oc_bucket oc EmailGroupIndexKVBucket = None)"
  shows "service_poller L s inputs w = (None, [], w)
     \<and> (\<exists>reason. service_status L s data w = replyError reason w)
     \<and> (\<exists>reason. service_analytics L s data w = replyError reason w)
     \<and> w_calls (service_send L s data w) = w_calls w
     \<and> (\<exists>d. w_replies (service_send L s data w) = w_replies w @ [d] \<and>
          ((\<exists>reason. d = marshal_error_response reason)
           \<or> (\<exists>e g. d = marshal_send_response \<lparr>resp_email_id = e, resp_group_id = g\<rparr>
                \<and> (g \<noteq> [] \<longrightarrow> (\<exists>req. unmarshal_send L data = Some req \<and> g = req_group_id req)))))"
proof (intro conjI)
  have n: "sv_store s = NullStore"
    using startup_Inr(3) [OF assms(1)] assms(3) by (cases "sv_store s") auto
  then have "\<not> sv_poller s" using startup_Inr(5) [OF assms(1)] by auto
  then show "service_poller L s inputs w = (None, [], w)" by (simp add: service_poller_def)
  show "\<exists>reason. service_status L s data w = replyError reason w"
    using null_status by (simp add: service_status_def store_of_def n)
  show "\<exists>reason. service_analytics L s data w = replyError reason w"
    using null_analytics by (simp add: service_analytics_def store_of_def n)
  let ?T = "NullTrackingStore :: (unit, unit) TrackingStore" and ?send = "main_sender L (sv_env s)"
  have w': "service_send L s data w = SendHandleData ?T L ?send (sv_policy s) data w"
    by (simp add: service_send_def store_of_def n)
  have "w_calls (service_send L s data w) = w_calls w \<and> (\<exists>d. w_replies (service_send L s data w) = w_replies w @ [d] \<and>
          ((\<exists>reason. d = marshal_error_response reason)
           \<or> (\<exists>e g. d = marshal_send_response \<lparr>resp_email_id = e, resp_group_id = g\<rparr>
                \<and> (g \<noteq> [] \<longrightarrow> (\<exists>req. unmarshal_send L data = Some req \<and> g = req_group_id req)))))"
  proof (cases rule: SendHandleData_cases [of ?T L ?send "sv_policy s" data w])
    case (refused d)
    then show ?thesis by (auto simp: w' refusal_def)
  next
    case (no_group req reason w1)
    then show ?thesis by (auto simp: w' check_group_def replyError_def split: if_splits)
  next
    case (delivered req w1)
    then have "w1 = w" by (simp add: check_group_def split: if_splits)
    with null_deliver [OF delivered(3) [symmetric, unfolded \<open>w1 = w\<close>] assms(2)] delivered(1)
    show ?thesis unfolding w' accepted_def by metis
  qed
  then show "w_calls (service_send L s data w) = w_calls w"
    "\<exists>d. w_replies (service_send L s data w) = w_replies w @ [d] \<and>
          ((\<exists>reason. d = marshal_error_response reason)
           \<or> (\<exists>e g. d = marshal_send_response \<lparr>resp_email_id = e, resp_group_id = g\<rparr>
                \<and> (g \<noteq> [] \<longrightarrow> (\<exists>req. unmarshal_send L data = Some req \<and> g = req_group_id req))))"
    by blast+
qed

section \<open>Examples\<close>

definition ex_calls :: outside_calls where
  "ex_calls = \<lparr>oc_otel = None, oc_connect = None, oc_jetstream = Some [ErrText ''no jetstream''],
     oc_bucket = (\<lambda>_. None), oc_subscribe = (\<lambda>_. None), oc_aws = None, oc_max_payload = 0\<rparr>"

definition ex_vars :: osenv where
  "ex_vars = [''EMAIL_ENABLED'' \<mapsto> ''true'', ''SMTP_ALLOWED_RECIPIENT_DOMAINS'' \<mapsto> ''b.org'']"

lemma ex_started: "\<exists>s. startup (lib_unicode example_lib) ex_vars ex_calls = Inr s"
  by (simp add: startup_def ex_calls_def ex_vars_def setupNATSAndKV_def subscribeHandlers_def start_poller_def
      parseEnv_def Getenv_def flag_def Let_def)

theorem degraded_without_buckets_witness:
  "\<exists>s reason. startup (lib_unicode example_lib) ex_vars ex_calls = Inr s
     \<and> service_status example_lib s send_text empty_world = replyError reason empty_world
     \<and> w_calls (service_send example_lib s send_text empty_world) = []"
proof -
  obtain s where s: "startup (lib_unicode example_lib) ex_vars ex_calls = Inr s" using ex_started by blast
  have "oc_jetstream ex_calls \<noteq> None" by (simp add: ex_calls_def)
  then show ?thesis
    using degraded_without_buckets [OF s uuids_empty, where L = example_lib and data = send_text] s
    by (auto simp: empty_world_def)
qed

theorem configured_mail_witness:
  "\<exists>s. startup (lib_unicode example_lib) ex_vars ex_calls = Inr s
     \<and> (\<forall>m \<in> set (w_sent (service_send example_lib s send_text empty_world)). mail_rcpt m = ''a@b.org'')"
proof -
  obtain s where s: "startup (lib_unicode example_lib) ex_vars ex_calls = Inr s" using ex_started by blast
  have a: "ascii (from_list ex_vars)" "ascii (recipient_list ex_vars)"
    by (simp_all add: from_list_def recipient_list_def lookup_default_def Getenv_def ex_vars_def byte_eval)
  from configured_mail [OF s refl revisions_empty uuids_empty a, of send_text] s show ?thesis
    by (auto simp: send_text_read ex_request_def empty_world_def)
qed

end
