(* ===== verification/Replica.thy ===== *)
theory Replica
  imports Startup "HOL-Library.Multiset"
begin

text \<open>
  One replica of the service from its start to its exit, \<open>cmd/email-service/main.go\<close>: the
  subscriptions that answer requests, the slots that bound the reads in flight, the poller, and the
  shutdown. The goroutines of the program are the rules of a step relation, so every interleaving of
  them is a run; a handler runs in one step, since what others do to the buckets meanwhile is part of
  the world it acts on.
\<close>

section \<open>The state\<close>

datatype request_kind = SendRequest | StatusRequest | AnalyticsRequest

record request =
  rq_id :: nat
  rq_kind :: request_kind
  rq_data :: string

text \<open>Where \<open>drainReads\<close> is: waiting for subscriptions to close, taking slots, or returned.\<close>

datatype drain_pc =
    NotDraining
  | ClosingSubs nat      \<comment> \<open>read subscriptions still to close\<close>
  | TakingSlots nat      \<comment> \<open>slots taken so far\<close>
  | Drained
  | DrainTimedOut nat    \<comment> \<open>slots taken when the deadline passed\<close>

datatype http_state = Serving | HttpStopping | HttpStopped
datatype conn_state = ConnOpen | ConnDraining | ConnClosed

datatype main_pc = AwaitSignal | DrainingReads | WaitingGroup | Exited nat

record replica =
  rp_slots :: nat                          \<comment> \<open>elements in the channel \<open>readSlots\<close>\<close>
  rp_running :: "request list"             \<comment> \<open>reads on goroutines of their own\<close>
  rp_received :: "request list"            \<comment> \<open>requests delivered so far\<close>
  rp_answers :: "(request \<times> string) list"  \<comment> \<open>replies so far\<close>
  rp_drain :: drain_pc
  rp_deadline :: bool                      \<comment> \<open>the timeout of \<open>drainReads\<close> has passed\<close>
  rp_done :: bool                          \<comment> \<open>a signal in the channel \<open>done\<close>, which holds one\<close>
  rp_cancelled :: bool                     \<comment> \<open>\<open>ctx\<close> is cancelled\<close>
  rp_aborted :: bool                       \<comment> \<open>\<open>pollerAborted\<close>\<close>
  rp_poller :: bool                        \<comment> \<open>the poller goroutine has not returned\<close>
  rp_http :: http_state
  rp_conn :: conn_state
  rp_wg :: int                             \<comment> \<open>the counter of \<open>wg\<close>\<close>
  rp_main :: main_pc
  rp_world :: world

definition maxInFlightReads :: nat where
  "maxInFlightReads = 8"

text \<open>After the start: the HTTP server and the connection are counted, and the poller if there is one.\<close>

definition replica_start :: "service \<Rightarrow> world \<Rightarrow> replica" where
  "replica_start s w =
     \<lparr>rp_slots = 0, rp_running = [], rp_received = [], rp_answers = [], rp_drain = NotDraining,
      rp_deadline = False, rp_done = False, rp_cancelled = False, rp_aborted = False,
      rp_poller = sv_poller s, rp_http = Serving, rp_conn = ConnOpen,
      rp_wg = (if sv_poller s then 2 + 1 else 2), rp_main = AwaitSignal, rp_world = w\<rparr>"

section \<open>Requests\<close>

definition serve :: "golib \<Rightarrow> service \<Rightarrow> request \<Rightarrow> world \<Rightarrow> world" where
  "serve L s r w =
     (case rq_kind r of
        SendRequest \<Rightarrow> service_send L s (rq_data r) w
      | StatusRequest \<Rightarrow> service_status L s (rq_data r) w
      | AnalyticsRequest \<Rightarrow> service_analytics L s (rq_data r) w)"

text \<open>A request is answered with the reply that was written.\<close>

definition answered :: "request \<Rightarrow> world \<Rightarrow> replica \<Rightarrow> replica" where
  "answered r w' rp = rp\<lparr>rp_world := w', rp_answers := rp_answers rp @ [(r, last (w_replies w'))]\<rparr>"

definition busyReply :: string where
  "busyReply = marshal_error_response ''service busy''"

text \<open>The callback of a read subscription: the non-blocking send into \<open>readSlots\<close>, or the busy reply.\<close>

definition dispatchRead :: "request \<Rightarrow> replica \<Rightarrow> replica" where
  "dispatchRead r rp =
     (if rp_slots rp < maxInFlightReads
      then rp\<lparr>rp_slots := Suc (rp_slots rp), rp_running := rp_running rp @ [r]\<rparr>
      else answered r (respond busyReply (rp_world rp)) rp)"

text \<open>The goroutine of a read: the handler, and then the slot is given back.\<close>

definition finish_read :: "golib \<Rightarrow> service \<Rightarrow> request \<Rightarrow> replica \<Rightarrow> replica" where
  "finish_read L s r rp =
     (answered r (serve L s r (rp_world rp)) rp)
       \<lparr>rp_running := remove1 r (rp_running rp), rp_slots := rp_slots rp - 1\<rparr>"

definition receive_request :: "golib \<Rightarrow> service \<Rightarrow> request \<Rightarrow> replica \<Rightarrow> replica" where
  "receive_request L s r rp =
     (let rp = rp\<lparr>rp_received := rp_received rp @ [r]\<rparr> in
      if rq_kind r = SendRequest then answered r (serve L s r (rp_world rp)) rp else dispatchRead r rp)"

section \<open>Shutdown\<close>

definition signal_done :: "replica \<Rightarrow> replica" where
  "signal_done rp = rp\<lparr>rp_done := True\<rparr>"

text \<open>The handler of the closed connection, which the client library calls once.\<close>

definition closed_handler :: "replica \<Rightarrow> replica" where
  "closed_handler rp =
     (let rp = (if \<not> rp_cancelled rp then signal_done rp else rp)
      in rp\<lparr>rp_conn := ConnClosed, rp_wg := rp_wg rp - 1\<rparr>)"

text \<open>The poller goroutine, when \<open>Run\<close> returns an error and when it returns \<open>nil\<close>.\<close>

definition poller_aborts :: "replica \<Rightarrow> replica" where
  "poller_aborts rp =
     (let rp = signal_done (rp\<lparr>rp_aborted := True, rp_cancelled := True\<rparr>)
      in rp\<lparr>rp_poller := False, rp_wg := rp_wg rp - 1\<rparr>)"

definition poller_returns :: "replica \<Rightarrow> replica" where
  "poller_returns rp = rp\<lparr>rp_poller := False, rp_wg := rp_wg rp - 1\<rparr>"

text \<open>
  \<open>main\<close> after a signal: the HTTP server is told to stop, and \<open>drainReads\<close> starts unless the
  connection is gone; it drains the subscriptions that are still valid.
\<close>

definition begin_shutdown :: "nat \<Rightarrow> replica \<Rightarrow> replica" where
  "begin_shutdown valid_subs rp =
     (let rp = rp\<lparr>rp_done := False, rp_cancelled := True, rp_http := HttpStopping\<rparr> in
      if rp_conn rp = ConnOpen
      then rp\<lparr>rp_main := DrainingReads, rp_drain := ClosingSubs valid_subs\<rparr>
      else rp\<lparr>rp_main := WaitingGroup\<rparr>)"

text \<open>\<open>drainReads\<close> is called with a deadline; each of its waits ends by an event or by the deadline.\<close>

definition drain_sub_closed :: "replica \<Rightarrow> replica option" where
  "drain_sub_closed rp =
     (case rp_drain rp of
        ClosingSubs (Suc n) \<Rightarrow> Some (rp\<lparr>rp_drain := ClosingSubs n\<rparr>)
      | ClosingSubs 0 \<Rightarrow> Some (rp\<lparr>rp_drain := TakingSlots 0\<rparr>)
      | _ \<Rightarrow> None)"

definition drain_take_slot :: "replica \<Rightarrow> replica option" where
  "drain_take_slot rp =
     (case rp_drain rp of
        TakingSlots k \<Rightarrow>
          if k < maxInFlightReads
          then
            (if rp_slots rp < maxInFlightReads
             then Some (rp\<lparr>rp_drain := TakingSlots (Suc k), rp_slots := Suc (rp_slots rp)\<rparr>)
             else None)
          else Some (rp\<lparr>rp_drain := Drained\<rparr>)
      | _ \<Rightarrow> None)"

definition drain_timeout :: "replica \<Rightarrow> replica option" where
  "drain_timeout rp =
     (if rp_deadline rp
      then
        (case rp_drain rp of
           ClosingSubs (Suc n) \<Rightarrow> Some (rp\<lparr>rp_drain := DrainTimedOut 0\<rparr>)
         | TakingSlots k \<Rightarrow> if k < maxInFlightReads then Some (rp\<lparr>rp_drain := DrainTimedOut k\<rparr>) else None
         | _ \<Rightarrow> None)
      else None)"

text \<open>Once it has returned, the connection is drained, and \<open>main\<close> waits for the group.\<close>

definition drain_returned :: "drain_pc \<Rightarrow> bool" where
  "drain_returned d \<longleftrightarrow> (case d of Drained \<Rightarrow> True | DrainTimedOut _ \<Rightarrow> True | _ \<Rightarrow> False)"

definition begin_conn_drain :: "replica \<Rightarrow> replica" where
  "begin_conn_drain rp =
     rp\<lparr>rp_main := WaitingGroup,
        rp_conn := (if rp_conn rp = ConnOpen then ConnDraining else rp_conn rp)\<rparr>"

definition http_stopped :: "replica \<Rightarrow> replica" where
  "http_stopped rp = rp\<lparr>rp_http := HttpStopped, rp_wg := rp_wg rp - 1\<rparr>"

definition main_exits :: "replica \<Rightarrow> replica" where
  "main_exits rp = rp\<lparr>rp_main := Exited (if rp_aborted rp then 1 else 0)\<rparr>"

text \<open>The health server: the status for a path, given whether the connection is up.\<close>

definition setupHTTPServer :: "bool \<Rightarrow> string \<Rightarrow> nat" where
  "setupHTTPServer connected path =
     (if path = ''/livez'' then 200
      else if path = ''/readyz'' then (if \<not> connected then 503 else 200)
      else 404)"

section \<open>The steps\<close>

text \<open>What the outside and the handlers do, at any time before the process ends.\<close>

inductive work_step :: "golib \<Rightarrow> service \<Rightarrow> replica \<Rightarrow> replica \<Rightarrow> bool" for L s where
  receive: "work_step L s rp (receive_request L s r rp)"
| finish: "r \<in> set (rp_running rp) \<Longrightarrow> work_step L s rp (finish_read L s r rp)"
| event: "rp_poller rp \<Longrightarrow> Handle (store_of L (sv_store s) :: (unit, captured) TrackingStore) L True body (rp_world rp) = (e, w')
    \<Longrightarrow> work_step L s rp (rp\<lparr>rp_world := w'\<rparr>)"
| os_signal: "work_step L s rp (signal_done rp)"
| abort: "rp_poller rp \<Longrightarrow> work_step L s rp (poller_aborts rp)"
| lost: "rp_conn rp \<noteq> ConnClosed \<Longrightarrow> work_step L s rp (closed_handler rp)"

text \<open>
  What the program does to end: after the drain of the connection has begun its closing is certain,
  since a timer closes it at the deadline.
\<close>

inductive shutdown_step :: "replica \<Rightarrow> replica \<Rightarrow> bool" where
  begin_sd: "rp_main rp = AwaitSignal \<Longrightarrow> rp_done rp \<Longrightarrow> n \<le> 2 \<Longrightarrow> shutdown_step rp (begin_shutdown n rp)"
| sub_closed: "rp_main rp = DrainingReads \<Longrightarrow> drain_sub_closed rp = Some rp' \<Longrightarrow> shutdown_step rp rp'"
| take_slot: "rp_main rp = DrainingReads \<Longrightarrow> drain_take_slot rp = Some rp' \<Longrightarrow> shutdown_step rp rp'"
| timeout: "rp_main rp = DrainingReads \<Longrightarrow> drain_timeout rp = Some rp' \<Longrightarrow> shutdown_step rp rp'"
| deadline: "rp_main rp = DrainingReads \<Longrightarrow> \<not> rp_deadline rp \<Longrightarrow> shutdown_step rp (rp\<lparr>rp_deadline := True\<rparr>)"
| drain_over: "rp_main rp = DrainingReads \<Longrightarrow> drain_returned (rp_drain rp) \<Longrightarrow> shutdown_step rp (begin_conn_drain rp)"
| http_done: "rp_http rp = HttpStopping \<Longrightarrow> shutdown_step rp (http_stopped rp)"
| conn_done: "rp_conn rp = ConnDraining \<Longrightarrow> shutdown_step rp (closed_handler rp)"
| poller_done: "rp_poller rp \<Longrightarrow> rp_cancelled rp \<Longrightarrow> shutdown_step rp (poller_returns rp)"
| exit_main: "rp_main rp = WaitingGroup \<Longrightarrow> rp_wg rp = 0 \<Longrightarrow> shutdown_step rp (main_exits rp)"

inductive reachable :: "golib \<Rightarrow> service \<Rightarrow> world \<Rightarrow> replica \<Rightarrow> bool" for L s w where
  start: "reachable L s w (replica_start s w)"
| work: "reachable L s w rp \<Longrightarrow> (\<forall>c. rp_main rp \<noteq> Exited c) \<Longrightarrow> work_step L s rp rp' \<Longrightarrow> reachable L s w rp'"
| shutdown: "reachable L s w rp \<Longrightarrow> (\<forall>c. rp_main rp \<noteq> Exited c) \<Longrightarrow> shutdown_step rp rp' \<Longrightarrow> reachable L s w rp'"

lemmas drain_ops = drain_sub_closed_def drain_take_slot_def drain_timeout_def
lemmas replica_ops = drain_ops begin_shutdown_def begin_conn_drain_def http_stopped_def main_exits_def
  closed_handler_def poller_aborts_def poller_returns_def signal_done_def

section \<open>The slots\<close>

text \<open>Every element of the channel belongs to a running read or has been put there by the drain.\<close>

fun taken :: "drain_pc \<Rightarrow> nat" where
  "taken (TakingSlots k) = k"
| "taken Drained = maxInFlightReads"
| "taken (DrainTimedOut k) = k"
| "taken _ = 0"

definition slots_inv :: "replica \<Rightarrow> bool" where
  "slots_inv rp \<longleftrightarrow> rp_slots rp = length (rp_running rp) + taken (rp_drain rp) \<and> rp_slots rp \<le> maxInFlightReads
     \<and> mset (rp_received rp) = mset (rp_running rp) + mset (map fst (rp_answers rp))"

lemma answered_simps [simp]:
  "rp_slots (answered r w' rp) = rp_slots rp" "rp_running (answered r w' rp) = rp_running rp"
  "rp_received (answered r w' rp) = rp_received rp" "rp_drain (answered r w' rp) = rp_drain rp"
  "map fst (rp_answers (answered r w' rp)) = map fst (rp_answers rp) @ [r]"
  "rp_world (answered r w' rp) = w'" "rp_main (answered r w' rp) = rp_main rp"
  "rp_answers (answered r w' rp) = rp_answers rp @ [(r, last (w_replies w'))]"
  by (simp_all add: answered_def)

lemma slots_start: "slots_inv (replica_start s w)"
  by (simp add: slots_inv_def replica_start_def)

lemma slots_receive: "slots_inv rp \<Longrightarrow> slots_inv (receive_request L s r rp)"
  by (auto simp: slots_inv_def receive_request_def dispatchRead_def Let_def)

lemma slots_finish: "slots_inv rp \<Longrightarrow> r \<in> set (rp_running rp) \<Longrightarrow> slots_inv (finish_read L s r rp)"
  by (cases "length (rp_running rp)") (auto simp: slots_inv_def finish_read_def length_remove1)

lemma slots_shutdown:
  assumes "shutdown_step rp rp'" and "slots_inv rp" and "rp_main rp = AwaitSignal \<Longrightarrow> rp_drain rp = NotDraining"
  shows "slots_inv rp'"
  using assms
  by cases (auto simp: slots_inv_def replica_ops Let_def split: drain_pc.splits nat.splits if_splits)

lemma slots_work: "work_step L s rp rp' \<Longrightarrow> slots_inv rp \<Longrightarrow> slots_inv rp'"
  by (cases rule: work_step.cases, assumption)
    (auto simp: slots_receive slots_finish, auto simp: slots_inv_def replica_ops Let_def)

section \<open>The goroutines\<close>

text \<open>The counter of the group counts what is still to end; a signal is pending whenever one is due.\<close>

definition live :: "replica \<Rightarrow> int" where
  "live rp = of_bool (rp_http rp \<noteq> HttpStopped) + of_bool (rp_conn rp \<noteq> ConnClosed) + of_bool (rp_poller rp)"

definition main_inv :: "replica \<Rightarrow> bool" where
  "main_inv rp \<longleftrightarrow> rp_wg rp = live rp
     \<and> (rp_aborted rp \<longrightarrow> \<not> rp_poller rp \<and> rp_cancelled rp)
     \<and> (case rp_main rp of
          AwaitSignal \<Rightarrow> rp_http rp = Serving \<and> rp_drain rp = NotDraining \<and> rp_conn rp \<noteq> ConnDraining
            \<and> (rp_cancelled rp \<or> rp_conn rp = ConnClosed \<longrightarrow> rp_done rp)
        | DrainingReads \<Rightarrow> rp_http rp \<noteq> Serving \<and> rp_cancelled rp \<and> rp_drain rp \<noteq> NotDraining
            \<and> rp_conn rp \<noteq> ConnDraining
        | WaitingGroup \<Rightarrow> rp_http rp \<noteq> Serving \<and> rp_cancelled rp \<and> rp_conn rp \<noteq> ConnOpen
        | Exited c \<Rightarrow> rp_wg rp = 0 \<and> c = (if rp_aborted rp then 1 else 0))"

lemma main_start: "main_inv (replica_start s w)"
  by (simp add: main_inv_def replica_start_def live_def)

lemma main_frame:
  "main_inv rp \<Longrightarrow> rp_wg rp' = rp_wg rp \<Longrightarrow> rp_http rp' = rp_http rp \<Longrightarrow> rp_conn rp' = rp_conn rp
     \<Longrightarrow> rp_poller rp' = rp_poller rp \<Longrightarrow> rp_aborted rp' = rp_aborted rp \<Longrightarrow> rp_cancelled rp' = rp_cancelled rp
     \<Longrightarrow> rp_main rp' = rp_main rp \<Longrightarrow> rp_done rp' = rp_done rp \<Longrightarrow> rp_drain rp' = rp_drain rp \<Longrightarrow> main_inv rp'"
  by (cases "rp_main rp") (simp_all add: main_inv_def live_def)

lemma main_drain:
  "main_inv rp \<Longrightarrow> rp_main rp = DrainingReads \<Longrightarrow> rp' = rp\<lparr>rp_drain := d, rp_slots := n\<rparr> \<Longrightarrow> d \<noteq> NotDraining
     \<Longrightarrow> main_inv rp'"
  by (simp add: main_inv_def live_def)

lemma drain_ops_frame:
  "drain_sub_closed rp = Some rp' \<Longrightarrow> \<exists>d n. rp' = rp\<lparr>rp_drain := d, rp_slots := n\<rparr> \<and> d \<noteq> NotDraining"
  "drain_take_slot rp = Some rp' \<Longrightarrow> \<exists>d n. rp' = rp\<lparr>rp_drain := d, rp_slots := n\<rparr> \<and> d \<noteq> NotDraining"
  "drain_timeout rp = Some rp' \<Longrightarrow> \<exists>d n. rp' = rp\<lparr>rp_drain := d, rp_slots := n\<rparr> \<and> d \<noteq> NotDraining"
  by (cases rp; fastforce simp: drain_ops split: drain_pc.splits nat.splits if_splits)+

lemma main_work:
  assumes "work_step L s rp rp'" and "main_inv rp" and "\<forall>c. rp_main rp \<noteq> Exited c"
  shows "main_inv rp'"
  using assms(1)
proof cases
  case (receive r)
  then show ?thesis
    by (intro main_frame [OF assms(2)]) (simp_all add: receive_request_def dispatchRead_def answered_def Let_def)
next
  case (finish r)
  then show ?thesis by (intro main_frame [OF assms(2)]) (simp_all add: finish_read_def answered_def)
next
  case (event body e w')
  then show ?thesis by (intro main_frame [OF assms(2)]) simp_all
next
  case os_signal
  with assms(2,3) show ?thesis by (cases "rp_main rp") (auto simp: main_inv_def live_def signal_done_def)
next
  case abort
  with assms(2,3) show ?thesis by (auto simp: main_inv_def live_def replica_ops Let_def split: main_pc.splits)
next
  case lost
  with assms(2,3) show ?thesis by (auto simp: main_inv_def live_def replica_ops Let_def split: main_pc.splits)
qed

lemma main_shutdown:
  assumes "shutdown_step rp rp'" and "main_inv rp" and "\<forall>c. rp_main rp \<noteq> Exited c"
  shows "main_inv rp'"
  using assms(1)
proof cases
  case (begin_sd n)
  with assms(2) show ?thesis by (simp add: main_inv_def live_def begin_shutdown_def Let_def)
next
  case drain_over
  with assms(2) show ?thesis by (simp add: main_inv_def live_def begin_conn_drain_def)
next
  case http_done
  with assms(2,3) show ?thesis
    by (cases "rp_main rp") (auto simp: main_inv_def live_def http_stopped_def)
next
  case conn_done
  with assms(2,3) show ?thesis
    by (cases "rp_main rp") (auto simp: main_inv_def live_def closed_handler_def signal_done_def Let_def)
next
  case poller_done
  with assms(2,3) show ?thesis
    by (cases "rp_main rp") (auto simp: main_inv_def live_def poller_returns_def)
next
  case exit_main
  with assms(2) show ?thesis by (simp add: main_inv_def live_def main_exits_def)
next
  case deadline
  show ?thesis using deadline by (intro main_frame [OF assms(2)]) simp_all
next
  case sub_closed
  then show ?thesis using drain_ops_frame(1) main_drain [OF assms(2)] by metis
next
  case take_slot
  then show ?thesis using drain_ops_frame(2) main_drain [OF assms(2)] by metis
next
  case timeout
  then show ?thesis using drain_ops_frame(3) main_drain [OF assms(2)] by metis
qed

section \<open>The world\<close>

definition world_inv :: "world \<Rightarrow> replica \<Rightarrow> bool" where
  "world_inv w rp \<longleftrightarrow> revisions_ok (rp_world rp) \<and> uuids_ok (rp_world rp)
     \<and> w_replies (rp_world rp) = w_replies w @ map snd (rp_answers rp)"

interpretation started_pages: page_store "store_of L c" L key_ok for L c
  by (rule page_store.intro) (rule store_of_contract)

interpretation started_totals: analytics_store "store_of L c" L key_ok for L c
  by (rule analytics_store.intro) (rule store_of_contract)

interpretation started_events: engagement_store "store_of L c" L key_ok for L c
  by (rule engagement_store.intro) (rule store_of_contract)

text \<open>A step of a handler that answers once.\<close>

definition serves :: "world \<Rightarrow> world \<Rightarrow> bool" where
  "serves w w' \<longleftrightarrow> revisions_ok w' \<and> uuids_ok w' \<and> (\<exists>d. w_replies w' = w_replies w @ [d])"

lemma serves_respond: "revisions_ok w \<Longrightarrow> uuids_ok w \<Longrightarrow> runs K P w w1 \<Longrightarrow> serves w (respond d w1)"
  using runs_revisions [of K P w w1] runs_replies [of K P w w1] acts_revisions [OF acts_respond]
    acts_clock [OF acts_respond, of d w1]
  by (simp add: serves_def uuids_ok_def)

lemma service_send_serves:
  assumes "revisions_ok w" and "uuids_ok w"
  shows "serves w (service_send L s data w)"
proof -
  from started.SendHandleData_effects [OF service_send_def [symmetric] assms, where now = "\<lambda>_. True"]
  obtain d req e g where "w_replies (service_send L s data w) = w_replies w @ [d]"
    and a: "acts key_ok (send_write L req e g (\<lambda>_. True)) w (service_send L s data w)" by blast
  with acts_revisions [OF a assms(1)] acts_clock [OF a] assms(2) show ?thesis
    by (simp add: serves_def uuids_ok_def)
qed

lemma service_status_serves:
  assumes "revisions_ok w" and "uuids_ok w"
  shows "serves w (service_status L s data w)"
proof -
  let ?T = "store_of L (sv_store s) :: (page, unit) TrackingStore"
  note r = serves_respond [OF assms]
  have e: "serves w (handleByEmailID ?T e g w)" for e g
    using r [OF started.get_runs]
    by (auto simp: handleByEmailID_def replyError_def split: prod.splits sum.splits option.splits)
  have g: "serves w (handleByGroupID ?T m g off lim w)" for m g off lim
    using r [OF started.scan_runs]
    by (auto simp: handleByGroupID_def replyError_def split: prod.splits option.splits)
  have "serves w (replyError reason w)" for reason using r [OF runs_refl] by (simp add: replyError_def)
  with e g show ?thesis
    by (auto simp: service_status_def StatusHandleData_def Let_def split: option.splits)
qed

lemma service_analytics_serves:
  assumes "revisions_ok w" and "uuids_ok w"
  shows "serves w (service_analytics L s data w)"
  using serves_respond [OF assms started.scan_runs] serves_respond [OF assms runs_refl]
  by (auto simp: service_analytics_def AnalyticsHandleData_def replyError_def split: option.splits prod.splits)

lemma serve_serves: "revisions_ok w \<Longrightarrow> uuids_ok w \<Longrightarrow> serves w (serve L s r w)"
  by (cases "rq_kind r")
    (simp_all add: serve_def service_send_serves service_status_serves service_analytics_serves)

lemma world_answered: "world_inv w0 rp \<Longrightarrow> serves (rp_world rp) w' \<Longrightarrow> world_inv w0 (answered r w' rp)"
  by (auto simp: world_inv_def serves_def)

lemma world_frame: "world_inv w rp \<Longrightarrow> rp_world rp' = rp_world rp \<Longrightarrow> rp_answers rp' = rp_answers rp \<Longrightarrow> world_inv w rp'"
  by (simp add: world_inv_def)

lemma Handle_keeps:
  assumes "Handle (store_of L c :: (unit, captured) TrackingStore) L publisher body w = (e, w')"
    and "revisions_ok w" and "uuids_ok w"
  shows "revisions_ok w' \<and> uuids_ok w' \<and> w_replies w' = w_replies w"
proof (cases "tracked_event L body")
  case None
  then show ?thesis using assms by (simp add: Handle_tracked)
next
  case (Some x)
  obtain emailID et i ev where x: "x = (emailID, et, i, ev)" by (cases x)
  from started_events.Handle_effects [OF assms(1,2) Some [unfolded x]] obtain w1 where
    r: "runs key_ok (changes_record L emailID (engagement_fn L et i ev) (w_max_value w Recipients)) w w1"
    and w': "w' = w1 \<or> (\<exists>m. w' = publish (fst m) (snd m) w1)" by blast
  have "revisions_ok w1" "uuids_ok w1" "w_replies w1 = w_replies w"
    using runs_revisions [OF r assms(2)] runs_replies [OF r] assms(3) by (simp_all add: uuids_ok_def)
  with w' show ?thesis by (auto simp: publish_def revisions_ok_def uuids_ok_def)
qed

lemma world_work:
  assumes "work_step L s rp rp'" and "world_inv w rp"
  shows "world_inv w rp'"
  using assms(1)
proof cases
  case (receive r)
  let ?rp = "rp\<lparr>rp_received := rp_received rp @ [r]\<rparr>"
  have i: "world_inv w ?rp" by (rule world_frame [OF assms(2)]) simp_all
  have "serves (rp_world rp) (serve L s r (rp_world rp))" "serves (rp_world rp) (respond busyReply (rp_world rp))"
    using assms(2) serve_serves serves_respond [OF _ _ runs_refl] by (simp_all add: world_inv_def)
  then have "world_inv w (answered r (serve L s r (rp_world rp)) ?rp)"
    "world_inv w (answered r (respond busyReply (rp_world rp)) ?rp)"
    by (auto intro!: world_answered [OF i])
  moreover have "world_inv w (?rp\<lparr>rp_slots := n, rp_running := rs\<rparr>)" for n rs
    by (rule world_frame [OF assms(2)]) simp_all
  ultimately show ?thesis using receive by (simp add: receive_request_def dispatchRead_def Let_def)
next
  case (finish r)
  then show ?thesis
    using world_answered [OF assms(2) serve_serves [of "rp_world rp" L s r], of r] assms(2)
    by (simp add: finish_read_def world_inv_def)
next
  case (event body e w')
  then show ?thesis using Handle_keeps [OF event(3)] assms(2) by (simp add: world_inv_def)
qed (use assms(2) in \<open>auto simp: world_inv_def replica_ops Let_def\<close>)

lemma world_shutdown: "shutdown_step rp rp' \<Longrightarrow> world_inv w rp \<Longrightarrow> world_inv w rp'"
  by (erule shutdown_step.cases)
    (auto simp: world_inv_def replica_ops Let_def split: drain_pc.splits nat.splits if_splits)

section \<open>Reachable states\<close>

lemma reachable_inv:
  assumes "reachable L s w rp" and "revisions_ok w" and "uuids_ok w"
  shows "slots_inv rp \<and> main_inv rp \<and> world_inv w rp"
  using assms(1)
proof induction
  case start
  then show ?case using assms(2,3) slots_start main_start by (simp add: world_inv_def replica_start_def)
next
  case (work rp rp')
  then show ?case using slots_work main_work world_work by blast
next
  case (shutdown rp rp')
  then have "rp_main rp = AwaitSignal \<Longrightarrow> rp_drain rp = NotDraining" by (simp add: main_inv_def)
  with shutdown show ?case using slots_shutdown main_shutdown world_shutdown by blast
qed

text \<open>
  C36: in every interleaving at most eight status and analytics requests are in progress, each on a
  slot of its own; every request delivered has been answered exactly once, by one reply, or is still
  in progress. While there is no shutdown a read is turned away only when eight are in progress. Once
  the drain has taken all the slots no read is in progress, and one that is still delivered is
  answered at once that the service is busy.
\<close>

theorem reads_bounded_and_answered:
  assumes "reachable L s w rp" and "revisions_ok w" and "uuids_ok w"
  shows "length (rp_running rp) \<le> 8
     \<and> mset (rp_received rp) = mset (rp_running rp) + mset (map fst (rp_answers rp))
     \<and> w_replies (rp_world rp) = w_replies w @ map snd (rp_answers rp)
     \<and> (rp_drain rp = NotDraining \<longrightarrow> rq_kind r \<noteq> SendRequest \<longrightarrow> length (rp_running rp) < 8 \<longrightarrow>
          rp_running (receive_request L s r rp) = rp_running rp @ [r])
     \<and> (rp_drain rp = Drained \<longrightarrow> rp_running rp = []
          \<and> (rq_kind r \<noteq> SendRequest \<longrightarrow>
               rp_answers (receive_request L s r rp) = rp_answers rp @ [(r, marshal_error_response ''service busy'')]))"
proof -
  have n: "rp_slots rp = length (rp_running rp) + taken (rp_drain rp)" "rp_slots rp \<le> 8"
    and m: "mset (rp_received rp) = mset (rp_running rp) + mset (map fst (rp_answers rp))"
    and w: "w_replies (rp_world rp) = w_replies w @ map snd (rp_answers rp)"
    using reachable_inv [OF assms] by (simp_all add: slots_inv_def world_inv_def maxInFlightReads_def)
  have "rp_running rp = []" "rp_slots rp = 8" if "rp_drain rp = Drained"
    using n that by (simp_all add: maxInFlightReads_def)
  with n m w show ?thesis
    by (auto simp: maxInFlightReads_def receive_request_def dispatchRead_def busyReply_def Let_def)
qed

section \<open>The end\<close>


text \<open>A bound on the steps a shutdown still takes.\<close>

fun drain_fuel :: "drain_pc \<Rightarrow> nat" where
  "drain_fuel (ClosingSubs n) = 11 + n"
| "drain_fuel (TakingSlots k) = Suc (8 - k)"
| "drain_fuel _ = 0"

definition fuel :: "replica \<Rightarrow> nat" where
  "fuel rp =
     (case rp_main rp of
        AwaitSignal \<Rightarrow> 40 | DrainingReads \<Rightarrow> 20 + drain_fuel (rp_drain rp) | WaitingGroup \<Rightarrow> 10 | Exited c \<Rightarrow> 0)
     + of_bool (\<not> rp_deadline rp) + of_bool (rp_http rp \<noteq> HttpStopped) + of_bool (rp_poller rp)
     + (case rp_conn rp of ConnOpen \<Rightarrow> 2 | ConnDraining \<Rightarrow> 1 | ConnClosed \<Rightarrow> 0)"

lemma drain_ops_fuel:
  "drain_sub_closed rp = Some rp' \<Longrightarrow> \<exists>d n. rp' = rp\<lparr>rp_drain := d, rp_slots := n\<rparr> \<and> drain_fuel d < drain_fuel (rp_drain rp)"
  "drain_take_slot rp = Some rp' \<Longrightarrow> \<exists>d n. rp' = rp\<lparr>rp_drain := d, rp_slots := n\<rparr> \<and> drain_fuel d < drain_fuel (rp_drain rp)"
  "drain_timeout rp = Some rp' \<Longrightarrow> \<exists>d n. rp' = rp\<lparr>rp_drain := d, rp_slots := n\<rparr> \<and> drain_fuel d < drain_fuel (rp_drain rp)"
  by (cases rp; fastforce simp: drain_ops maxInFlightReads_def split: drain_pc.splits nat.splits if_splits)+

lemma drain_fuel_less:
  "rp_main rp = DrainingReads \<Longrightarrow> \<exists>d n. rp' = rp\<lparr>rp_drain := d, rp_slots := n\<rparr> \<and> drain_fuel d < drain_fuel (rp_drain rp)
     \<Longrightarrow> fuel rp' < fuel rp"
  by (auto simp: fuel_def)

lemma fuel_shutdown:
  assumes "shutdown_step rp rp'" and "main_inv rp" and "\<forall>c. rp_main rp \<noteq> Exited c"
  shows "fuel rp' < fuel rp"
  using assms(1)
proof cases
  case (begin_sd n)
  with assms(2) show ?thesis by (simp add: fuel_def begin_shutdown_def Let_def main_inv_def split: conn_state.splits)
next
  case sub_closed
  then show ?thesis using drain_ops_fuel(1) drain_fuel_less by blast
next
  case take_slot
  then show ?thesis using drain_ops_fuel(2) drain_fuel_less by blast
next
  case timeout
  then show ?thesis using drain_ops_fuel(3) drain_fuel_less by blast
next
  case conn_done
  then show ?thesis by (cases "rp_main rp") (simp_all add: fuel_def closed_handler_def signal_done_def Let_def)
next
  case drain_over
  then show ?thesis by (simp add: fuel_def begin_conn_drain_def split: conn_state.splits)
next
  case http_done
  then show ?thesis by (cases "rp_main rp") (simp_all add: fuel_def http_stopped_def)
next
  case poller_done
  then show ?thesis by (cases "rp_main rp") (simp_all add: fuel_def poller_returns_def)
qed (simp_all add: fuel_def main_exits_def)

lemma fuel_frame:
  "rp_main rp' = rp_main rp \<Longrightarrow> rp_drain rp' = rp_drain rp \<Longrightarrow> rp_deadline rp' = rp_deadline rp
     \<Longrightarrow> rp_http rp' = rp_http rp \<Longrightarrow> (rp_poller rp' \<Longrightarrow> rp_poller rp)
     \<Longrightarrow> rp_conn rp' = rp_conn rp \<or> rp_conn rp' = ConnClosed \<Longrightarrow> fuel rp' \<le> fuel rp"
  by (cases "rp_main rp") (auto simp: fuel_def of_bool_def)

lemma fuel_work: "work_step L s rp rp' \<Longrightarrow> fuel rp' \<le> fuel rp"
  by (erule work_step.cases; rule fuel_frame)
    (simp_all add: receive_request_def dispatchRead_def finish_read_def answered_def poller_aborts_def
      closed_handler_def signal_done_def Let_def split: if_splits)

lemma closing_work: "work_step L s rp rp' \<Longrightarrow> rp_drain rp' = rp_drain rp"
  by (erule work_step.cases)
    (simp_all add: receive_request_def dispatchRead_def finish_read_def answered_def poller_aborts_def
      closed_handler_def signal_done_def Let_def)

lemma closing_two: "reachable L s w rp \<Longrightarrow> rp_drain rp = ClosingSubs n \<Longrightarrow> n \<le> 2"
proof (induction arbitrary: n rule: reachable.induct)
  case (shutdown rp rp')
  from shutdown.hyps(3) show ?case
    using shutdown.IH shutdown.prems
    by cases (fastforce simp: replica_ops Let_def split: drain_pc.splits nat.splits if_splits)+
qed (simp_all add: replica_start_def closing_work)

text \<open>A shutdown that is due can always go on, whatever the reads in progress do.\<close>

definition due :: "replica \<Rightarrow> bool" where
  "due rp \<longleftrightarrow> rp_main rp \<noteq> AwaitSignal \<or> rp_done rp"

lemma due_shutdown: "shutdown_step rp rp' \<Longrightarrow> due rp \<Longrightarrow> due rp'"
  by (erule shutdown_step.cases)
    (auto simp: due_def replica_ops Let_def split: drain_pc.splits nat.splits if_splits)

lemma shutdown_enabled:
  assumes "main_inv rp" and "\<forall>c. rp_main rp \<noteq> Exited c" and "due rp"
  shows "\<exists>rp'. shutdown_step rp rp'"
proof (cases "rp_main rp")
  case AwaitSignal
  with assms(3) show ?thesis using begin_sd [of rp 0] by (auto simp: due_def)
next
  case DrainingReads
  show ?thesis
  proof (cases "rp_deadline rp")
    case False
    with DrainingReads show ?thesis using deadline by blast
  next
    case True
    have "drain_returned (rp_drain rp) \<or> (\<exists>rp'. drain_sub_closed rp = Some rp') \<or> (\<exists>rp'. drain_take_slot rp = Some rp')
        \<or> (\<exists>rp'. drain_timeout rp = Some rp')"
      using True assms(1) DrainingReads
      by (auto simp: main_inv_def drain_returned_def drain_ops split: drain_pc.splits nat.splits)
    with DrainingReads show ?thesis using sub_closed take_slot timeout drain_over by blast
  qed
next
  case WaitingGroup
  then have i: "rp_http rp \<noteq> Serving" "rp_cancelled rp" "rp_conn rp \<noteq> ConnOpen" "rp_wg rp = live rp"
    using assms(1) by (simp_all add: main_inv_def)
  consider "rp_http rp = HttpStopping" | "rp_conn rp = ConnDraining" | "rp_poller rp" | "live rp = 0"
    using i by (cases "rp_http rp"; cases "rp_conn rp") (auto simp: live_def)
  then show ?thesis using i WaitingGroup http_done conn_done poller_done exit_main by cases metis+
qed (use assms(2) in simp)

lemma shutdown_runs:
  assumes "main_inv rp" and "due rp"
  shows "\<exists>rp' c n. (shutdown_step ^^ n) rp rp' \<and> n \<le> fuel rp \<and> rp_main rp' = Exited c"
  using assms
proof (induction "fuel rp" arbitrary: rp rule: less_induct)
  case less
  show ?case
  proof (cases "\<exists>c. rp_main rp = Exited c")
    case True
    then show ?thesis by (metis relpowp_0_I le0)
  next
    case False
    then obtain rp1 where st: "shutdown_step rp rp1" using shutdown_enabled less.prems by blast
    have f: "fuel rp1 < fuel rp" and m: "main_inv rp1" "due rp1"
      using fuel_shutdown [OF st] main_shutdown [OF st] due_shutdown [OF st] less.prems False by auto
    from less.hyps [OF f m] obtain rp' c n where "(shutdown_step ^^ n) rp1 rp'" "n \<le> fuel rp1" "rp_main rp' = Exited c"
      by blast
    then have "(shutdown_step ^^ Suc n) rp rp'" "Suc n \<le> fuel rp" using st f relpowp_Suc_I2 by (fast, simp)
    with \<open>rp_main rp' = Exited c\<close> show ?thesis by blast
  qed
qed

text \<open>
  C38: a shutdown always comes to its end. Once a signal is pending, or the poller has given up, or
  the connection is lost, the process can exit by at most 45 more steps of its own, whether or not
  the reads in progress return; each such step uses up a bound that no other step of the service
  raises, so no run can put the exit off for ever. While it has not exited, a step of the shutdown
  is possible.
\<close>

theorem shutdown_terminates:
  assumes "reachable L s w rp" and "revisions_ok w" and "uuids_ok w" and "\<forall>c. rp_main rp \<noteq> Exited c"
    and "rp_done rp \<or> rp_aborted rp \<or> rp_conn rp = ConnClosed \<or> rp_main rp \<noteq> AwaitSignal"
  shows "(\<exists>rp' c n. (shutdown_step ^^ n) rp rp' \<and> n \<le> fuel rp \<and> rp_main rp' = Exited c)
     \<and> fuel rp \<le> 45
     \<and> (\<exists>rp'. shutdown_step rp rp')
     \<and> (\<forall>rp'. shutdown_step rp rp' \<longrightarrow> fuel rp' < fuel rp)
     \<and> (\<forall>rp'. work_step L s rp rp' \<longrightarrow> fuel rp' \<le> fuel rp)"
proof -
  have i: "main_inv rp" using reachable_inv [OF assms(1-3)] by simp
  then have d: "due rp" using assms(5) by (cases "rp_main rp") (auto simp: main_inv_def due_def)
  have "fuel rp \<le> 45"
    using closing_two [OF assms(1)] by (cases "rp_main rp"; cases "rp_drain rp")
      (auto simp: fuel_def of_bool_def split: conn_state.split)
  then show ?thesis
    using shutdown_runs [OF i d] shutdown_enabled [OF i assms(4) d] fuel_shutdown [OF _ i assms(4)] fuel_work
    by blast
qed

section \<open>Examples\<close>

definition ex_service :: service where
  "ex_service = \<lparr>sv_env = parseEnv (lib_unicode example_lib) (\<lambda>_. None), sv_store = BucketStore, sv_policy = ex_policy,
     sv_max_payload = defaultMaxPayload, sv_poller = True\<rparr>"

text \<open>A replica that received a status request, and one whose poller gave up.\<close>

definition ex_read :: request where
  "ex_read = \<lparr>rq_id = 1, rq_kind = StatusRequest, rq_data = []\<rparr>"

definition ex_busy :: replica where
  "ex_busy = receive_request example_lib ex_service ex_read (replica_start ex_service empty_world)"

definition ex_aborted :: replica where
  "ex_aborted = poller_aborts ex_busy"

lemma ex_busy_eq: "ex_busy = (replica_start ex_service empty_world)\<lparr>rp_received := [ex_read], rp_slots := 1, rp_running := [ex_read]\<rparr>"
  by (simp add: ex_busy_def receive_request_def dispatchRead_def replica_start_def ex_read_def maxInFlightReads_def Let_def)

lemma ex_busy_reachable: "reachable example_lib ex_service empty_world ex_busy"
  unfolding ex_busy_def
  by (rule work [OF start _ receive]) (simp add: replica_start_def)

lemma ex_aborted_reachable: "reachable example_lib ex_service empty_world ex_aborted"
  unfolding ex_aborted_def
  by (rule work [OF ex_busy_reachable _ abort]) (simp_all add: ex_busy_eq replica_start_def ex_service_def)

theorem reads_bounded_and_answered_witness:
  "length (rp_running ex_busy) = 1 \<and> mset (rp_received ex_busy) = mset (rp_running ex_busy) + mset (map fst (rp_answers ex_busy))"
  using reads_bounded_and_answered [OF ex_busy_reachable revisions_empty uuids_empty]
  by (simp add: ex_busy_eq)


theorem shutdown_terminates_witness:
  "\<exists>rp' c n. (shutdown_step ^^ n) ex_aborted rp' \<and> n \<le> 45 \<and> rp_main rp' = Exited c"
proof -
  have "\<forall>c. rp_main ex_aborted \<noteq> Exited c" "rp_aborted ex_aborted"
    by (simp_all add: ex_aborted_def ex_busy_eq poller_aborts_def signal_done_def replica_start_def)
  from shutdown_terminates [OF ex_aborted_reachable revisions_empty uuids_empty this(1)] this(2)
  show ?thesis by (meson order_trans)
qed

end
