(* ===== verification/MockStore.thy ===== *)
theory MockStore
  imports KvUndisturbed JsonRoundtrip
begin

text \<open>
  \<open>internal/service/mocks/tracking.go\<close>: the tracking store as two maps, with the errors that a test can
  inject. Without injected errors it says what the operations mean when nobody interferes; the bucket
  store is shown to implement it, so what the tests of the handlers observe on the maps is what the
  buckets do. The locks have no counterpart: an operation is one step. \<open>cloneRecord\<close> has none either,
  since the values of the model share nothing.
\<close>

section \<open>The store on maps\<close>

text \<open>
  An injected error is the entry of a map, which may be there and \<open>nil\<close>: \<open>Some None\<close>. Then the call
  returns early all the same, without an error.
\<close>

record mock_store =
  mk_records :: "string \<Rightarrow> rcpt option"
  mk_groups :: "string \<Rightarrow> string list option"
  WriteErr :: "goerr option"
  AppendErr :: "goerr option"
  GetErrFor :: "string \<Rightarrow> goerr option option"
  GroupErrFor :: "string \<Rightarrow> goerr option option"

definition NewTrackingStore :: mock_store where
  "NewTrackingStore = \<lparr>mk_records = (\<lambda>_. None), mk_groups = (\<lambda>_. None), WriteErr = None, AppendErr = None,
     GetErrFor = (\<lambda>_. None), GroupErrFor = (\<lambda>_. None)\<rparr>"

text \<open>What a test puts into the maps and reads from them.\<close>

definition PutRecord :: "string \<Rightarrow> rcpt \<Rightarrow> mock_store \<Rightarrow> mock_store" where
  "PutRecord emailID r m = m\<lparr>mk_records := (mk_records m)(emailID \<mapsto> r)\<rparr>"

definition PutGroup :: "string \<Rightarrow> string list \<Rightarrow> mock_store \<Rightarrow> mock_store" where
  "PutGroup groupID emailIDs m = m\<lparr>mk_groups := (mk_groups m)(groupID \<mapsto> emailIDs)\<rparr>"

definition GetStoredRecord :: "string \<Rightarrow> mock_store \<Rightarrow> rcpt \<times> bool" where
  "GetStoredRecord emailID m =
     (case mk_records m emailID of None \<Rightarrow> (zero_record, False) | Some r \<Rightarrow> (r, True))"

definition GetStoredGroup :: "string \<Rightarrow> mock_store \<Rightarrow> string list \<times> bool" where
  "GetStoredGroup groupID m = (case mk_groups m groupID of None \<Rightarrow> ([], False) | Some ids \<Rightarrow> (ids, True))"

definition mock_WriteRecord :: "string \<Rightarrow> rcpt \<Rightarrow> mock_store \<Rightarrow> goerr option \<times> mock_store" where
  "mock_WriteRecord emailID r m =
     (if WriteErr m \<noteq> None then (WriteErr m, m)
      else (None, m\<lparr>mk_records := (mk_records m)(emailID \<mapsto> r)\<rparr>))"

text \<open>Reading a map at an absent key gives the empty slice.\<close>

definition group_ids :: "mock_store \<Rightarrow> string \<Rightarrow> string list" where
  "group_ids m groupID = (case mk_groups m groupID of None \<Rightarrow> [] | Some ids \<Rightarrow> ids)"

definition mock_AppendToGroup :: "string \<Rightarrow> string \<Rightarrow> mock_store \<Rightarrow> goerr option \<times> mock_store" where
  "mock_AppendToGroup groupID emailID m =
     (if AppendErr m \<noteq> None then (AppendErr m, m)
      else if MaxGroupEmails \<le> length (group_ids m groupID) then (Some [ErrGroupFull], m)
      else (None, m\<lparr>mk_groups := (mk_groups m)(groupID \<mapsto> group_ids m groupID @ [emailID])\<rparr>))"

definition mock_GroupExists :: "string \<Rightarrow> mock_store \<Rightarrow> bool \<times> goerr option" where
  "mock_GroupExists groupID m =
     (case GroupErrFor m groupID of
        Some e \<Rightarrow> (False, e)
      | None \<Rightarrow>
          (case mk_groups m groupID of
             None \<Rightarrow> (False, None)
           | Some ids \<Rightarrow> if MaxGroupEmails \<le> length ids then (True, Some [ErrGroupFull]) else (True, None)))"

definition mock_GetRecord :: "string \<Rightarrow> mock_store \<Rightarrow> goerr + rcpt" where
  "mock_GetRecord emailID m =
     (case GetErrFor m emailID of
        Some (Some e) \<Rightarrow> Inl e
      | Some None \<Rightarrow> Inr zero_record
      | None \<Rightarrow> (case mk_records m emailID of None \<Rightarrow> Inl [ErrNotFound] | Some r \<Rightarrow> Inr r))"

text \<open>
  The scan asks its context whether it has ended: \<open>cx\<close> holds the results of the coming calls of
  \<open>ctx.Err\<close>, a context that has ended stays so, and one that is not listed has not ended.
\<close>

definition mock_ctx_err :: "sentinel option list \<Rightarrow> sentinel option \<times> sentinel option list" where
  "mock_ctx_err cx =
     (case cx of [] \<Rightarrow> (None, []) | None # cx \<Rightarrow> (None, cx) | Some e # _ \<Rightarrow> (Some e, cx))"

fun mock_scan_loop ::
    "mock_store \<Rightarrow> string \<Rightarrow> 'a scan_fn \<Rightarrow> string list \<Rightarrow> 'a \<Rightarrow> sentinel option list \<Rightarrow> goerr option \<times> 'a" where
  "mock_scan_loop m groupID fn [] acc cx =
     (case mock_ctx_err cx of
        (Some e, _) \<Rightarrow> (Some [ErrText ''scan group records'', e], acc)
      | (None, _) \<Rightarrow> (None, acc))"
| "mock_scan_loop m groupID fn (i # ids) acc cx =
     (case mock_ctx_err cx of
        (Some e, _) \<Rightarrow> (Some [ErrText ''scan group records'', e], acc)
      | (None, cx) \<Rightarrow>
          (case mock_GetRecord i m of
             Inl e \<Rightarrow> mock_scan_loop m groupID fn ids acc cx
           | Inr r \<Rightarrow>
               if GroupID r \<noteq> groupID then mock_scan_loop m groupID fn ids acc cx
               else (case fn r acc of
                       (False, acc) \<Rightarrow> mock_scan_loop m groupID fn [] acc cx
                     | (True, acc) \<Rightarrow> mock_scan_loop m groupID fn ids acc cx)))"

definition mock_ScanGroupRecords ::
    "string \<Rightarrow> int64 \<Rightarrow> int64 \<Rightarrow> 'a scan_fn \<Rightarrow> 'a \<Rightarrow> sentinel option list \<Rightarrow> mock_store
       \<Rightarrow> (nat \<times> goerr option) \<times> 'a" where
  "mock_ScanGroupRecords groupID offset limit fn acc cx m =
     (case GroupErrFor m groupID of
        Some e \<Rightarrow> ((0, e), acc)
      | None \<Rightarrow>
          if sint offset < 0 \<or> sint limit \<le> 0 then ((0, Some [ErrText ''invalid group scan range'']), acc)
          else
            (case mk_groups m groupID of
               None \<Rightarrow> ((0, Some [ErrNotFound]), acc)
             | Some ids \<Rightarrow>
                 (case mock_ctx_err cx of
                    (Some e, _) \<Rightarrow> ((length ids, Some [ErrText ''scan group records'', e]), acc)
                  | (None, cx) \<Rightarrow>
                      if int (length ids) \<le> sint offset then ((length ids, None), acc)
                      else
                        let lim = (if sint limit \<le> int MaxGroupEmails then limit else int64 (int MaxGroupEmails))
                        in (case mock_scan_loop m groupID fn (scan_window ids offset lim) acc cx of
                              (e, acc) \<Rightarrow> ((length ids, e), acc)))))"

text \<open>A callback that changes the record and captures something, without using the clock.\<close>

definition pure_update :: "(rcpt \<Rightarrow> rcpt) \<Rightarrow> (rcpt \<Rightarrow> 'c \<Rightarrow> 'c) \<Rightarrow> 'c update_fn" where
  "pure_update f g r c w = (f r, g r c, w)"

definition mock_UpdateRecord ::
    "string \<Rightarrow> (rcpt \<Rightarrow> rcpt) \<Rightarrow> (rcpt \<Rightarrow> 'c \<Rightarrow> 'c) \<Rightarrow> 'c \<Rightarrow> mock_store \<Rightarrow> goerr option \<times> 'c \<times> mock_store" where
  "mock_UpdateRecord emailID f g c m =
     (case GetErrFor m emailID of
        Some e \<Rightarrow> (e, c, m)
      | None \<Rightarrow>
          (case mk_records m emailID of
             None \<Rightarrow> (None, c, m)
           | Some r \<Rightarrow>
               (case marshal_record (f r) of
                  None \<Rightarrow> (Some [ErrText ''marshal updated recipient record'', ErrRecordUnencodable], g r c, m)
                | Some _ \<Rightarrow> (None, g r c, m\<lparr>mk_records := (mk_records m)(emailID \<mapsto> f r)\<rparr>))))"

section \<open>Operations as data\<close>

datatype ('a, 'c) store_call =
    CallWrite string rcpt
  | CallAppend string string
  | CallExists string
  | CallGet string
  | CallScan string int64 int64 "'a scan_fn" 'a
  | CallUpdate string "rcpt \<Rightarrow> rcpt" "rcpt \<Rightarrow> 'c \<Rightarrow> 'c" 'c

datatype ('a, 'c) store_result =
    ResErr "goerr option"
  | ResExists bool "goerr option"
  | ResRecord "goerr + rcpt"
  | ResScan nat "goerr option" 'a
  | ResUpdate "goerr option" 'c

text \<open>The sentinels of an error, which is what \<open>errors.Is\<close> can tell; its texts are left out.\<close>

fun is_text :: "sentinel \<Rightarrow> bool" where
  "is_text (ErrText s) = True"
| "is_text _ = False"

definition sentinels :: "goerr option \<Rightarrow> goerr option" where
  "sentinels = map_option (filter (\<lambda>x. \<not> is_text x))"

definition store_call :: "('a, 'c) TrackingStore \<Rightarrow> ('a, 'c) store_call \<Rightarrow> world \<Rightarrow> ('a, 'c) store_result \<times> world" where
  "store_call T op w =
     (case op of
        CallWrite i r \<Rightarrow> (case WriteRecord T i r w of (e, w) \<Rightarrow> (ResErr (sentinels e), w))
      | CallAppend g i \<Rightarrow> (case AppendToGroup T g i w of (e, w) \<Rightarrow> (ResErr (sentinels e), w))
      | CallExists g \<Rightarrow> (case GroupExists T g w of ((b, e), w) \<Rightarrow> (ResExists b (sentinels e), w))
      | CallGet i \<Rightarrow> (case GetRecord T i w of (x, w) \<Rightarrow> (ResRecord x, w))
      | CallScan g off lim fn acc \<Rightarrow>
          (case ScanGroupRecords T g off lim fn acc w of ((n, e), acc, w) \<Rightarrow> (ResScan n (sentinels e) acc, w))
      | CallUpdate i f g c \<Rightarrow>
          (case UpdateRecord T i (pure_update f g) c w of (e, c, w) \<Rightarrow> (ResUpdate (sentinels e) c, w)))"

definition mock_call :: "('a, 'c) store_call \<Rightarrow> mock_store \<Rightarrow> ('a, 'c) store_result \<times> mock_store" where
  "mock_call op m =
     (case op of
        CallWrite i r \<Rightarrow> (case mock_WriteRecord i r m of (e, m) \<Rightarrow> (ResErr (sentinels e), m))
      | CallAppend g i \<Rightarrow> (case mock_AppendToGroup g i m of (e, m) \<Rightarrow> (ResErr (sentinels e), m))
      | CallExists g \<Rightarrow> (case mock_GroupExists g m of (b, e) \<Rightarrow> (ResExists b (sentinels e), m))
      | CallGet i \<Rightarrow> (ResRecord (mock_GetRecord i m), m)
      | CallScan g off lim fn acc \<Rightarrow>
          (case mock_ScanGroupRecords g off lim fn acc [] m of ((n, e), acc) \<Rightarrow> (ResScan n (sentinels e) acc, m))
      | CallUpdate i f g c \<Rightarrow>
          (case mock_UpdateRecord i f g c m of (e, c, m) \<Rightarrow> (ResUpdate (sentinels e) c, m)))"

section \<open>The simulation\<close>

text \<open>The buckets hold the encoded maps; nothing interferes, and no error is injected.\<close>

definition no_faults :: "mock_store \<Rightarrow> bool" where
  "no_faults m \<longleftrightarrow> WriteErr m = None \<and> AppendErr m = None \<and> (\<forall>i. GetErrFor m i = None) \<and> (\<forall>g. GroupErrFor m g = None)"

lemma no_faultsD:
  assumes "no_faults m"
  shows "WriteErr m = None" "AppendErr m = None" "GetErrFor m i = None" "GroupErrFor m g = None"
  using assms by (simp_all add: no_faults_def)

lemma no_faults_maps [simp]:
  "no_faults (m\<lparr>mk_records := rs\<rparr>) = no_faults m" "no_faults (m\<lparr>mk_groups := gs\<rparr>) = no_faults m"
  by (simp_all add: no_faults_def)

definition represents :: "golib \<Rightarrow> world \<Rightarrow> mock_store \<Rightarrow> bool" where
  "represents L w m \<longleftrightarrow> w_moves w = [] \<and> w_ctx w = [] \<and> w_max_value w = maxValueSize \<and> no_faults m
     \<and> (\<forall>i. map_option (unmarshal_record L \<circ> ent_value) (w_kv w Recipients i) = map_option Some (mk_records m i))
     \<and> (\<forall>g. map_option (unmarshal_ids L \<circ> ent_value) (w_kv w GroupIndex g) = map_option Some (mk_groups m g))
     \<and> (\<forall>g ids. mk_groups m g = Some ids \<longrightarrow> list_all isValidUUID ids \<and> length ids \<le> MaxGroupEmails)"

text \<open>
  What the caller keeps to: identifiers as the service makes them, and records whose strings are UTF-8,
  whose times have whole minutes as offsets and whose text fits the bucket.
\<close>

definition clean_record :: "rcpt \<Rightarrow> bool" where
  "clean_record r \<longleftrightarrow> list_all time_exact (record_times r) \<and> list_all valid_utf8 (record_strings r)
     \<and> json_len (record_json r) \<le> maxValueSize Recipients"

fun clean_call :: "mock_store \<Rightarrow> ('a, 'c) store_call \<Rightarrow> bool" where
  "clean_call m (CallWrite i r) \<longleftrightarrow> isValidUUID i \<and> clean_record r"
| "clean_call m (CallAppend g i) \<longleftrightarrow> IsGroupHandle g \<and> isValidUUID i"
| "clean_call m (CallExists g) \<longleftrightarrow> IsGroupHandle g"
| "clean_call m (CallGet i) \<longleftrightarrow> isValidUUID i"
| "clean_call m (CallScan g off lim fn acc) \<longleftrightarrow> IsGroupHandle g"
| "clean_call m (CallUpdate i f g c) \<longleftrightarrow> isValidUUID i
     \<and> (\<forall>r. mk_records m i = Some r \<longrightarrow> marshal_record (f r) \<noteq> None \<longrightarrow> clean_record (f r))"

lemma clean_stored:
  assumes "clean_record r"
  shows "\<exists>v. marshal_record r = Some v \<and> length v \<le> maxValueSize Recipients \<and> unmarshal_record L v = Some r"
  using assms record_roundtrip_valid [of r] by (auto simp: clean_record_def json_len_def)

lemma ids_read_back: "list_all isValidUUID ids \<Longrightarrow> unmarshal_ids L (marshal_ids ids) = Some ids"
  by (rule unmarshal_ids_valid) (simp add: list_all_iff valid_utf8_ascii isValidUUID_ascii)

text \<open>An index within the limit of the group always fits its bucket.\<close>

lemma marshal_ids_fits:
  assumes "list_all isValidUUID ids" and "length ids \<le> MaxGroupEmails"
  shows "length (marshal_ids ids) \<le> maxValueSize GroupIndex"
proof (cases "ids = []")
  case False
  have "elem_size (map json_string ids) = 39 * length ids"
    using assms(1)
    by (induction ids) (simp_all add: json_string_def json_escape_safe isValidUUID_html_safe isValidUUID_len)
  with False json_len_JArr [of "map json_string ids"] assms(2) show ?thesis
    by (simp add: marshal_ids_def json_len_def MaxGroupEmails_def)
qed (simp add: marshal_ids_def)

lemma represents_record:
  assumes "represents L w m"
  shows "mk_records m i = None \<Longrightarrow> w_kv w Recipients i = None"
    and "mk_records m i = Some r \<Longrightarrow> \<exists>en. w_kv w Recipients i = Some en \<and> unmarshal_record L (ent_value en) = Some r"
proof -
  have "map_option (unmarshal_record L \<circ> ent_value) (w_kv w Recipients i) = map_option Some (mk_records m i)"
    using assms by (simp add: represents_def)
  then show "mk_records m i = None \<Longrightarrow> w_kv w Recipients i = None"
    "mk_records m i = Some r \<Longrightarrow> \<exists>en. w_kv w Recipients i = Some en \<and> unmarshal_record L (ent_value en) = Some r"
    by auto
qed

lemma represents_group:
  assumes "represents L w m"
  shows "mk_groups m g = None \<Longrightarrow> w_kv w GroupIndex g = None"
    and "mk_groups m g = Some ids \<Longrightarrow> \<exists>en. w_kv w GroupIndex g = Some en \<and> unmarshal_ids L (ent_value en) = Some ids"
    and "mk_groups m g = Some ids \<Longrightarrow> list_all isValidUUID ids \<and> length ids \<le> MaxGroupEmails"
proof -
  have "map_option (unmarshal_ids L \<circ> ent_value) (w_kv w GroupIndex g) = map_option Some (mk_groups m g)"
    using assms by (simp add: represents_def)
  then show "mk_groups m g = None \<Longrightarrow> w_kv w GroupIndex g = None"
    "mk_groups m g = Some ids \<Longrightarrow> \<exists>en. w_kv w GroupIndex g = Some en \<and> unmarshal_ids L (ent_value en) = Some ids"
    by auto
  show "mk_groups m g = Some ids \<Longrightarrow> list_all isValidUUID ids \<and> length ids \<le> MaxGroupEmails"
    using assms by (simp add: represents_def)
qed

lemma represents_quiet: "represents L w m \<Longrightarrow> w_moves w = [] \<and> w_ctx w = [] \<and> w_max_value w = maxValueSize"
  by (simp add: represents_def)

lemma represents_faults:
  assumes "represents L w m"
  shows "WriteErr m = None" "AppendErr m = None" "GetErrFor m i = None" "GroupErrFor m g = None"
  using assms by (simp_all add: represents_def no_faults_def)

text \<open>Reads leave the buckets alone; writes change one entry of one of them.\<close>

lemma represents_called: "represents L w m \<Longrightarrow> represents L (called cs w) m"
  by (simp add: represents_def called_def)

lemma represents_stored_record:
  assumes "represents L w m" and "unmarshal_record L v = Some r"
  shows "represents L (stored Recipients i v w) (m\<lparr>mk_records := (mk_records m)(i \<mapsto> r)\<rparr>)"
  using assms by (auto simp: represents_def)

lemma represents_stored_group:
  assumes "represents L w m" and "unmarshal_ids L v = Some ids" and "list_all isValidUUID ids"
    and "length ids \<le> MaxGroupEmails"
  shows "represents L (stored GroupIndex g v w) (m\<lparr>mk_groups := (mk_groups m)(g \<mapsto> ids)\<rparr>)"
  using assms by (auto simp: represents_def)

section \<open>Each operation\<close>

abbreviation kv_call :: "golib \<Rightarrow> ('a, 'c) store_call \<Rightarrow> world \<Rightarrow> ('a, 'c) store_result \<times> world" where
  "kv_call L \<equiv> store_call (kv_Store L)"

definition simulates ::
    "golib \<Rightarrow> ('a, 'c) store_result \<times> world \<Rightarrow> ('a, 'c) store_result \<times> mock_store \<Rightarrow> bool" where
  "simulates L x y \<longleftrightarrow> fst x = fst y \<and> represents L (snd x) (snd y)"

lemma sim_write:
  assumes "represents L w m" and "isValidUUID i" and "clean_record r"
  shows "simulates L (kv_call L (CallWrite i r) w) (mock_call (CallWrite i r) m)"
proof -
  obtain v where v: "marshal_record r = Some v" "length v \<le> maxValueSize Recipients" "unmarshal_record L v = Some r"
    using clean_stored [OF assms(3)] by blast
  note q = represents_quiet [OF assms(1)]
  have "kv_put Recipients i v w = (Inr (Suc (w_seq w)), stored Recipients i v (logged Recipients i w))"
    unfolding kv_put_def by (rule kv_write_quiet) (use q v in simp_all)
  moreover have "represents L (stored Recipients i v (called [(Recipients, i)] w)) (m\<lparr>mk_records := (mk_records m)(i \<mapsto> r)\<rparr>)"
    by (rule represents_stored_record [OF represents_called [OF assms(1)] v(3)])
  ultimately show ?thesis
    using v q checkKey_uuid [OF assms(2)] represents_faults(1) [OF assms(1)]
    by (simp add: simulates_def store_call_def mock_call_def kv_Store_def kv_WriteRecord_def mock_WriteRecord_def
        sentinels_def logged_called)
qed

lemma sim_get:
  assumes "represents L w m" and "isValidUUID i"
  shows "simulates L (kv_call L (CallGet i) w) (mock_call (CallGet i) m)"
proof -
  have "the (chunk_result L (w_kv w Recipients) i) = mock_GetRecord i m"
    using represents_record [OF assms(1), of i] assms(2) represents_faults(3) [OF assms(1)]
    by (cases "mk_records m i") (auto simp: chunk_result_def mock_GetRecord_def)
  then show ?thesis
    using represents_called [OF assms(1)] kv_GetRecord_quiet [of w i L] represents_quiet [OF assms(1)] assms(2)
    by (simp add: simulates_def store_call_def mock_call_def kv_Store_def)
qed

lemma sim_exists:
  assumes "represents L w m" and "IsGroupHandle g"
  shows "simulates L (kv_call L (CallExists g) w) (mock_call (CallExists g) m)"
  using represents_quiet [OF assms(1)] represents_group(1,2) [OF assms(1), of g] checkKey_handle [OF assms(2)]
    represents_called [OF assms(1)] represents_faults(4) [OF assms(1)]
  by (cases "mk_groups m g")
    (auto simp: simulates_def store_call_def mock_call_def kv_Store_def kv_GroupExists_def kv_get_quiet
      mock_GroupExists_def logged_called)

lemma append_write_quiet:
  assumes "w_moves w = []" and "length (marshal_ids (ids @ [i])) \<le> w_max_value w GroupIndex"
    and "length ids < MaxGroupEmails"
    and "case rv of None \<Rightarrow> w_kv w GroupIndex g = None
         | Some n \<Rightarrow> \<exists>en. w_kv w GroupIndex g = Some en \<and> ent_revision en = n"
  shows "append_write False g i rv ids w =
     (Return None, stored GroupIndex g (marshal_ids (ids @ [i])) (logged GroupIndex g w))"
  using assms
  by (cases rv) (auto simp: append_write_def Let_def kv_create_def kv_update_def kv_write_quiet)

lemma sim_append:
  assumes "represents L w m" and "clean_call m (CallAppend g i :: ('a, 'c) store_call)"
  shows "simulates L (kv_call L (CallAppend g i :: ('a, 'c) store_call) w) (mock_call (CallAppend g i) m)"
proof -
  let ?ids = "group_ids m g" and ?w = "called [(GroupIndex, g)] w"
  note q = represents_quiet [OF assms(1)]
  have k: "checkKey g = None" "isValidUUID i" using assms(2) checkKey_handle by auto
  have ids: "list_all isValidUUID ?ids" "length ?ids \<le> MaxGroupEmails"
    using represents_group(3) [OF assms(1), of g] by (auto simp: group_ids_def split: option.split)
  have dec: "unmarshal_ids L (marshal_ids (?ids @ [i])) = Some (?ids @ [i])"
    using k(2) ids(1) by (intro ids_read_back) simp
  let ?rv = "map_option ent_revision (w_kv w GroupIndex g)"
  have a: "append_attempt L False g i w = append_write False g i ?rv ?ids ?w"
    using represents_group(1,2) [OF assms(1), of g] q
    by (cases "mk_groups m g") (auto simp: append_attempt_def kv_get_quiet logged_called group_ids_def)
  show ?thesis
  proof (cases "MaxGroupEmails \<le> length ?ids")
    case True
    then have "kv_AppendToGroup L g i w = (Some [ErrText ''append to group index'', ErrGroupFull], ?w)"
      using k a by (simp add: kv_AppendToGroup_def append_write_def)
    then show ?thesis using True represents_called [OF assms(1)] represents_faults(2) [OF assms(1)]
      by (simp add: simulates_def store_call_def mock_call_def kv_Store_def mock_AppendToGroup_def sentinels_def)
  next
    case False
    let ?v = "marshal_ids (?ids @ [i])" and ?w2 = "called [(GroupIndex, g)] ?w"
    have "length ?v \<le> w_max_value ?w GroupIndex"
      using marshal_ids_fits [of "?ids @ [i]"] ids k(2) False q by (simp add: called_def)
    then have "append_write False g i ?rv ?ids ?w = (Return None, stored GroupIndex g ?v (logged GroupIndex g ?w))"
      using q False by (intro append_write_quiet) (auto split: option.split)
    then have "kv_AppendToGroup L g i w = (None, stored GroupIndex g ?v ?w2)"
      using k a q by (simp add: kv_AppendToGroup_def logged_called)
    moreover have "represents L (stored GroupIndex g ?v ?w2) (m\<lparr>mk_groups := (mk_groups m)(g \<mapsto> ?ids @ [i])\<rparr>)"
      using ids k(2) False
      by (intro represents_stored_group [OF represents_called [OF represents_called [OF assms(1)]] dec]) simp_all
    ultimately show ?thesis using False represents_faults(2) [OF assms(1)]
      by (simp add: simulates_def store_call_def mock_call_def kv_Store_def mock_AppendToGroup_def sentinels_def)
  qed
qed

lemma scan_loop_feed:
  assumes "represents L w m" and "list_all isValidUUID ids"
  shows "mock_scan_loop m g fn ids acc [] = (None, snd (feed fn (group_members L (w_kv w Recipients) g ids) acc))"
  using assms(2)
proof (induction ids arbitrary: acc)
  case (Cons i ids)
  have "group_member L (w_kv w Recipients) g i
      = (case mk_records m i of None \<Rightarrow> None | Some r \<Rightarrow> if GroupID r = g then Some r else None)"
    using represents_record [OF assms(1), of i] Cons.prems by (cases "mk_records m i") (auto simp: group_member_def)
  then show ?case using Cons represents_faults(3) [OF assms(1)]
    by (auto simp: mock_GetRecord_def mock_ctx_err_def split: option.split prod.splits bool.splits)
qed (simp add: mock_ctx_err_def)

lemma sim_scan:
  assumes "represents L w m" and "IsGroupHandle g"
  shows "simulates L (kv_call L (CallScan g off lim fn acc) w) (mock_call (CallScan g off lim fn acc) m)"
proof -
  note q = represents_quiet [OF assms(1)] and k = checkKey_handle [OF assms(2)]
    and f = represents_faults(4) [OF assms(1)]
  have cx: "mock_ctx_err [] = (None, [])" by (simp add: mock_ctx_err_def)
  show ?thesis
  proof (cases "sint off < 0 \<or> sint lim \<le> 0")
    case True
    then show ?thesis using assms(1) k f
      by (auto simp: simulates_def store_call_def mock_call_def kv_Store_def kv_ScanGroupRecords_def
          mock_ScanGroupRecords_def)
  next
    case range: False
    show ?thesis
    proof (cases "mk_groups m g")
      case None
      then have "kv_ScanGroupRecords L g off lim fn acc w = ((0, Some [ErrNotFound]), acc, called [(GroupIndex, g)] w)"
        using range q k represents_group(1) [OF assms(1) None]
        by (simp add: kv_ScanGroupRecords_def kv_get_quiet ctx_err_quiet logged_called Let_def)
      then show ?thesis using None range f represents_called [OF assms(1)]
        by (simp add: simulates_def store_call_def mock_call_def kv_Store_def mock_ScanGroupRecords_def)
    next
      case (Some ids)
      obtain en where en: "w_kv w GroupIndex g = Some en" "unmarshal_ids L (ent_value en) = Some ids"
        using represents_group(2) [OF assms(1) Some] by blast
      have ids: "list_all isValidUUID ids" "length ids \<le> MaxGroupEmails"
        using represents_group(3) [OF assms(1) Some] by simp_all
      let ?win = "take (nat (min (sint lim) 10000)) (drop (nat (sint off)) ids)"
      let ?lim = "if sint lim \<le> int MaxGroupEmails then lim else int64 (int MaxGroupEmails)"
      obtain cs where c: "kv_ScanGroupRecords L g off lim fn acc w =
          ((length ids, None), snd (feed fn (group_members L (w_kv w Recipients) g ?win) acc), called cs w)"
        using kv_ScanGroupRecords_quiet [OF _ _ k _ _ en, of off lim fn acc] q range ids(2)
        by (auto simp: MaxGroupEmails_def)
      have win: "list_all isValidUUID ?win"
        using ids(1) by (auto simp: list_all_iff dest!: in_set_takeD in_set_dropD)
      note loop = scan_loop_feed [OF assms(1) win, of g fn acc]
      have "mock_ScanGroupRecords g off lim fn acc [] m
          = ((length ids, None), snd (feed fn (group_members L (w_kv w Recipients) g ?win) acc))"
      proof (cases "int (length ids) \<le> sint off")
        case True
        then show ?thesis using range Some f cx by (simp add: mock_ScanGroupRecords_def)
      next
        case False
        have M: "sint ?lim = min (sint lim) 10000" by (simp add: MaxGroupEmails_def sint_int64_small)
        have "scan_window ids off ?lim = take (nat (sint ?lim)) (drop (nat (sint off)) ids)"
          by (rule scan_window_take) (use range ids(2) False M in \<open>auto simp: MaxGroupEmails_def\<close>)
        then show ?thesis using range Some False M f cx loop by (simp add: mock_ScanGroupRecords_def Let_def)
      qed
      then show ?thesis
        using c represents_called [OF assms(1)]
        by (simp add: simulates_def store_call_def mock_call_def kv_Store_def)
    qed
  qed
qed

lemma sim_update:
  assumes "represents L w m" and "clean_call m (CallUpdate i f g c :: ('a, 'c) store_call)"
  shows "simulates L (kv_call L (CallUpdate i f g c :: ('a, 'c) store_call) w) (mock_call (CallUpdate i f g c) m)"
proof -
  let ?w = "called [(Recipients, i)] w"
  note q = represents_quiet [OF assms(1)]
  have k: "checkKey i = None" using assms(2) checkKey_uuid by simp
  show ?thesis
  proof (cases "mk_records m i")
    case None
    then have "kv_UpdateRecord L i (pure_update f g) c w = (None, c, ?w)"
      using q k represents_record(1) [OF assms(1) None]
      by (simp add: kv_UpdateRecord_def update_attempt_def kv_get_quiet logged_called)
    then show ?thesis using None represents_called [OF assms(1)] represents_faults(3) [OF assms(1)]
      by (simp add: simulates_def store_call_def mock_call_def kv_Store_def mock_UpdateRecord_def)
  next
    case (Some r)
    obtain en where en: "w_kv w Recipients i = Some en" "unmarshal_record L (ent_value en) = Some r"
      using represents_record(2) [OF assms(1) Some] by blast
    show ?thesis
    proof (cases "marshal_record (f r)")
      case None
      then have "kv_UpdateRecord L i (pure_update f g) c w
          = (Some [ErrText ''marshal updated recipient record'', ErrRecordUnencodable], g r c, ?w)"
        using q k en by (simp add: kv_UpdateRecord_def update_attempt_def kv_get_quiet pure_update_def logged_called)
      then show ?thesis using None Some represents_called [OF assms(1)] represents_faults(3) [OF assms(1)]
        by (simp add: simulates_def store_call_def mock_call_def kv_Store_def mock_UpdateRecord_def)
    next
      case v: (Some v)
      then have s: "length v \<le> maxValueSize Recipients" "unmarshal_record L v = Some (f r)"
        using assms(2) Some clean_stored [of "f r" L] by auto
      have "kv_UpdateRecord L i (pure_update f g) c w =
          (None, g r c, stored Recipients i v (logged Recipients i (logged Recipients i w)))"
        by (rule kv_UpdateRecord_quiet [OF _ k en]) (use q v s in \<open>simp_all add: pure_update_def\<close>)
      moreover have "represents L (stored Recipients i v (called [(Recipients, i)] ?w))
          (m\<lparr>mk_records := (mk_records m)(i \<mapsto> f r)\<rparr>)"
        by (intro represents_stored_record [OF represents_called [OF represents_called [OF assms(1)]] s(2)])
      ultimately show ?thesis using Some v q represents_faults(3) [OF assms(1)]
        by (simp add: simulates_def store_call_def mock_call_def kv_Store_def mock_UpdateRecord_def logged_called)
    qed
  qed
qed

lemma kv_simulates:
  assumes "represents L w m" and "clean_call m op"
  shows "simulates L (kv_call L op w) (mock_call op m)"
proof (cases op)
  case (CallAppend g i)
  show ?thesis unfolding CallAppend by (rule sim_append [OF assms [unfolded CallAppend]])
next
  case (CallUpdate i f g c)
  show ?thesis unfolding CallUpdate by (rule sim_update [OF assms [unfolded CallUpdate]])
qed (use assms in \<open>simp_all add: sim_write sim_get sim_exists sim_scan\<close>)

section \<open>Sequences of operations\<close>

fun kv_calls :: "golib \<Rightarrow> ('a, 'c) store_call list \<Rightarrow> world \<Rightarrow> ('a, 'c) store_result list \<times> world" where
  "kv_calls L [] w = ([], w)"
| "kv_calls L (op # ops) w =
     (case kv_call L op w of (r, w) \<Rightarrow> (case kv_calls L ops w of (rs, w) \<Rightarrow> (r # rs, w)))"

fun mock_calls :: "('a, 'c) store_call list \<Rightarrow> mock_store \<Rightarrow> ('a, 'c) store_result list \<times> mock_store" where
  "mock_calls [] m = ([], m)"
| "mock_calls (op # ops) m =
     (case mock_call op m of (r, m) \<Rightarrow> (case mock_calls ops m of (rs, m) \<Rightarrow> (r # rs, m)))"

fun clean_calls :: "mock_store \<Rightarrow> ('a, 'c) store_call list \<Rightarrow> bool" where
  "clean_calls m [] \<longleftrightarrow> True"
| "clean_calls m (op # ops) \<longleftrightarrow> clean_call m op \<and> clean_calls (snd (mock_call op m)) ops"

text \<open>
  C39: the bucket store implements the store on maps into which no error is injected. In buckets that
  hold the maps and that nobody else uses, any sequence of operations returns what it returns on the maps, up to the texts of
  errors, and leaves buckets that hold the resulting maps: records are encoded, stored and read back
  as they were written, a group is the list of what was appended to it, a scan sees the requested
  part of it. The index of a group within its limit always fits the bucket.
\<close>

theorem kv_store_refines_maps:
  assumes "represents L w m" and "clean_calls m ops"
  shows "fst (kv_calls L ops w) = fst (mock_calls ops m)
     \<and> represents L (snd (kv_calls L ops w)) (snd (mock_calls ops m))"
  using assms
proof (induction ops arbitrary: w m)
  case (Cons op ops)
  obtain r w1 where k: "kv_call L op w = (r, w1)" by (cases "kv_call L op w")
  obtain r' m1 where c: "mock_call op m = (r', m1)" by (cases "mock_call op m")
  have "clean_call m op" using Cons.prems(2) by simp
  from kv_simulates [OF Cons.prems(1) this] have "r = r'" "represents L w1 m1"
    using k c by (simp_all add: simulates_def)
  with Cons.IH [of w1 m1] Cons.prems(2) k c show ?case by (auto split: prod.split)
qed simp

lemma represents_empty: "represents L empty_world NewTrackingStore"
  by (simp add: represents_def empty_world_def NewTrackingStore_def no_faults_def)

text \<open>A group is created with a record, which is then read.\<close>

definition ex_group :: string where
  "ex_group = ''grp_00000000000000000000000000000000''"

definition ex_stored :: rcpt where
  "ex_stored = zero_record\<lparr>GroupID := ex_group, EmailID := uuid0, To := ''a@x.co'', Subject := ''1 < 2''\<rparr>"

definition ex_ops :: "(unit, unit) store_call list" where
  "ex_ops = [CallExists ex_group, CallAppend ex_group uuid0, CallExists ex_group, CallGet uuid0,
     CallWrite uuid0 ex_stored, CallGet uuid0]"

lemma ex_stored_clean: "clean_record ex_stored"
proof -
  have t: "json_len (json_time zero_time) \<le> 37"
    using zero_time_exact by (intro json_len_time_le) (simp_all add: time_exact_def)
  note l = json_len_string_le [of ex_group] json_len_string_le [of uuid0]
    json_len_string_le [of "''a@x.co''"] json_len_string_le [of "''1 < 2''"]
  have "length ex_group = 36" "length uuid0 = 36" by (simp_all add: ex_group_def isValidUUID_len uuid0)
  then have "member_size (record_members ex_stored) \<le> 2000"
    using t l json_len_int_le(2) [of 0]
    by (simp add: record_members_def ex_stored_def zero_record_def opt_member_def list_member_def)
  then have "json_len (record_json ex_stored) \<le> maxValueSize Recipients"
    by (simp add: record_json_def json_len_JObj record_members_def)
  then show ?thesis
    using zero_time_exact
    by (simp add: clean_record_def ex_stored_def ex_group_def uuid0_def zero_record_def record_times_def
        record_strings_def opt_list_def valid_utf8_ascii byte_eval)
qed

theorem kv_store_refines_maps_witness:
  "fst (kv_calls example_lib ex_ops empty_world) =
     [ResExists False None, ResErr None, ResExists True None, ResRecord (Inl [ErrNotFound]),
      ResErr None, ResRecord (Inr ex_stored)]"
proof -
  have h: "IsGroupHandle ex_group"
    by (simp add: ex_group_def IsGroupHandle_def is_hex_lower_def is_digit_def byte_eval)
  then have p: "clean_calls NewTrackingStore ex_ops"
    using uuid0 ex_stored_clean by (simp add: ex_ops_def)
  show ?thesis
    unfolding kv_store_refines_maps [OF represents_empty p, THEN conjunct1]
    by (simp add: ex_ops_def mock_call_def mock_GroupExists_def mock_AppendToGroup_def mock_GetRecord_def
        mock_WriteRecord_def NewTrackingStore_def group_ids_def MaxGroupEmails_def sentinels_def)
qed

end
