(* ===== verification/EngagementRetry.thy ===== *)
theory EngagementRetry
  imports EngagementHandler
begin

text \<open>
  Two runs of the engagement handler that show the limits of what a retried update reports: what
  the callback leaves in the variables of the handler is that of its last call, which need not be
  the call whose result was stored.
\<close>

section \<open>A delivery event on a bucket with a fault\<close>

lemma ex_delivered_read: "unmarshal_record L (json_print (record_json ex_delivered)) = Some ex_delivered"
proof (rule unmarshal_record_valid)
  show "list_all time_exact (record_times ex_delivered)"
    using ex_record_ok(1) ex_time_good by (simp add: ex_delivered_def times_ok_def record_times_def opt_list_def)
  show "list_all valid_utf8 (record_strings ex_delivered)"
    by (simp add: ex_delivered_def ex_record_def zero_record_def record_strings_def valid_utf8_ascii
        isValidUUID_ascii uuid0 byte_eval)
qed

lemma retry_first:
  assumes "w_now w = w_now empty_world"
  shows "engagement_fn example_lib ''DELIVERY'' ''m1'' ex_ses ex_record c w
     = (ex_delivered, c\<lparr>eventApplied := True, capturedAt := ex_time\<rparr>, w\<lparr>w_ticks := Suc (w_ticks w)\<rparr>)"
  using assms
  by (simp add: engagement_fn_def applyEngagementEvent_def ex_compact ex_ses_def ex_event_def opt_str_def
      parseTimestamp_def now_utc_def Let_def ex_delivered_def)
    (simp add: ex_record_def zero_record_def empty_world_def ex_time_def time_utc_def)

lemma retry_second:
  "engagement_fn example_lib ''DELIVERY'' ''m1'' ex_ses ex_delivered c w
     = (ex_delivered, c\<lparr>eventApplied := False, capturedAt := zero_time\<rparr>, w)"
proof -
  have "compactOpenedAtList ex_delivered = ex_delivered"
    by (simp add: compactOpenedAtList_def ex_delivered_def ex_record_def zero_record_def)
  moreover have "Delivered ex_delivered" by (simp add: ex_delivered_def)
  ultimately show ?thesis
    by (simp add: engagement_fn_def applyEngagementEvent_def not_applied_def Let_def)
qed

lemma ex_delivered_marshal:
  "marshal_record ex_delivered = Some (json_print (record_json ex_delivered))"
  "length (json_print (record_json ex_delivered)) \<le> 65536"
  using ex_delivered_fits by (auto simp: marshal_record_def split: if_splits)

section \<open>A write that was applied and reported as failed\<close>

text \<open>The first write of the event takes effect, but its reply is lost.\<close>

definition lost_reply_world :: world where
  "lost_reply_world = event_world\<lparr>w_moves := [quiet, \<lparr>mv_before = [], mv_fault = Some ([ErrText ''timeout''], True)\<rparr>]\<rparr>"

text \<open>
  The event is new and its effect is stored, the message is acknowledged, and no notification is
  published: the retry reads back the record it has itself written and takes the event for a replay.
\<close>

lemma lost_reply_drops_notification:
  "\<exists>w' v. Handle (kv_Store example_lib :: (unit, captured) TrackingStore) example_lib True (Some ex_body) lost_reply_world = (None, w')
     \<and> w_published w' = w_published lost_reply_world
     \<and> map_option ent_value (w_kv w' Recipients uuid0) = Some v \<and> unmarshal_record example_lib v = Some ex_delivered"
proof -
  note k = checkKey_uuid [OF uuid0]
  show ?thesis
    using ex_delivered_marshal
    by (simp add: Handle_tracked ex_body_tracked kv_Store_def kv_UpdateRecord_def k update_attempt_def kv_eval
        lost_reply_world_def event_world_def put_entry_def empty_world_def ex_record_read ex_delivered_read retry_first
        retry_second nothing_captured_def isValueTooLarge_def)
qed

section \<open>A record deleted before the retry\<close>

text \<open>Another writer deletes the record between the read and the first write.\<close>

definition deleted_world :: world where
  "deleted_world = event_world\<lparr>w_moves := [quiet, \<lparr>mv_before = [EnvDelete Recipients uuid0], mv_fault = None\<rparr>]\<rparr>"

text \<open>Nothing is stored, and a notification of the event is published all the same.\<close>

lemma deleted_record_still_notifies:
  "\<exists>w' d. Handle (kv_Store example_lib :: (unit, captured) TrackingStore) example_lib True (Some ex_body) deleted_world = (None, w')
     \<and> w_writes w' = w_writes deleted_world \<and> w_kv w' Recipients uuid0 = None
     \<and> w_published w' = w_published deleted_world @ [(EmailDeliveredSubject, d)]"
proof -
  note k = checkKey_uuid [OF uuid0]
  let ?p = "DeliveredPayload \<lparr>de_email_id = uuid0, de_group_id = [], de_delivered_at = ex_time\<rparr>"
  have "time_encodable ex_time" using ex_time_good by (simp add: time_exact_def)
  then obtain d where "marshal_payload ?p = Some d" by (simp add: marshal_payload_def)
  then have c: "publishEngagementEvent uuid0 ''DELIVERY'' (nothing_captured\<lparr>eventApplied := True, capturedAt := ex_time\<rparr>) w
      = publish EmailDeliveredSubject d w" for w
    by (simp add: publishEngagementEvent_def event_payload_def)
  show ?thesis
    using ex_delivered_marshal
    by (simp add: Handle_tracked ex_body_tracked kv_Store_def kv_UpdateRecord_def k update_attempt_def kv_eval
        deleted_world_def event_world_def put_entry_def delete_entry_def empty_world_def ex_record_read ex_delivered_read retry_first
        retry_second isValueTooLarge_def wrong_last_sequence_def jsErrCodeMessageTooLarge_def c publish_def)
qed

end
