(* ===== verification/Telemetry.thy ===== *)
theory Telemetry
  imports Config Complex_Main
begin

text \<open>
  The set-up around the service: \<open>observability/otel.go\<close> (the OpenTelemetry providers and their
  shutdown), \<open>nats/tracing.go\<close> (the trace context of a message) and \<open>logging/logging.go\<close> (the
  level and the attributes of log records). The OpenTelemetry libraries are the environment: each of
  their constructors succeeds or fails.
\<close>

section \<open>The sampler\<close>

text \<open>A 64-bit float as the range check sees it.\<close>

datatype float64 = NaN | Fl rat

definition fl_less :: "float64 \<Rightarrow> float64 \<Rightarrow> bool" where
  "fl_less x y = (case (x, y) of (Fl a, Fl b) \<Rightarrow> a < b | _ \<Rightarrow> False)"

datatype sampler =
    AlwaysSample
  | NeverSample
  | TraceIDRatioBased float64
  | ParentBased sampler

definition parseRatio :: "(string \<Rightarrow> float64 option) \<Rightarrow> string \<Rightarrow> float64" where
  "parseRatio parse_float arg =
     (if arg = [] then Fl 1
      else (case parse_float arg of
              None \<Rightarrow> Fl 1
            | Some r \<Rightarrow> if fl_less r (Fl 0) \<or> fl_less (Fl 1) r then Fl 1 else r))"

definition samplerFromEnv :: "unicode \<Rightarrow> (string \<Rightarrow> float64 option) \<Rightarrow> osenv \<Rightarrow> sampler" where
  "samplerFromEnv U parse_float env =
     (let s = to_lower U (trim_space (Getenv env ''OTEL_TRACES_SAMPLER''));
          arg = trim_space (Getenv env ''OTEL_TRACES_SAMPLER_ARG'')
      in if s = ''always_on'' then AlwaysSample
         else if s = ''always_off'' then NeverSample
         else if s = ''traceidratio'' then TraceIDRatioBased (parseRatio parse_float arg)
         else if s = ''parentbased_always_on'' then ParentBased AlwaysSample
         else if s = ''parentbased_always_off'' then ParentBased NeverSample
         else if s = ''parentbased_traceidratio'' then ParentBased (TraceIDRatioBased (parseRatio parse_float arg))
         else ParentBased (TraceIDRatioBased (parseRatio parse_float arg)))"

text \<open>The ratio lies between 0 and 1, unless the variable is the text of a NaN, which passes the check.\<close>

lemma parseRatio_range: "parseRatio pf arg = Fl r \<Longrightarrow> 0 \<le> r \<and> r \<le> 1"
  by (auto simp: parseRatio_def fl_less_def split: if_splits option.splits float64.splits)

lemma parseRatio_nan: "arg \<noteq> [] \<Longrightarrow> pf arg = Some NaN \<Longrightarrow> parseRatio pf arg = NaN"
  by (simp add: parseRatio_def fl_less_def)

section \<open>The providers\<close>

datatype provider = TracerProvider | MeterProvider | LoggerProvider

text \<open>
  What was done, in order: providers are created and shut down, and each one, like the propagator of
  trace contexts, is registered for the whole process.
\<close>

datatype otel_event = Started provider | Registered provider | PropagatorSet | ShutDown provider

text \<open>
  The errors of the constructors, and of shutting each provider down. The resource is made for a service
  name and version.
\<close>

record otel_calls =
  ot_resource :: "string \<Rightarrow> string \<Rightarrow> goerr option"
  ot_span_exporter :: "goerr option"
  ot_metric_reader :: "goerr option"
  ot_log_exporter :: "goerr option"
  ot_shutdown :: "provider \<Rightarrow> goerr option"

text \<open>\<open>errors.Join\<close>: \<open>nil\<close> if both are.\<close>

definition join_errors :: "goerr option \<Rightarrow> goerr option \<Rightarrow> goerr option" where
  "join_errors a b = (case (a, b) of
     (None, _) \<Rightarrow> b | (_, None) \<Rightarrow> a | (Some x, Some y) \<Rightarrow> Some (x @ y))"

text \<open>The loop of \<open>shutdown\<close>, from the last function to the first; afterwards there are none left.\<close>

fun shutdown_loop :: "otel_calls \<Rightarrow> provider list \<Rightarrow> goerr option \<Rightarrow> goerr option \<times> otel_event list" where
  "shutdown_loop oc [] err = (err, [])"
| "shutdown_loop oc (p # ps) err =
     (case shutdown_loop oc ps (join_errors err (ot_shutdown oc p)) of (err, evs) \<Rightarrow> (err, ShutDown p # evs))"

definition otel_shutdown ::
    "otel_calls \<Rightarrow> provider list \<Rightarrow> goerr option \<times> otel_event list \<times> provider list" where
  "otel_shutdown oc shutdownFuncs =
     (case shutdown_loop oc (rev shutdownFuncs) None of (err, evs) \<Rightarrow> (err, evs, []))"

definition handleErr ::
    "otel_calls \<Rightarrow> goerr option \<Rightarrow> provider list \<Rightarrow> goerr option \<times> otel_event list \<times> provider list" where
  "handleErr oc inErr fs =
     (case otel_shutdown oc fs of (e, evs, fs) \<Rightarrow> (join_errors inErr e, evs, fs))"

text \<open>
  \<open>SetupOTelSDK\<close>: the error, what was done, and the providers that the returned \<open>shutdown\<close> would
  still shut down.
\<close>

definition serviceName :: "osenv \<Rightarrow> string" where
  "serviceName env =
     (let n = Getenv env ''OTEL_SERVICE_NAME'' in if n = [] then ''lfx-v2-email-service'' else n)"

definition SetupOTelSDK :: "osenv \<Rightarrow> otel_calls \<Rightarrow> goerr option \<times> otel_event list \<times> provider list" where
  "SetupOTelSDK env oc =
     (let fs = []; res = ot_resource oc (serviceName env) (Getenv env ''OTEL_SERVICE_VERSION'') in
      if res \<noteq> None then handleErr oc res fs
      else
        let done = [PropagatorSet] in
        if ot_span_exporter oc \<noteq> None
        then (case handleErr oc (ot_span_exporter oc) fs of (e, evs, fs) \<Rightarrow> (e, done @ evs, fs))
        else
          let fs = fs @ [TracerProvider]; done = done @ [Started TracerProvider, Registered TracerProvider] in
          if ot_metric_reader oc \<noteq> None
          then (case handleErr oc (ot_metric_reader oc) fs of (e, evs, fs) \<Rightarrow> (e, done @ evs, fs))
          else
            let fs = fs @ [MeterProvider]; done = done @ [Started MeterProvider, Registered MeterProvider] in
            if ot_log_exporter oc \<noteq> None
            then (case handleErr oc (ot_log_exporter oc) fs of (e, evs, fs) \<Rightarrow> (e, done @ evs, fs))
            else (None, done @ [Started LoggerProvider, Registered LoggerProvider], fs @ [LoggerProvider]))"

section \<open>Trace context of a message\<close>

type_synonym nats_header = "string \<Rightarrow> string list option"

text \<open>A \<open>nil\<close> header is \<open>None\<close>; reading it finds nothing, writing to it does nothing.\<close>

definition carrier_Get :: "nats_header option \<Rightarrow> string \<Rightarrow> string" where
  "carrier_Get c key =
     (case c of None \<Rightarrow> [] | Some h \<Rightarrow>
        (case h key of None \<Rightarrow> [] | Some vals \<Rightarrow> if vals = [] then [] else vals ! 0))"

definition carrier_Set :: "nats_header option \<Rightarrow> string \<Rightarrow> string \<Rightarrow> nats_header option" where
  "carrier_Set c key v = (case c of None \<Rightarrow> None | Some h \<Rightarrow> Some (h(key \<mapsto> [v])))"

text \<open>\<open>range\<close> over the map yields its keys in any order, each one once.\<close>

definition carrier_Keys :: "nats_header option \<Rightarrow> string list \<Rightarrow> bool" where
  "carrier_Keys c keys \<longleftrightarrow>
     distinct keys \<and> (\<forall>k. k \<in> set keys \<longleftrightarrow> (case c of None \<Rightarrow> False | Some h \<Rightarrow> h k \<noteq> None))"

lemma carrier_Keys_Set:
  "carrier_Keys (Some h) keys \<Longrightarrow> h k \<noteq> None \<Longrightarrow> carrier_Keys (carrier_Set (Some h) k v) keys"
  "carrier_Keys (Some h) keys \<Longrightarrow> h k = None \<Longrightarrow> carrier_Keys (carrier_Set (Some h) k v) (keys @ [k])"
  by (auto simp: carrier_Keys_def carrier_Set_def)

lemma carrier_Get_Set: "carrier_Get (carrier_Set (Some h) k v) k' = (if k' = k then v else carrier_Get (Some h) k')"
  by (simp add: carrier_Get_def carrier_Set_def)

datatype span_attr = AttrString string string | AttrInt string nat

definition ExtractAndStartConsumerSpan :: "string \<Rightarrow> string \<Rightarrow> string \<times> span_attr list" where
  "ExtractAndStartConsumerSpan subject data =
     (subject @ '' process'',
      [AttrString ''messaging.system'' ''nats'',
       AttrString ''messaging.destination.name'' subject,
       AttrString ''messaging.operation.type'' ''process'',
       AttrInt ''messaging.message.body.size'' (length data)])"

section \<open>Logging\<close>

datatype log_level = LevelDebug | LevelInfo | LevelWarn | LevelError

definition log_config :: "osenv \<Rightarrow> log_level \<times> bool" where
  "log_config env =
     (let l = Getenv env ''LOG_LEVEL''; a = Getenv env ''LOG_ADD_SOURCE''
      in (if l = ''debug'' then LevelDebug else if l = ''warn'' then LevelWarn
          else if l = ''error'' then LevelError else LevelInfo,
          a = ''true'' \<or> a = ''1''))"

text \<open>
  The default logger: a JSON handler with these options, wrapped by the handler that adds the trace
  identifiers and by the one that adds the attributes of the context. The flag is the one of the
  package \<open>log\<close> that shows the file and line.
\<close>

datatype slog_handler =
    JSONHandler log_level bool
  | OtelHandler slog_handler
  | contextHandler slog_handler

record log_setup =
  log_flags_long_file :: bool
  slog_default :: slog_handler

definition InitStructuredLogConfig :: "osenv \<Rightarrow> log_setup" where
  "InitStructuredLogConfig env =
     (case log_config env of (level, add_source) \<Rightarrow>
        \<lparr>log_flags_long_file = True, slog_default = contextHandler (OtelHandler (JSONHandler level add_source))\<rparr>)"

text \<open>The attributes of a context, if it has any, and a record handled under it.\<close>

definition AppendCtx :: "'a list option \<Rightarrow> 'a \<Rightarrow> 'a list option" where
  "AppendCtx parent attr = (case parent of Some v \<Rightarrow> Some (v @ [attr]) | None \<Rightarrow> Some [attr])"

definition contextHandler_Handle :: "'a list option \<Rightarrow> 'a list \<Rightarrow> 'a list" where
  "contextHandler_Handle ctx_attrs record_attrs =
     (case ctx_attrs of Some v \<Rightarrow> record_attrs @ v | None \<Rightarrow> record_attrs)"

section \<open>Set-up is all or nothing\<close>

lemma shutdown_loop_events: "snd (shutdown_loop oc ps e) = map ShutDown ps"
  by (induction oc ps e rule: shutdown_loop.induct) (auto split: prod.split)

lemma otel_shutdown_eq: "snd (otel_shutdown oc fs) = (map ShutDown (rev fs), [])"
  using shutdown_loop_events [of oc "rev fs" None] by (auto simp: otel_shutdown_def split: prod.split)

lemma handleErr_Some: "\<exists>e'. handleErr oc (Some e) fs = (Some e', map ShutDown (rev fs), [])"
  using otel_shutdown_eq [of oc fs]
  by (cases "otel_shutdown oc fs") (auto simp: handleErr_def join_errors_def split: option.split)

definition started :: "otel_event list \<Rightarrow> provider list" where
  "started evs = concat (map (\<lambda>e. case e of Started p \<Rightarrow> [p] | _ \<Rightarrow> []) evs)"

definition registered :: "otel_event list \<Rightarrow> provider list" where
  "registered evs = concat (map (\<lambda>e. case e of Registered p \<Rightarrow> [p] | _ \<Rightarrow> []) evs)"

lemma started_simps [simp]:
  "started (a @ b) = started a @ started b" "started (map ShutDown ps) = []"
  "registered (a @ b) = registered a @ registered b" "registered (map ShutDown ps) = []"
  by (simp_all add: started_def registered_def)

text \<open>What is left of a set-up that failed.\<close>

definition rolled_back :: "otel_event list \<Rightarrow> provider list \<Rightarrow> bool" where
  "rolled_back evs fs \<longleftrightarrow> fs = [] \<and> registered evs = started evs \<and> distinct (started evs)
     \<and> (\<exists>evs'. evs = evs' @ map ShutDown (rev (started evs)) \<and> (\<forall>p. ShutDown p \<notin> set evs'))"

lemma handleErr_rolled_back:
  assumes "started es = ps" "registered es = ps" "distinct ps" "\<forall>p. ShutDown p \<notin> set es"
  shows "\<exists>e' evs fs. handleErr oc (Some e) ps = (Some e', evs, fs) \<and> rolled_back (es @ evs) fs"
proof -
  obtain e' where "handleErr oc (Some e) ps = (Some e', map ShutDown (rev ps), [])"
    using handleErr_Some by blast
  then show ?thesis using assms by (auto simp: rolled_back_def)
qed

text \<open>
  C40: the set-up of telemetry succeeds with all three providers running and registered or fails with none
  running: on a failure at any stage, a provider is registered exactly if it was started, nothing
  is started after the first shutdown, and all that were started have then been shut down, each
  once and in the reverse order; an error is returned. After a success the returned function
  shuts all of them down, the last one first, and calling it again does nothing.
\<close>

theorem telemetry_all_or_nothing:
  "case SetupOTelSDK env oc of
     (None, evs, fs) \<Rightarrow> started evs = [TracerProvider, MeterProvider, LoggerProvider]
       \<and> registered evs = started evs \<and> PropagatorSet \<in> set evs
       \<and> snd (otel_shutdown oc fs) = (map ShutDown [LoggerProvider, MeterProvider, TracerProvider], [])
       \<and> otel_shutdown oc (snd (snd (otel_shutdown oc fs))) = (None, [], [])
   | (Some e, evs, fs) \<Rightarrow> rolled_back evs fs"
proof -
  let ?t = "[PropagatorSet, Started TracerProvider, Registered TracerProvider]"
  let ?m = "?t @ [Started MeterProvider, Registered MeterProvider]"
  note rb = handleErr_rolled_back [of "[]" "[]" oc] handleErr_rolled_back [of "[PropagatorSet]" "[]" oc]
    handleErr_rolled_back [of ?t "[TracerProvider]" oc] handleErr_rolled_back [of ?m "[TracerProvider, MeterProvider]" oc]
  show ?thesis
  proof (cases "ot_resource oc (serviceName env) (Getenv env ''OTEL_SERVICE_VERSION'')")
    case (Some e)
    then show ?thesis using rb(1) [of e] by (auto simp: SetupOTelSDK_def started_def registered_def)
  next
    case r: None
    show ?thesis
    proof (cases "ot_span_exporter oc")
      case (Some e)
      then show ?thesis using r rb(2) [of e] by (auto simp: SetupOTelSDK_def started_def registered_def)
    next
      case t: None
      show ?thesis
      proof (cases "ot_metric_reader oc")
        case (Some e)
        then show ?thesis using r t rb(3) [of e] by (auto simp: SetupOTelSDK_def started_def registered_def)
      next
        case m: None
        show ?thesis
        proof (cases "ot_log_exporter oc")
          case (Some e)
          then show ?thesis using r t m rb(4) [of e] by (auto simp: SetupOTelSDK_def started_def registered_def)
        next
          case None
          have "otel_shutdown oc [] = (None, [], [])" by (simp add: otel_shutdown_def)
          with r t m None otel_shutdown_eq [of oc] show ?thesis
            by (simp add: SetupOTelSDK_def started_def registered_def)
        qed
      qed
    qed
  qed
qed

end
