(* ===== verification/Spec2Isabelle.thy ===== *)
theory Spec2Isabelle
  imports Replica MockStore EngagementRetry Telemetry
begin

text \<open>
  \<^bold>\<open>The e-mail service\<close>

  The service answers three NATS subjects (send an e-mail, read the status of tracked e-mails, read
  the engagement totals of a group), keeps its tracking records in two NATS key-value buckets, sends
  mail by SMTP, and applies the SES engagement events it polls from an SQS queue to those records,
  publishing a notification for each new one. This development models the Go code under \<open>src/\<close> as
  functions on explicit state and proves what its parts promise, alone and composed.

  \<^bold>\<open>The state and the environment\<close>

  \<open>World\<close> holds the state every part acts on: the entries and revisions of the two buckets, the mail
  handed to the server, the published events, the replies, and a log of the bucket calls and of the
  writes that took effect. NATS, SMTP, the clock, the random source, \<open>uuid.NewString\<close> and the
  context are not part of the repository; what they do is data of the world. In particular every
  bucket call is preceded by a move of the environment: other writers may change any key, and the
  call may fail with any error, a failed write having been applied or not. A theorem about all
  worlds is therefore a theorem about all interleavings with other writers and all failures; the
  lemmas of \<open>KvUndisturbed\<close> and the properties called undisturbed are about worlds without moves.
  What of the standard library is not modelled (\<open>mail.ParseAddress\<close>, \<open>url.Parse\<close> and the text of an
  \<open>url.URL\<close>, the Unicode tables beyond ASCII) are the fields of the record \<open>golib\<close>, an argument of the
  definitions that use them; nothing is assumed about them unless a theorem says so.

  \<^bold>\<open>Theories\<close>, in the order of the code's layers:

  \<^item> \<open>Prelude\<close>, \<open>GoStrings\<close>, \<open>GoStrconv\<close>, \<open>GoTime\<close>, \<open>GoTimeParse\<close>, \<open>GoJson\<close>, \<open>GoMime\<close>: what the code
    uses of Go's library, written out: byte strings, UTF-8, white space and case, case folding,
    decimal numbers, dates, RFC 3339 text and its parser, the JSON encoder with its escaping and the
    lengths it produces, MIME words and quoted-printable text. Go's \<open>int\<close> is a 64-bit word. An error
    is the list of the errors in its chain, so that \<open>errors.Is\<close> is membership.
  \<^item> \<open>GoJsonParse\<close>, \<open>GoJsonUnquote\<close>: the other half of \<open>encoding/json\<close>: the grammar with its limit of
    depth, and the value of a string token. What the encoder prints is parsed back.
  \<^item> \<open>Api\<close>: subjects, limits, requests, responses, records and events of \<open>pkg/api/nats.go\<close> with their
    JSON text; \<open>Redaction\<close>: \<open>pkg/redaction\<close>; \<open>SesEvent\<close>: the decoded SNS and SES documents.
    \<open>JsonDecode\<close>: \<open>json.Unmarshal\<close> into these types, one table of members per struct with the names of
    its tags. \<open>JsonRoundtrip\<close>: records are read back as written. \<open>JsonTyping\<close>: what any
    text can be decoded to. \<open>EventText\<close>: the documented text of an
    event as SNS delivers it, and that it is read as that event.
  \<^item> \<open>AddressPolicy\<close>: \<open>internal/domain/policy.go\<close>. \<open>Tracking\<close>: group handles, \<open>domain.TrackingStore\<close>
    as a record of operations, the null store, and the locale \<open>tracking_store\<close> with what any store
    promises its callers.
  \<^item> \<open>KvStore\<close>: \<open>internal/infrastructure/kv/store.go\<close>; \<open>KvUndisturbed\<close>: its operations when nobody
    interferes. \<open>MockStore\<close>: the store on maps of \<open>internal/service/mocks\<close>, which the bucket store
    is shown to implement when no error is injected.
  \<^item> \<open>EngagementEvent\<close>, \<open>EngagementHandler\<close>, \<open>EngagementRetry\<close>: \<open>engagement_event_handler.go\<close>: the
    effect of an event on a record, the handler of a message, and two runs in which the retry of an
    update reports something else than what was stored.
  \<^item> \<open>SmtpMessage\<close>, \<open>SmtpRedact\<close>, \<open>SmtpSender\<close>: \<open>internal/infrastructure/smtp\<close>: the message, the
    redaction of server errors, delivery and the two implementations of \<open>domain.Sender\<close>.
  \<^item> \<open>SendHandler\<close>, \<open>SendService\<close>: \<open>send_email_handler.go\<close> on any store and sender (locales
    \<open>email_sender\<close> and \<open>send_service\<close>), and on the bucket store with SMTP. \<open>GroupExample\<close>,
    \<open>StatusHandler\<close>, \<open>AnalyticsHandler\<close>: the two query handlers.
  \<^item> \<open>Poller\<close>: \<open>internal/infrastructure/sqs/poller.go\<close>, alone and wired to the engagement handler.
  \<^item> \<open>Config\<close>: \<open>cmd/email-service/config.go\<close>. \<open>Startup\<close>: the decisions of \<open>main\<close> and
    \<open>setupNATSAndKV\<close>, from the variables of the environment to the running handlers. \<open>Replica\<close>: the
    goroutines of \<open>main\<close> and \<open>subscribeHandlers\<close> as a step relation: read slots, drain, group
    counter, exit. \<open>Telemetry\<close>: OpenTelemetry set-up, trace headers and log configuration.

  \<^bold>\<open>What the theorems show\<close>

  Store: whatever others write and whichever calls fail, only well-formed keys are used, an index
  write extends the very list it replaces, reported success means recorded, a scan hands out only
  records of the group asked for; undisturbed, it is the store on maps, down to the text of the
  entries: what is stored is read as it was written, and any text that is read at all is read as a
  well-formed record. Events: the documented text of an event about a tracked e-mail reaches its
  record; a record that a send
  created can be encoded and stays within its bucket under every sequence of events; replays are
  dropped; times and flags only advance; the handler acknowledges or retries as documented. Mail:
  no field can inject a header, the recipient and sender stay within the allowlists, from the
  environment variables to the envelope; the mail is independent of the group handle; addresses
  are redacted from server errors as a reference definition says. Queries: replies disclose only
  records of the group whose handle was presented and, undisturbed, are the exact page or totals.
  Service: configuration is read back as written; without the buckets the service is cut off from
  tracking; at most eight reads are in progress and every request is answered once; a shutdown
  always comes to its end, and the process exits only when everything it started has ended; the
  poller deletes exactly what was handled and gives up after the configured failures.

  \<^bold>\<open>Bounds and fuel\<close>

  Only the JSON parser runs on fuel: twice the length of the text and one, which \<open>parse_fuel\<close> and
  \<open>json_parse_any_fuel\<close> of \<open>GoJsonParse\<close> show to be enough (more fuel changes no result); its limit of
  10000 nested values is the package's own. The other recursions that are not structural
  have measures: the scan drops sixteen identifiers each time, the compaction of a record at least
  one entry, the redaction at least one byte. The loop of the poller recurses on the list of its
  iterations, so a theorem about all lists is about every finite prefix of a run. \<open>fuel\<close> in
  \<open>Replica\<close> is a bound that the shutdown provably stays within, not a parameter.

  \<^bold>\<open>Not modelled\<close>

  Durations: a deadline is an event that may come at any time, so the arithmetic of the shutdown
  budget has no counterpart. Log output. The \<open>Version\<close> variables. The concurrent reads of one scan
  chunk are one after the other, with moves of the environment in between, since each is one bucket
  call whose result is stored by position. A handler runs in one step of the replica, since what
  other goroutines do to the buckets meanwhile is part of its world. The locks of the store on
  maps, whose operations are one step each. The libraries behind NATS, SMTP, AWS, OpenTelemetry and \<open>slog\<close>.
\<close>

end
